(* ===== verification/Py_Prelude.thy ===== *)
theory Py_Prelude
  imports Complex_Main "HOL-Library.AList" "HOL-Library.Multiset"
begin

text \<open>
  The Python data the components share: errors as values, insertion-ordered dictionaries as
  association lists, ceiling division, rounding, the outcome of a shuffle, and the two machine
  interfaces (a component whose operations keep an invariant, a component whose operations never
  decrease a counter) that the component theories interpret on their own operations.

  An operation of a stateful object takes the object's record and returns
  \<open>(py_error + 'a) \<times> 's\<close>: the raised exception or the returned value, and the state at that
  moment, so that what a handler had already written when it raised is visible.
\<close>

section \<open>Errors and results\<close>

datatype py_error =
    ZeroDivisionError
  | KeyError
  | IndexError
  | ValueError
  | TypeError
  | AttributeError
  | StopIteration
  | StructError
  | AssertionError

type_synonym 'a py_result = "py_error + 'a"

type_synonym ('s, 'a) py_run = "(py_error + 'a) \<times> 's"

text \<open>A dictionary key or a name that the code takes from either strings or integers.\<close>

datatype pykey = KInt int | KStr string

named_theorems dict_simps \<open>lookup, keys and well-formedness of ordered dictionaries\<close>
named_theorems machine_defs \<open>the step functions of the component machines\<close>

section \<open>Insertion-ordered dictionaries\<close>

text \<open>
  A Python dict keeps its keys in insertion order; storing under an existing key keeps its place.
  That is \<^const>\<open>AList.update\<close> on association lists with distinct keys; \<^const>\<open>AList.delete\<close> is
  \<open>pop\<close>.
\<close>

type_synonym ('k, 'v) dict = "('k \<times> 'v) list"

definition wf_dict :: "('k, 'v) dict \<Rightarrow> bool" where
  "wf_dict d \<longleftrightarrow> distinct (map fst d)"

definition dict_get :: "('k, 'v) dict \<Rightarrow> 'k \<Rightarrow> 'v \<Rightarrow> 'v" where
  "dict_get d k def = (case map_of d k of None \<Rightarrow> def | Some v \<Rightarrow> v)"

definition dict_setdefault :: "'k \<Rightarrow> 'v \<Rightarrow> ('k, 'v) dict \<Rightarrow> ('k, 'v) dict" where
  "dict_setdefault k v d = (case map_of d k of None \<Rightarrow> AList.update k v d | Some _ \<Rightarrow> d)"

definition dict_has :: "('k, 'v) dict \<Rightarrow> 'k \<Rightarrow> bool" where
  "dict_has d k \<longleftrightarrow> map_of d k \<noteq> None"

text \<open>\<open>d.update(e)\<close> and \<open>dict(pairs)\<close>: store the pairs one after the other.\<close>

definition dict_merge :: "('k, 'v) dict \<Rightarrow> ('k, 'v) dict \<Rightarrow> ('k, 'v) dict" where
  "dict_merge d e = fold (\<lambda>(k, v). AList.update k v) e d"

lemma wf_dict_Nil [simp]: "wf_dict []"
  by (simp add: wf_dict_def)

lemma wf_dict_update [simp]: "wf_dict d \<Longrightarrow> wf_dict (AList.update k v d)"
  by (simp add: wf_dict_def distinct_update)

lemma wf_dict_delete [simp]: "wf_dict d \<Longrightarrow> wf_dict (AList.delete k d)"
  by (simp add: wf_dict_def distinct_delete)

lemma wf_dict_filter [simp]: "wf_dict d \<Longrightarrow> wf_dict (filter P d)"
  by (simp add: wf_dict_def distinct_map_filter)

lemma wf_dict_merge [simp]: "wf_dict d \<Longrightarrow> wf_dict (dict_merge d e)"
  unfolding dict_merge_def by (induction e arbitrary: d) auto

lemma wf_dict_setdefault [simp]: "wf_dict d \<Longrightarrow> wf_dict (dict_setdefault k v d)"
  by (simp add: dict_setdefault_def split: option.splits)

lemmas dict_lookup = update_conv' delete_conv' dict_get_def dict_has_def

declare dict_lookup [dict_simps] dom_update [dict_simps] update_keys [dict_simps]

lemma dict_get_update [simp]:
  "dict_get (AList.update k v d) k' def = (if k = k' then v else dict_get d k' def)"
  by (simp add: dict_get_def update_conv')

lemma dict_has_update [simp]: "dict_has (AList.update k v d) k' \<longleftrightarrow> k' = k \<or> dict_has d k'"
  by (auto simp: dict_has_def update_conv')

lemma dict_has_delete [simp]: "dict_has (AList.delete k d) k' \<longleftrightarrow> k' \<noteq> k \<and> dict_has d k'"
  by (auto simp: dict_has_def delete_conv')

lemma dict_has_iff: "dict_has d k \<longleftrightarrow> k \<in> fst ` set d"
  by (simp add: dict_has_def map_of_eq_None_iff)

lemma update_new: "map_of d k = None \<Longrightarrow> AList.update k v d = d @ [(k, v)]"
  by (induction d) (auto split: if_splits)

lemma update_mem: "x \<in> set (AList.update k v d) \<Longrightarrow> x = (k, v) \<or> x \<in> set d"
  by (induction d) (auto split: if_splits)

lemma delete_mem: "x \<in> set (AList.delete k d) \<Longrightarrow> x \<in> set d"
  by (simp add: AList.delete_eq)

lemma wf_dict_mem_map_of: "wf_dict d \<Longrightarrow> (k, v) \<in> set d \<longleftrightarrow> map_of d k = Some v"
  by (simp add: wf_dict_def map_of_eq_Some_iff)

lemma delete_split:
  "wf_dict d \<Longrightarrow> map_of d k = Some v \<Longrightarrow> mset d = add_mset (k, v) (mset (AList.delete k d))"
proof (induction d)
  case (Cons p d)
  show ?case
  proof (cases "fst p = k")
    case True
    with Cons.prems have "k \<notin> fst ` set d" by (auto simp: wf_dict_def)
    then have "AList.delete k d = d" by (rule delete_id)
    with True Cons.prems show ?thesis by (cases p) (auto simp: AList.delete_eq)
  next
    case False
    with Cons show ?thesis by (cases p) (auto simp: wf_dict_def AList.delete_eq split_def)
  qed
qed simp

lemma dict_merge_append:
  "distinct (map fst e) \<Longrightarrow> fst ` set d \<inter> fst ` set e = {} \<Longrightarrow> dict_merge d e = d @ e"
proof (induction e arbitrary: d)
  case (Cons p e)
  obtain k v where p: "p = (k, v)" by fastforce
  have "AList.update k v d = d @ [(k, v)]"
    using Cons.prems p by (intro update_new) (auto simp: map_of_eq_None_iff)
  then show ?case using Cons p by (auto simp: dict_merge_def)
qed (simp add: dict_merge_def)

text \<open>
  The idiom that collects values under a key: a new key gets a list of one, a known key's list grows.
\<close>

definition group_add :: "'k \<Rightarrow> 'v \<Rightarrow> ('k, 'v list) dict \<Rightarrow> ('k, 'v list) dict" where
  "group_add k x d =
     (if dict_has d k then AList.update k (dict_get d k [] @ [x]) d else AList.update k [x] d)"

definition group_all :: "('v \<Rightarrow> 'k) \<Rightarrow> 'v list \<Rightarrow> ('k, 'v list) dict" where
  "group_all key xs = fold (\<lambda>x. group_add (key x) x) xs []"

lemma group_add_get: "dict_get (group_add k x d) j [] = (if j = k then dict_get d k [] @ [x] else dict_get d j [])"
  by (auto simp: group_add_def dict_has_def dict_get_def update_conv' split: option.splits)

lemma group_all_snoc: "group_all key (xs @ [x]) = group_add (key x) x (group_all key xs)"
  by (simp add: group_all_def)

lemma group_all_lookup:
  "map_of (group_all key xs) k = (if k \<in> key ` set xs then Some (filter (\<lambda>x. key x = k) xs) else None)"
proof (induction xs rule: rev_induct)
  case (snoc x xs)
  have "filter (\<lambda>y. key y = key x) xs = []" if "key x \<notin> key ` set xs"
    using that by (simp add: filter_empty_conv image_iff) metis
  then show ?case using snoc
    by (cases "key x \<in> key ` set xs") (auto simp: group_all_snoc group_add_def dict_has_def dict_get_def update_conv')
qed (simp add: group_all_def)

lemma wf_group_all: "wf_dict (group_all key xs)"
  by (induction xs rule: rev_induct) (simp_all add: group_all_snoc group_add_def, simp add: group_all_def)

lemma group_all_mem: "(k, ys) \<in> set (group_all key xs) \<longleftrightarrow> k \<in> key ` set xs \<and> ys = filter (\<lambda>x. key x = k) xs"
  by (auto simp: wf_dict_mem_map_of [OF wf_group_all] group_all_lookup)

lemma group_all_keys: "fst ` set (group_all key xs) = key ` set xs" "distinct (map fst (group_all key xs))"
proof -
  show "fst ` set (group_all key xs) = key ` set xs"
    using group_all_lookup [of key xs] by (metis (no_types) dom_map_of_conv_image_fst domIff option.simps(3) set_eqI)
  show "distinct (map fst (group_all key xs))" using wf_group_all by (simp add: wf_dict_def)
qed

lemma mset_group_all: "mset (group_all key xs) = image_mset (\<lambda>k. (k, filter (\<lambda>x. key x = k) xs)) (mset_set (key ` set xs))"
proof -
  have "distinct (map fst (group_all key xs))" using wf_group_all by (simp add: wf_dict_def)
  then have d: "distinct (group_all key xs)" by (simp add: distinct_map)
  have "set (group_all key xs) = (\<lambda>k. (k, filter (\<lambda>x. key x = k) xs)) ` (key ` set xs)"
    using group_all_mem [of _ _ key xs] by auto
  moreover have "inj_on (\<lambda>k. (k, filter (\<lambda>x. key x = k) xs)) (key ` set xs)" by (simp add: inj_on_def)
  ultimately show ?thesis using d by (metis image_mset_mset_set mset_set_set)
qed

text \<open>A property of every entry.\<close>

definition dict_all :: "('k \<Rightarrow> 'v \<Rightarrow> bool) \<Rightarrow> ('k, 'v) dict \<Rightarrow> bool" where
  "dict_all P d \<longleftrightarrow> list_all (\<lambda>(k, v). P k v) d"

lemma dict_all_Nil [simp]: "dict_all P []"
  by (simp add: dict_all_def)

lemma dict_all_update [simp]: "dict_all P d \<Longrightarrow> P k v \<Longrightarrow> dict_all P (AList.update k v d)"
  by (auto simp: dict_all_def list_all_iff dest: update_mem)

lemma dict_all_delete [simp]: "dict_all P d \<Longrightarrow> dict_all P (AList.delete k d)"
  by (auto simp: dict_all_def list_all_iff dest: delete_mem)

lemma dict_all_setdefault [simp]: "dict_all P d \<Longrightarrow> P k v \<Longrightarrow> dict_all P (dict_setdefault k v d)"
  by (simp add: dict_setdefault_def split: option.splits)

lemma dict_all_lookup: "dict_all P d \<Longrightarrow> map_of d k = Some v \<Longrightarrow> P k v"
  by (auto simp: dict_all_def list_all_iff dest: map_of_SomeD)

lemma dict_all_get: "dict_all P d \<Longrightarrow> P k def \<Longrightarrow> P k (dict_get d k def)"
  by (auto simp: dict_get_def dest: dict_all_lookup split: option.splits)

lemma dict_all_iff: "dict_all P d \<longleftrightarrow> (\<forall>(k, v)\<in>set d. P k v)"
  by (simp add: dict_all_def list_all_iff)

lemma dict_all_filter [simp]: "dict_all P d \<Longrightarrow> dict_all P (filter Q d)"
  by (auto simp: dict_all_def list_all_iff)

text \<open>The dictionary interface its clients use, and its interpretation on association lists.\<close>

locale ordered_dict =
  fixes look :: "'d \<Rightarrow> 'k \<Rightarrow> 'v option"
    and put :: "'k \<Rightarrow> 'v \<Rightarrow> 'd \<Rightarrow> 'd"
    and drop_key :: "'k \<Rightarrow> 'd \<Rightarrow> 'd"
    and wf :: "'d \<Rightarrow> bool"
  assumes look_put: "look (put k v d) k' = (if k' = k then Some v else look d k')"
    and look_drop: "look (drop_key k d) k' = (if k' = k then None else look d k')"
    and wf_put: "wf d \<Longrightarrow> wf (put k v d)"
    and wf_drop: "wf d \<Longrightarrow> wf (drop_key k d)"
begin

lemma put_get_same: "look (put k v d) k = Some v"
  by (simp add: look_put)

lemma put_get_other: "k' \<noteq> k \<Longrightarrow> look (put k v d) k' = look d k'"
  by (simp add: look_put)

lemma last_put_wins: "look (put k v (put k w d)) k' = look (put k v d) k'"
  by (simp add: look_put)

lemma puts_look:
  "look (fold (\<lambda>(k, v). put k v) ps d) k' =
     (case map_of (rev ps) k' of None \<Rightarrow> look d k' | Some v \<Rightarrow> Some v)"
proof (induction ps arbitrary: d)
  case (Cons p ps)
  then show ?case by (cases p) (auto simp: look_put map_add_def split: option.splits)
qed simp

end

interpretation alist_dict: ordered_dict map_of AList.update AList.delete wf_dict
  by unfold_locales (auto simp: update_conv' delete_conv')

section \<open>Arithmetic of the code\<close>

text \<open>
  \<open>math.ceil(a / b)\<close> on integers. The true division of the source is a float; the ceiling of the
  float and the ceiling of the quotient agree while \<open>|a| + |b| < 2^52\<close>, far above any dataset or
  node count.
\<close>

definition ceil_div :: "int \<Rightarrow> int \<Rightarrow> int" where
  "ceil_div a b = - ((- a) div b)"

text \<open>\<open>int(a / b)\<close> truncates towards zero.\<close>

definition trunc_div :: "int \<Rightarrow> int \<Rightarrow> int" where
  "trunc_div a b =
     (if a < 0
      then (if b < 0 then (- a) div (- b) else - ((- a) div b))
      else (if b < 0 then - (a div (- b)) else a div b))"

lemma trunc_div_nonneg: "0 \<le> a \<Longrightarrow> 0 < b \<Longrightarrow> trunc_div a b = a div b"
  by (simp add: trunc_div_def)

text \<open>\<open>int(x)\<close> and \<open>round(x)\<close>, \<open>round(x, n)\<close> (half to even) on exact rationals.\<close>

definition py_int :: "rat \<Rightarrow> int" where
  "py_int x = (if 0 \<le> x then \<lfloor>x\<rfloor> else \<lceil>x\<rceil>)"

definition py_round :: "rat \<Rightarrow> int" where
  "py_round x =
     (let f = \<lfloor>x\<rfloor>; r = x - of_int f
      in if r < 1 / 2 then f else if r > 1 / 2 then f + 1 else if even f then f else f + 1)"

definition py_round_nd :: "nat \<Rightarrow> rat \<Rightarrow> rat" where
  "py_round_nd n x = of_int (py_round (x * 10 ^ n)) / 10 ^ n"

lemma ceil_div_bounds:
  assumes "0 < b"
  shows "a \<le> ceil_div a b * b" and "ceil_div a b * b < a + b"
proof -
  have "(- a) mod b = - a - (- a) div b * b"
    by (simp add: minus_div_mult_eq_mod)
  moreover have "0 \<le> (- a) mod b" "(- a) mod b < b" using assms by simp_all
  ultimately show "a \<le> ceil_div a b * b" "ceil_div a b * b < a + b"
    by (simp_all add: ceil_div_def)
qed

lemma ceil_div_nonneg: "0 \<le> a \<Longrightarrow> 0 < b \<Longrightarrow> 0 \<le> ceil_div a b"
  using ceil_div_bounds(1) [of b a] by (metis mult_less_0_iff not_less order_trans)

lemma ceil_div_pos: "0 < a \<Longrightarrow> 0 < b \<Longrightarrow> 0 < ceil_div a b"
  using ceil_div_bounds(1) [of b a] by (metis less_le_trans zero_less_mult_pos2)

lemma ceil_div_le_iff: "0 < b \<Longrightarrow> ceil_div a b \<le> n \<longleftrightarrow> a \<le> n * b"
proof
  assume "0 < b" "ceil_div a b \<le> n"
  then have "ceil_div a b * b \<le> n * b" by simp
  with ceil_div_bounds(1) [OF \<open>0 < b\<close>, of a] show "a \<le> n * b" by linarith
next
  assume b: "0 < b" and "a \<le> n * b"
  with ceil_div_bounds(2) [OF b, of a] have "ceil_div a b * b < (n + 1) * b"
    by (simp add: algebra_simps)
  with b show "ceil_div a b \<le> n" by (simp add: mult_less_cancel_right)
qed

lemma ceil_div_floor: "0 < b \<Longrightarrow> ceil_div a b = a div b + (if a mod b \<noteq> 0 then 1 else 0)"
  by (simp add: ceil_div_def zdiv_zminus1_eq_if)

lemma ceil_div_multiple: "0 < b \<Longrightarrow> ceil_div (n * b) b = n"
  by (simp add: ceil_div_def flip: mult_minus_left)

section \<open>Lists: indexing and shuffling\<close>

text \<open>Python indexing: negative indices count from the end, out of range raises.\<close>

definition py_index :: "'a list \<Rightarrow> int \<Rightarrow> 'a py_result" where
  "py_index xs i =
     (let j = (if i < 0 then i + int (length xs) else i)
      in if 0 \<le> j \<and> j < int (length xs) then Inr (xs ! nat j) else Inl IndexError)"

text \<open>
  \<open>random.shuffle(xs)\<close>: the random draw is the argument \<open>p\<close>, the list of source positions in their
  new order. A list that is no permutation of the positions is no possible outcome and leaves the
  list as it is, so \<open>shuffle_by p\<close> ranges over exactly the reorderings of its argument.
\<close>

definition shuffle_by :: "nat list \<Rightarrow> 'a list \<Rightarrow> 'a list" where
  "shuffle_by p xs = (if sort p = [0..<length xs] then map ((!) xs) p else xs)"

lemma mset_shuffle_by [simp]: "mset (shuffle_by p xs) = mset xs"
proof (cases "sort p = [0..<length xs]")
  case True
  then have "mset p = mset [0..<length xs]" by (metis mset_sort)
  then have "mset (map ((!) xs) p) = mset (map ((!) xs) [0..<length xs])"
    by (simp only: mset_map)
  with True show ?thesis by (simp add: shuffle_by_def map_nth)
qed (simp add: shuffle_by_def)

lemma set_shuffle_by [simp]: "set (shuffle_by p xs) = set xs"
  by (metis mset_shuffle_by set_mset_mset)

lemma length_shuffle_by [simp]: "length (shuffle_by p xs) = length xs"
  by (metis mset_shuffle_by size_mset)

lemma upto_split: "a \<le> b \<Longrightarrow> b \<le> c \<Longrightarrow> [a..b - 1] @ [b..c - 1] = [a..c - 1]"
  by (metis upto_split1 upto.simps append_Nil2 zle_diff1_eq order_le_less)

section \<open>Machines: invariants and monotone counters over runs of operations\<close>

text \<open>
  A component is driven by a sequence of operations in the order in which its lock admits them.
  What every operation keeps, every run keeps.
\<close>

locale op_machine =
  fixes step :: "'o \<Rightarrow> 's \<Rightarrow> 's"
    and inv :: "'s \<Rightarrow> bool"
  assumes step_inv: "inv s \<Longrightarrow> inv (step op s)"
begin

lemma run_inv: "inv s \<Longrightarrow> inv (fold step ops s)"
  by (induction ops arbitrary: s) (auto intro: step_inv)

end

locale counting_machine = op_machine step inv
  for step :: "'o \<Rightarrow> 's \<Rightarrow> 's" and inv :: "'s \<Rightarrow> bool" +
  fixes counter :: "'s \<Rightarrow> 'n::preorder"
  assumes step_counter: "inv s \<Longrightarrow> counter s \<le> counter (step op s)"
begin

lemma run_counter: "inv s \<Longrightarrow> counter s \<le> counter (fold step ops s)"
proof (induction ops arbitrary: s)
  case (Cons op ops)
  have "counter s \<le> counter (step op s)" using Cons.prems by (rule step_counter)
  also have "\<dots> \<le> counter (fold step ops (step op s))"
    using Cons by (simp add: step_inv)
  finally show ?case by simp
qed simp

end

end
