(* ===== verification/Dataset_Splitter.thy ===== *)
theory Dataset_Splitter
  imports Py_Prelude
begin

text \<open>
  The splitters of \<open>dlrover/python/master/shard/dataset_splitter.py\<close> that cut a static dataset into
  shards: \<open>Shard\<close>, the base class \<open>DatasetSplitter\<close>, \<open>TableDatasetSplitter\<close>, \<open>TextDatasetSplitter\<close>
  and the factory \<open>new_dataset_splitter\<close>. The contract every splitter owes the dataset manager is the
  locale \<open>splitter_contract\<close>; it is interpreted on the two splitters and on their sum.
\<close>

section \<open>Shards\<close>

record 'n shard =
  sh_name :: 'n
  sh_start :: int
  sh_end :: int
  sh_record_indices :: "int list option"

definition new_shard :: "'n \<Rightarrow> int \<Rightarrow> int \<Rightarrow> 'n shard" where
  "new_shard nm s e = \<lparr>sh_name = nm, sh_start = s, sh_end = e, sh_record_indices = None\<rparr>"

text \<open>
  The records a shard stands for: its index list when it carries a non-empty one (Python truth of
  the list), the range otherwise.
\<close>

definition shard_records :: "'n shard \<Rightarrow> int list" where
  "shard_records sh =
     (case sh_record_indices sh of
        Some (i # is) \<Rightarrow> i # is
      | _ \<Rightarrow> [sh_start sh..sh_end sh - 1])"

definition shards_records :: "'n shard list \<Rightarrow> int multiset" where
  "shards_records shs = (\<Sum>sh\<in>#mset shs. mset (shard_records sh))"

lemma shard_records_new [simp]: "shard_records (new_shard nm s e) = [s..e - 1]"
  by (simp add: shard_records_def new_shard_def)

lemma shards_records_concat: "shards_records shs = mset (concat (map shard_records shs))"
  by (induction shs) (auto simp: shards_records_def)

lemma shards_records_Nil [simp]: "shards_records [] = {#}"
  by (simp add: shards_records_def)

lemma shards_records_mset_cong: "mset xs = mset ys \<Longrightarrow> shards_records xs = shards_records ys"
  by (simp add: shards_records_def)

lemma shards_records_append [simp]: "shards_records (xs @ ys) = shards_records xs + shards_records ys"
  by (simp add: shards_records_def)

section \<open>The base class\<close>

text \<open>
  The subclasses keep the dataset name a second time as \<open>_dataset_name\<close>; both copies come from the
  constructor's argument and are never written again, so the record has one field for them.
\<close>

record splitter_base =
  dsp_dataset_name :: string
  dsp_epoch :: int
  dsp_dataset_size :: int
  dsp_shard_size :: int
  dsp_num_epochs :: int

definition epoch_finished :: "'a splitter_base_scheme \<Rightarrow> bool" where
  "epoch_finished s =
     (if dsp_num_epochs s \<le> 0 then False else dsp_epoch s \<ge> dsp_num_epochs s)"

definition get_shard_count :: "'a splitter_base_scheme \<Rightarrow> int py_result" where
  "get_shard_count s =
     (let remain_epoch = dsp_num_epochs s - dsp_epoch s
      in if dsp_shard_size s = 0 then Inl ZeroDivisionError
         else let shard_count_per_epoch = dsp_dataset_size s div dsp_shard_size s
              in Inr (shard_count_per_epoch * remain_epoch))"

section \<open>Table splitter\<close>

record table_splitter = splitter_base +
  ts_shuffle :: bool
  ts_max_shard_count :: int
  ts_subepoch_num_per_epoch :: int
  ts_shards :: "string shard list"

definition split_epoch_for_huge_dataset :: "table_splitter \<Rightarrow> table_splitter py_result" where
  "split_epoch_for_huge_dataset s =
     (if dsp_shard_size s = 0 then Inl ZeroDivisionError
      else let shard_count = ceil_div (dsp_dataset_size s) (dsp_shard_size s)
           in if shard_count > ts_max_shard_count s
              then if ts_max_shard_count s = 0 then Inl ZeroDivisionError
                   else let sub = ceil_div shard_count (ts_max_shard_count s)
                        in Inr (s\<lparr>ts_subepoch_num_per_epoch := sub,
                                  dsp_num_epochs := dsp_num_epochs s * sub\<rparr>)
              else Inr s)"

definition max_shard_count_default :: int where
  "max_shard_count_default = 50000"

definition new_table_splitter ::
    "string \<Rightarrow> int \<Rightarrow> int \<Rightarrow> int \<Rightarrow> bool \<Rightarrow> int \<Rightarrow> table_splitter py_result" where
  "new_table_splitter name dataset_size shard_size num_epochs shuffle max_shard_count =
     split_epoch_for_huge_dataset
       \<lparr>dsp_dataset_name = name, dsp_epoch = 0, dsp_dataset_size = dataset_size,
        dsp_shard_size = shard_size, dsp_num_epochs = num_epochs,
        ts_shuffle = shuffle, ts_max_shard_count = max_shard_count,
        ts_subepoch_num_per_epoch = 0, ts_shards = []\<rparr>"

definition table_get_epoch :: "table_splitter \<Rightarrow> int" where
  "table_get_epoch s =
     (if ts_subepoch_num_per_epoch s > 0
      then trunc_div (dsp_epoch s) (ts_subepoch_num_per_epoch s)
      else dsp_epoch s)"

text \<open>The loop of \<open>_create_shards_with_range\<close>: the shards so far and the moving \<open>start_idx\<close>.\<close>

fun range_loop :: "string \<Rightarrow> int \<Rightarrow> nat \<Rightarrow> int \<Rightarrow> string shard list \<Rightarrow> string shard list \<times> int" where
  "range_loop nm sz 0 start_idx shards = (shards, start_idx)"
| "range_loop nm sz (Suc n) start_idx shards =
     range_loop nm sz n (start_idx + sz) (shards @ [new_shard nm start_idx (start_idx + sz)])"

definition create_shards_with_range :: "table_splitter \<Rightarrow> int \<Rightarrow> int \<Rightarrow> string shard list" where
  "create_shards_with_range s start_idx end_idx =
     (let sz = dsp_shard_size s; nm = dsp_dataset_name s;
          num_shards = (end_idx - start_idx) div sz;
          (shards, start') = range_loop nm sz (nat num_shards) start_idx [];
          num_records_left = (end_idx - start') mod sz
      in if num_records_left \<noteq> 0
         then shards @ [new_shard nm start' (start' + num_records_left)]
         else shards)"

definition table_create_shards ::
    "nat list \<Rightarrow> table_splitter \<Rightarrow> (table_splitter, string shard list) py_run" where
  "table_create_shards p s =
     (if dsp_shard_size s = 0 then (Inl ZeroDivisionError, s)
      else
        let shard_count = ceil_div (dsp_dataset_size s) (dsp_shard_size s)
        in if shard_count > ts_max_shard_count s \<and> ts_subepoch_num_per_epoch s = 0
           then (Inl ZeroDivisionError, s)
           else
             let s1 =
                   (if shard_count \<le> ts_max_shard_count s
                    then if ts_shards s = []
                         then s\<lparr>ts_shards := create_shards_with_range s 0 (dsp_dataset_size s)\<rparr>
                         else s
                    else
                      let subepoch_idx = dsp_epoch s mod ts_subepoch_num_per_epoch s;
                          subepoch_size = ts_max_shard_count s * dsp_shard_size s;
                          start_idx = subepoch_idx * subepoch_size;
                          end_idx = (if start_idx + subepoch_size > dsp_dataset_size s
                                     then dsp_dataset_size s else start_idx + subepoch_size)
                      in s\<lparr>ts_shards := create_shards_with_range s start_idx end_idx\<rparr>);
                 s2 = (if ts_shuffle s1 then s1\<lparr>ts_shards := shuffle_by p (ts_shards s1)\<rparr> else s1);
                 s3 = s2\<lparr>dsp_epoch := dsp_epoch s2 + 1\<rparr>
             in (Inr (ts_shards s3), s3))"

section \<open>Text splitter\<close>

record text_splitter = splitter_base +
  xs_shuffle :: bool
  xs_shards :: "string shard list"

definition new_text_splitter ::
    "string \<Rightarrow> int \<Rightarrow> int \<Rightarrow> int \<Rightarrow> bool \<Rightarrow> text_splitter" where
  "new_text_splitter name dataset_size shard_size num_epochs shuffle =
     \<lparr>dsp_dataset_name = name, dsp_epoch = 0, dsp_dataset_size = dataset_size,
      dsp_shard_size = shard_size, dsp_num_epochs = num_epochs,
      xs_shuffle = shuffle, xs_shards = []\<rparr>"

definition text_get_epoch :: "text_splitter \<Rightarrow> int" where
  "text_get_epoch s = dsp_epoch s"

text \<open>\<open>range(a, b, step)\<close> for a step that is not 0, and the slices \<open>xs[0:n]\<close>, \<open>xs[n:]\<close>.\<close>

definition py_range :: "int \<Rightarrow> int \<Rightarrow> int \<Rightarrow> int list" where
  "py_range a b st = map (\<lambda>i. a + int i * st) [0..<nat (ceil_div (b - a) st)]"

definition py_slice_point :: "int \<Rightarrow> 'a list \<Rightarrow> nat" where
  "py_slice_point n xs = nat (if n < 0 then n + int (length xs) else n)"

fun text_loop :: "text_splitter \<Rightarrow> int \<Rightarrow> int list \<Rightarrow> int list \<Rightarrow> string shard list" where
  "text_loop s end_idx [] record_indices = []"
| "text_loop s end_idx (shard_start_idx # rest) record_indices =
     (let shard_end_idx = min (shard_start_idx + dsp_shard_size s) end_idx
      in if xs_shuffle s
         then let sz = shard_end_idx - shard_start_idx;
                  k = py_slice_point sz record_indices;
                  shard_indices = take k record_indices
              in \<lparr>sh_name = dsp_dataset_name s, sh_start = shard_start_idx, sh_end = shard_end_idx,
                  sh_record_indices = Some shard_indices\<rparr>
                 # text_loop s end_idx rest (drop k record_indices)
         else \<lparr>sh_name = dsp_dataset_name s, sh_start = shard_start_idx, sh_end = shard_end_idx,
               sh_record_indices = Some []\<rparr>
              # text_loop s end_idx rest record_indices)"

definition create_shards_with_indices ::
    "nat list \<Rightarrow> text_splitter \<Rightarrow> int \<Rightarrow> int \<Rightarrow> string shard list py_result" where
  "create_shards_with_indices p s start_idx end_idx =
     (let record_indices = [0..dsp_dataset_size s - 1];
          record_indices' = (if xs_shuffle s then shuffle_by p record_indices else record_indices)
      in if dsp_shard_size s = 0 then Inl ValueError
         else Inr (text_loop s end_idx (py_range start_idx end_idx (dsp_shard_size s)) record_indices'))"

definition text_create_shards ::
    "nat list \<Rightarrow> text_splitter \<Rightarrow> (text_splitter, string shard list) py_run" where
  "text_create_shards p s =
     (case create_shards_with_indices p s 0 (dsp_dataset_size s) of
        Inl e \<Rightarrow> (Inl e, s)
      | Inr shards \<Rightarrow> (Inr shards, s\<lparr>xs_shards := shards, dsp_epoch := dsp_epoch s + 1\<rparr>))"

section \<open>The factory and dynamic dispatch\<close>

datatype splitter = TableSplitter table_splitter | TextSplitter text_splitter

definition new_dataset_splitter ::
    "bool \<Rightarrow> int \<Rightarrow> int \<Rightarrow> int \<Rightarrow> string \<Rightarrow> string option \<Rightarrow> splitter py_result" where
  "new_dataset_splitter shuffle shard_size dataset_size num_epochs dataset_name storage_type =
     (if storage_type = None \<or> storage_type = Some '''' \<or> storage_type = Some ''table''
      then map_sum id TableSplitter
             (new_table_splitter dataset_name dataset_size shard_size num_epochs shuffle
                max_shard_count_default)
      else if storage_type = Some ''text''
      then Inr (TextSplitter
             (new_text_splitter dataset_name dataset_size shard_size num_epochs shuffle))
      else Inl ValueError)"

fun splitter_create_shards :: "nat list \<Rightarrow> splitter \<Rightarrow> (splitter, string shard list) py_run" where
  "splitter_create_shards p (TableSplitter s) = map_prod id TableSplitter (table_create_shards p s)"
| "splitter_create_shards p (TextSplitter s) = map_prod id TextSplitter (text_create_shards p s)"

fun splitter_epoch_finished :: "splitter \<Rightarrow> bool" where
  "splitter_epoch_finished (TableSplitter s) = epoch_finished s"
| "splitter_epoch_finished (TextSplitter s) = epoch_finished s"

fun splitter_get_epoch :: "splitter \<Rightarrow> int" where
  "splitter_get_epoch (TableSplitter s) = table_get_epoch s"
| "splitter_get_epoch (TextSplitter s) = text_get_epoch s"

fun splitter_get_shards :: "splitter \<Rightarrow> string shard list" where
  "splitter_get_shards (TableSplitter s) = ts_shards s"
| "splitter_get_shards (TextSplitter s) = xs_shards s"

fun splitter_shard_count :: "splitter \<Rightarrow> int py_result" where
  "splitter_shard_count (TableSplitter s) = get_shard_count s"
| "splitter_shard_count (TextSplitter s) = get_shard_count s"

fun splitter_dataset_name :: "splitter \<Rightarrow> string" where
  "splitter_dataset_name (TableSplitter s) = dsp_dataset_name s"
| "splitter_dataset_name (TextSplitter s) = dsp_dataset_name s"

fun splitter_epoch :: "splitter \<Rightarrow> int" where
  "splitter_epoch (TableSplitter s) = dsp_epoch s"
| "splitter_epoch (TextSplitter s) = dsp_epoch s"

fun splitter_set_epoch :: "int \<Rightarrow> splitter \<Rightarrow> splitter" where
  "splitter_set_epoch e (TableSplitter s) = TableSplitter (s\<lparr>dsp_epoch := e\<rparr>)"
| "splitter_set_epoch e (TextSplitter s) = TextSplitter (s\<lparr>dsp_epoch := e\<rparr>)"

fun splitter_num_epochs :: "splitter \<Rightarrow> int" where
  "splitter_num_epochs (TableSplitter s) = dsp_num_epochs s"
| "splitter_num_epochs (TextSplitter s) = dsp_num_epochs s"

section \<open>Ranges tile the dataset\<close>

lemma range_loop_records:
  "0 \<le> sz \<Longrightarrow>
   concat (map shard_records (fst (range_loop nm sz n st acc))) =
     concat (map shard_records acc) @ [st..st + int n * sz - 1] \<and>
   snd (range_loop nm sz n st acc) = st + int n * sz"
proof (induction n arbitrary: st acc)
  case 0
  then show ?case by simp
next
  case (Suc n)
  have "0 \<le> int n * sz" using Suc.prems by simp
  then have "[st..st + sz - 1] @ [st + sz..st + sz + int n * sz - 1] = [st..st + sz + int n * sz - 1]"
    by (intro upto_split) (use Suc.prems in simp_all)
  with Suc show ?case by (simp add: algebra_simps)
qed

lemma range_loop_shards:
  "0 < sz \<Longrightarrow> sh \<in> set (fst (range_loop nm sz n st acc)) \<Longrightarrow>
   sh \<in> set acc \<or> (sh_end sh = sh_start sh + sz \<and> sh_record_indices sh = None \<and> sh_name sh = nm)"
  by (induction n arbitrary: st acc) (fastforce simp: new_shard_def)+

lemma range_loop_length:
  "length (fst (range_loop nm sz n st acc)) = length acc + n"
  by (induction n arbitrary: st acc) auto

lemma range_loop_end:
  assumes "0 < sz" and "a \<le> b"
  shows "snd (range_loop nm sz (nat ((b - a) div sz)) a acc) = b - (b - a) mod sz"
proof -
  have "0 \<le> (b - a) div sz" using assms by (simp add: pos_imp_zdiv_nonneg_iff)
  then have "snd (range_loop nm sz (nat ((b - a) div sz)) a acc) = a + (b - a) div sz * sz"
    using range_loop_records [of sz nm "nat ((b - a) div sz)" a acc] assms by simp
  also have "\<dots> = b - (b - a) mod sz" by (simp add: minus_mod_eq_div_mult [symmetric])
  finally show ?thesis .
qed

lemma create_shards_with_range_eq:
  assumes "0 < dsp_shard_size s" and "a \<le> b"
  shows "create_shards_with_range s a b =
    (let r = range_loop (dsp_dataset_name s) (dsp_shard_size s) (nat ((b - a) div dsp_shard_size s)) a [];
         left = (b - a) mod dsp_shard_size s
     in fst r @ (if left \<noteq> 0 then [new_shard (dsp_dataset_name s) (b - left) b] else []))"
proof -
  have "((b - a) mod dsp_shard_size s) mod dsp_shard_size s = (b - a) mod dsp_shard_size s" by simp
  with range_loop_end [OF assms, of "dsp_dataset_name s" "[]"] show ?thesis
    by (simp add: create_shards_with_range_def Let_def split_def)
qed

lemma create_shards_with_range_records:
  assumes "0 < dsp_shard_size s" and "a \<le> b"
  shows "concat (map shard_records (create_shards_with_range s a b)) = [a..b - 1]"
proof -
  let ?sz = "dsp_shard_size s"
  let ?n = "nat ((b - a) div ?sz)"
  let ?left = "(b - a) mod ?sz"
  have nn: "0 \<le> (b - a) div ?sz" using assms by (simp add: pos_imp_zdiv_nonneg_iff)
  then have e: "a + int ?n * ?sz = b - ?left"
    by (simp add: minus_mod_eq_div_mult [symmetric])
  have le: "a \<le> b - ?left" using nn assms(1) e by (metis le_add_same_cancel1 of_nat_0_le_iff less_imp_le mult_nonneg_nonneg)
  have "[a..b - ?left - 1] @ [b - ?left..b - 1] = [a..b - 1]"
    by (rule upto_split) (use le assms in simp_all)
  with range_loop_records [of ?sz "dsp_dataset_name s" ?n a "[]"] assms e show ?thesis
    by (auto simp: create_shards_with_range_eq Let_def)
qed

lemma create_shards_with_range_shard:
  assumes "0 < dsp_shard_size s" and "a \<le> b" and "sh \<in> set (create_shards_with_range s a b)"
  shows "sh_start sh < sh_end sh" and "sh_end sh \<le> sh_start sh + dsp_shard_size s"
    and "sh_record_indices sh = None" and "sh_name sh = dsp_dataset_name s"
proof -
  define left where "left = (b - a) mod dsp_shard_size s"
  have m: "0 \<le> left" "left < dsp_shard_size s" using assms(1) by (simp_all add: left_def)
  have "sh = new_shard (dsp_dataset_name s) (b - left) b \<and> left \<noteq> 0 \<or>
        sh_end sh = sh_start sh + dsp_shard_size s \<and> sh_record_indices sh = None \<and>
        sh_name sh = dsp_dataset_name s"
    using assms range_loop_shards [OF assms(1), of sh "dsp_dataset_name s" _ a "[]"]
    by (auto simp: create_shards_with_range_eq Let_def left_def split: if_splits)
  with m assms(1) show "sh_start sh < sh_end sh" "sh_end sh \<le> sh_start sh + dsp_shard_size s"
    "sh_record_indices sh = None" "sh_name sh = dsp_dataset_name s"
    by (auto simp: new_shard_def)
qed

lemma create_shards_with_range_length:
  assumes "0 < dsp_shard_size s" and "a \<le> b"
  shows "int (length (create_shards_with_range s a b)) = ceil_div (b - a) (dsp_shard_size s)"
proof -
  have "0 \<le> (b - a) div dsp_shard_size s" using assms by (simp add: pos_imp_zdiv_nonneg_iff)
  then show ?thesis
    using assms by (simp add: create_shards_with_range_eq Let_def range_loop_length ceil_div_floor)
qed

section \<open>The contract of a splitter\<close>

text \<open>
  What the dataset manager relies on: creating shards succeeds, advances the epoch by one, keeps the
  configuration, and hands out exactly the records that the configuration assigns to the epoch.
\<close>

locale splitter_contract =
  fixes create :: "nat list \<Rightarrow> 's \<Rightarrow> ('s, string shard list) py_run"
    and finished :: "'s \<Rightarrow> bool"
    and epoch :: "'s \<Rightarrow> int"
    and passes :: "'s \<Rightarrow> int"
    and epoch_records :: "'s \<Rightarrow> int \<Rightarrow> int multiset"
    and wf :: "'s \<Rightarrow> bool"
  assumes create_total: "wf s \<Longrightarrow> \<exists>shards s'. create p s = (Inr shards, s')"
    and create_wf: "wf s \<Longrightarrow> create p s = (Inr shards, s') \<Longrightarrow> wf s'"
    and create_epoch: "wf s \<Longrightarrow> create p s = (Inr shards, s') \<Longrightarrow> epoch s' = epoch s + 1"
    and create_passes: "wf s \<Longrightarrow> create p s = (Inr shards, s') \<Longrightarrow> passes s' = passes s"
    and create_config: "wf s \<Longrightarrow> create p s = (Inr shards, s') \<Longrightarrow> epoch_records s' = epoch_records s"
    and create_records:
      "wf s \<Longrightarrow> create p s = (Inr shards, s') \<Longrightarrow> shards_records shards = epoch_records s (epoch s)"
    and finished_iff: "finished s \<longleftrightarrow> 0 < passes s \<and> passes s \<le> epoch s"
begin

text \<open>Successive calls, one per shuffle outcome, with all the shards they hand out.\<close>

fun create_all :: "nat list list \<Rightarrow> 's \<Rightarrow> string shard list \<times> 's" where
  "create_all [] s = ([], s)"
| "create_all (p # ps) s =
     (case create p s of
        (Inr shards, s') \<Rightarrow> (case create_all ps s' of (rest, s'') \<Rightarrow> (shards @ rest, s''))
      | (Inl _, s') \<Rightarrow> ([], s'))"

lemma create_all_records:
  "wf s \<Longrightarrow>
   shards_records (fst (create_all ps s)) = (\<Sum>i<length ps. epoch_records s (epoch s + int i)) \<and>
   wf (snd (create_all ps s)) \<and> epoch (snd (create_all ps s)) = epoch s + int (length ps)"
proof (induction ps arbitrary: s)
  case (Cons p ps)
  obtain shards s' where c: "create p s = (Inr shards, s')"
    using create_total [OF Cons.prems] by blast
  note facts = create_wf [OF Cons.prems c] create_epoch [OF Cons.prems c]
    create_config [OF Cons.prems c] create_records [OF Cons.prems c]
  have "(\<Sum>i<length ps. epoch_records s (epoch s + 1 + int i)) =
        (\<Sum>i<length ps. epoch_records s (epoch s + int (Suc i)))"
    by (simp add: algebra_simps)
  with Cons.IH [of s'] facts c show ?case
    by (auto simp: split_def sum.lessThan_Suc_shift simp del: sum.lessThan_Suc)
qed simp

end

subsection \<open>The table splitter keeps the contract\<close>

definition table_shard_count :: "table_splitter \<Rightarrow> int" where
  "table_shard_count s = ceil_div (dsp_dataset_size s) (dsp_shard_size s)"

definition table_huge :: "table_splitter \<Rightarrow> bool" where
  "table_huge s \<longleftrightarrow> table_shard_count s > ts_max_shard_count s"

definition table_wf :: "table_splitter \<Rightarrow> bool" where
  "table_wf s \<longleftrightarrow>
     0 < dsp_shard_size s \<and> 0 \<le> dsp_dataset_size s \<and> 0 < ts_max_shard_count s \<and>
     ts_subepoch_num_per_epoch s =
       (if table_huge s then ceil_div (table_shard_count s) (ts_max_shard_count s) else 0) \<and>
     (\<not> table_huge s \<longrightarrow> ts_shards s = [] \<or>
        mset (ts_shards s) = mset (create_shards_with_range s 0 (dsp_dataset_size s)))"

definition table_epoch_records :: "table_splitter \<Rightarrow> int \<Rightarrow> int multiset" where
  "table_epoch_records s e =
     (if table_huge s
      then let m = ts_max_shard_count s * dsp_shard_size s;
               i = e mod ts_subepoch_num_per_epoch s
           in mset [i * m..min ((i + 1) * m) (dsp_dataset_size s) - 1]
      else mset [0..dsp_dataset_size s - 1])"

lemma new_table_splitter_wf:
  assumes "0 < shard_size" and "0 \<le> dataset_size" and "0 < max_count"
  shows "\<exists>s. new_table_splitter name dataset_size shard_size num_epochs shuffle max_count = Inr s \<and>
    table_wf s \<and> dsp_epoch s = 0 \<and> dsp_dataset_size s = dataset_size \<and>
    dsp_shard_size s = shard_size \<and> ts_max_shard_count s = max_count \<and> ts_shuffle s = shuffle \<and>
    dsp_num_epochs s =
      num_epochs * (if table_huge s then ts_subepoch_num_per_epoch s else 1)"
  using assms
  by (simp add: new_table_splitter_def split_epoch_for_huge_dataset_def table_wf_def table_huge_def
      table_shard_count_def Let_def)

lemma table_huge_subepoch:
  assumes "table_wf s" and "table_huge s"
  shows "0 < ts_subepoch_num_per_epoch s"
    and "0 \<le> i \<Longrightarrow> i < ts_subepoch_num_per_epoch s \<Longrightarrow>
         i * (ts_max_shard_count s * dsp_shard_size s) \<le> dsp_dataset_size s"
    and "dsp_dataset_size s \<le>
         ts_subepoch_num_per_epoch s * (ts_max_shard_count s * dsp_shard_size s)"
proof -
  let ?c = "table_shard_count s" and ?m = "ts_max_shard_count s" and ?z = "dsp_shard_size s"
  have w: "0 < ?z" "0 < ?m" "ts_subepoch_num_per_epoch s = ceil_div ?c ?m" "?m < ?c"
    using assms by (auto simp: table_wf_def table_huge_def)
  then show "0 < ts_subepoch_num_per_epoch s" by (simp add: ceil_div_pos)
  have c: "(?c - 1) * ?z \<le> dsp_dataset_size s"
    using ceil_div_bounds(2) [OF w(1), of "dsp_dataset_size s"]
    by (simp add: table_shard_count_def algebra_simps)
  show "i * (?m * ?z) \<le> dsp_dataset_size s" if "0 \<le> i" "i < ts_subepoch_num_per_epoch s"
  proof -
    have "\<not> ceil_div ?c ?m \<le> i" using that w by simp
    then have "i * ?m \<le> ?c - 1" using ceil_div_le_iff [OF w(2), of ?c i] by linarith
    then have "i * ?m * ?z \<le> (?c - 1) * ?z" using w(1) by simp
    with c show ?thesis by (simp add: algebra_simps)
  qed
  have "?c \<le> ceil_div ?c ?m * ?m" using w(2) by (rule ceil_div_bounds)
  then have "?c * ?z \<le> ceil_div ?c ?m * ?m * ?z" using w(1) by simp
  moreover have "dsp_dataset_size s \<le> ?c * ?z"
    unfolding table_shard_count_def by (rule ceil_div_bounds) (rule w(1))
  ultimately show "dsp_dataset_size s \<le> ts_subepoch_num_per_epoch s * (?m * ?z)"
    using w(3) by (simp add: algebra_simps)
qed

definition table_epoch_range :: "table_splitter \<Rightarrow> int \<times> int" where
  "table_epoch_range s =
     (if table_huge s
      then let m = ts_max_shard_count s * dsp_shard_size s;
               i = dsp_epoch s mod ts_subepoch_num_per_epoch s
           in (i * m, min ((i + 1) * m) (dsp_dataset_size s))
      else (0, dsp_dataset_size s))"

lemma table_epoch_range_le: "table_wf s \<Longrightarrow> fst (table_epoch_range s) \<le> snd (table_epoch_range s)"
  using table_huge_subepoch [of s]
  by (auto simp: table_epoch_range_def Let_def table_wf_def)

lemma table_create_shards_eq:
  assumes "table_wf s"
  shows "\<exists>shards. table_create_shards p s =
      (Inr shards, s\<lparr>ts_shards := shards, dsp_epoch := dsp_epoch s + 1\<rparr>) \<and>
    mset shards =
      (if \<not> table_huge s \<and> ts_shards s \<noteq> [] then mset (ts_shards s)
       else mset (create_shards_with_range s (fst (table_epoch_range s)) (snd (table_epoch_range s))))"
proof -
  let ?m = "ts_max_shard_count s * dsp_shard_size s"
  have "i * ?m + ?m = (i + 1) * ?m" for i by (simp add: algebra_simps)
  moreover have "table_huge s \<Longrightarrow> ts_subepoch_num_per_epoch s \<noteq> 0"
    using table_huge_subepoch(1) [OF assms] by simp
  moreover have "(if y < (x :: int) then y else x) = min x y" for x y by simp
  ultimately show ?thesis
    using assms
    by (auto simp: table_create_shards_def Let_def table_huge_def table_shard_count_def
        table_epoch_range_def table_wf_def not_le not_less)
qed

lemma table_epoch_records_range:
  "table_epoch_records s (dsp_epoch s) =
     mset [fst (table_epoch_range s)..snd (table_epoch_range s) - 1]"
  by (simp add: table_epoch_records_def table_epoch_range_def Let_def)

lemma table_create_shards_records:
  assumes wf: "table_wf s" and c: "table_create_shards p s = (Inr shards, s')"
  shows "shards_records shards = table_epoch_records s (dsp_epoch s)"
    and "s' = s\<lparr>ts_shards := shards, dsp_epoch := dsp_epoch s + 1\<rparr>"
    and "mset shards =
      mset (create_shards_with_range s (fst (table_epoch_range s)) (snd (table_epoch_range s)))"
proof -
  from table_create_shards_eq [OF wf, of p] c
  have m: "mset shards =
      (if \<not> table_huge s \<and> ts_shards s \<noteq> [] then mset (ts_shards s)
       else mset (create_shards_with_range s (fst (table_epoch_range s)) (snd (table_epoch_range s))))"
    and s': "s' = s\<lparr>ts_shards := shards, dsp_epoch := dsp_epoch s + 1\<rparr>"
    by auto
  have z: "0 < dsp_shard_size s" using wf by (simp add: table_wf_def)
  show shards: "mset shards =
      mset (create_shards_with_range s (fst (table_epoch_range s)) (snd (table_epoch_range s)))"
    using m wf by (auto simp: table_wf_def table_epoch_range_def split: if_splits)
  have "shards_records (create_shards_with_range s (fst (table_epoch_range s)) (snd (table_epoch_range s)))
        = table_epoch_records s (dsp_epoch s)"
    using create_shards_with_range_records [OF z table_epoch_range_le [OF wf]]
    by (simp add: shards_records_concat table_epoch_records_range del: map_concat)
  then show "shards_records shards = table_epoch_records s (dsp_epoch s)"
    using shards_records_mset_cong [OF shards] by simp
  show "s' = s\<lparr>ts_shards := shards, dsp_epoch := dsp_epoch s + 1\<rparr>" by (rule s')
qed

lemma table_fields_create [simp]:
  "table_huge (s\<lparr>ts_shards := x, dsp_epoch := e\<rparr>) = table_huge s"
  "table_epoch_records (s\<lparr>ts_shards := x, dsp_epoch := e\<rparr>) = table_epoch_records s"
  "create_shards_with_range (s\<lparr>ts_shards := x, dsp_epoch := e\<rparr>) = create_shards_with_range s"
  "create_shards_with_range (s\<lparr>dsp_epoch := e\<rparr>) = create_shards_with_range s"
  "create_shards_with_range (s\<lparr>ts_shards := x\<rparr>) = create_shards_with_range s"
  by (auto simp: table_huge_def table_shard_count_def table_epoch_records_def
      create_shards_with_range_def fun_eq_iff)

lemma table_create_shards_wf:
  assumes "table_wf s" and "table_create_shards p s = (Inr shards, s')"
  shows "table_wf s'"
  using table_create_shards_records [OF assms] assms(1)
  by (auto simp: table_wf_def table_epoch_range_def table_shard_count_def)

interpretation table_sp: splitter_contract table_create_shards epoch_finished dsp_epoch dsp_num_epochs
  table_epoch_records table_wf
proof unfold_locales
  fix s p shards s'
  assume wf: "table_wf s"
  show "\<exists>shards s'. table_create_shards p s = (Inr shards, s')"
    using table_create_shards_eq [OF wf, of p] by blast
  assume c: "table_create_shards p s = (Inr shards, s')"
  note r = table_create_shards_records [OF wf c]
  show "table_wf s'" using wf c by (rule table_create_shards_wf)
  show "dsp_epoch s' = dsp_epoch s + 1" "dsp_num_epochs s' = dsp_num_epochs s"
    "table_epoch_records s' = table_epoch_records s"
    using r(2) by simp_all
  show "shards_records shards = table_epoch_records s (dsp_epoch s)" by (rule r(1))
next
  fix s :: table_splitter
  show "epoch_finished s \<longleftrightarrow> 0 < dsp_num_epochs s \<and> dsp_num_epochs s \<le> dsp_epoch s"
    by (auto simp: epoch_finished_def)
qed

text \<open>The subepochs of one pass over a huge dataset follow one another without gap or overlap.\<close>

lemma subepochs_prefix:
  assumes "0 \<le> m" and "\<And>i. i < n \<Longrightarrow> int i * m \<le> d"
  shows "(\<Sum>i<n. mset [int i * m..min ((int i + 1) * m) d - 1]) = mset [0..min (int n * m) d - 1]"
  using assms(2)
proof (induction n)
  case (Suc n)
  then have "int n * m \<le> d" by simp
  moreover have "min (int n * m) d = int n * m" using calculation by simp
  moreover have "int n * m \<le> min ((int n + 1) * m) d"
    using calculation assms(1) by (simp add: algebra_simps)
  moreover have "[0..int n * m - 1] @ [int n * m..min ((int n + 1) * m) d - 1]
      = [0..min ((int n + 1) * m) d - 1]"
    using calculation assms(1) by (intro upto_split) simp_all
  ultimately show ?case
    using Suc by (simp add: algebra_simps flip: mset_append)
next
  case 0
  have "\<not> 0 \<le> min 0 d - 1" by simp
  then show ?case by simp
qed

lemma table_pass_records:
  assumes wf: "table_wf s" and h: "table_huge s"
  shows "(\<Sum>i<nat (ts_subepoch_num_per_epoch s).
            table_epoch_records s (k * ts_subepoch_num_per_epoch s + int i))
         = mset [0..dsp_dataset_size s - 1]"
proof -
  let ?n = "ts_subepoch_num_per_epoch s" and ?m = "ts_max_shard_count s * dsp_shard_size s"
  note sub = table_huge_subepoch [OF wf h]
  have "(\<Sum>i<nat ?n. table_epoch_records s (k * ?n + int i)) =
        (\<Sum>i<nat ?n. mset [int i * ?m..min ((int i + 1) * ?m) (dsp_dataset_size s) - 1])"
    by (rule sum.cong) (auto simp: table_epoch_records_def h Let_def)
  also have "\<dots> = mset [0..min (int (nat ?n) * ?m) (dsp_dataset_size s) - 1]"
    using wf sub by (intro subepochs_prefix) (auto simp: table_wf_def)
  also have "min (int (nat ?n) * ?m) (dsp_dataset_size s) = dsp_dataset_size s"
    using sub by simp
  finally show ?thesis .
qed

lemma table_passes_records:
  assumes wf: "table_wf s" and n: "n = (if table_huge s then nat (ts_subepoch_num_per_epoch s) else 1)"
  shows "(\<Sum>e<passes * n. table_epoch_records s (int e))
         = repeat_mset passes (mset [0..dsp_dataset_size s - 1])"
proof (cases "table_huge s")
  case True
  let ?u = "ts_subepoch_num_per_epoch s"
  have u: "0 < ?u" "n = nat ?u" using table_huge_subepoch(1) [OF wf True] n True by simp_all
  have "(\<Sum>i = k * n..<k * n + n. table_epoch_records s (int i)) = mset [0..dsp_dataset_size s - 1]"
    for k
  proof -
    have "(\<Sum>i = k * n..<k * n + n. table_epoch_records s (int i)) =
          (\<Sum>i<n. table_epoch_records s (int (i + k * n)))"
      using sum.shift_bounds_nat_ivl [of "\<lambda>i. table_epoch_records s (int i)" 0 "k * n" n]
      by (simp add: atLeast0LessThan add.commute)
    also have "\<dots> = (\<Sum>i<nat ?u. table_epoch_records s (int k * ?u + int i))"
      using u by (simp add: algebra_simps)
    finally show ?thesis using table_pass_records [OF wf True] by simp
  qed
  then have "(\<Sum>k<passes. \<Sum>i = k * n..<k * n + n. table_epoch_records s (int i))
      = repeat_mset passes (mset [0..dsp_dataset_size s - 1])"
    by (induction passes) auto
  then show ?thesis by (simp add: sum.nat_group)
next
  case False
  then have "table_epoch_records s = (\<lambda>_. mset [0..dsp_dataset_size s - 1])"
    by (auto simp: table_epoch_records_def)
  with n False show ?thesis by (induction passes) auto
qed

subsection \<open>The text splitter keeps the contract\<close>

definition text_wf :: "text_splitter \<Rightarrow> bool" where
  "text_wf s \<longleftrightarrow> 0 < dsp_shard_size s \<and> 0 \<le> dsp_dataset_size s"

definition text_epoch_records :: "text_splitter \<Rightarrow> int \<Rightarrow> int multiset" where
  "text_epoch_records s e = mset [0..dsp_dataset_size s - 1]"

lemma py_range_step:
  assumes "0 < st"
  shows "py_range a b st = (if a < b then a # py_range (a + st) b st else [])"
proof (cases "a < b")
  case True
  have c: "ceil_div (b - (a + st)) st = ceil_div (b - a) st - 1"
  proof -
    have "- (b - a) div st + 1 = (- (b - a) + 1 * st) div st"
      using assms by (subst div_mult_self1) simp_all
    then show ?thesis by (simp add: ceil_div_def algebra_simps)
  qed
  have "0 < ceil_div (b - a) st" using True assms by (simp add: ceil_div_pos)
  then have "nat (ceil_div (b - a) st) = Suc (nat (ceil_div (b - (a + st)) st))"
    using c by simp
  then show ?thesis using True
    by (simp add: py_range_def upt_rec [of 0] map_Suc_upt [symmetric] algebra_simps o_def
        del: upt_Suc)
next
  case False
  then have "ceil_div (b - a) st \<le> 0" using assms ceil_div_le_iff [of st "b - a" 0] by simp
  with False show ?thesis by (simp add: py_range_def)
qed

definition indexed_shard :: "int \<Rightarrow> 'n shard \<Rightarrow> bool" where
  "indexed_shard sz sh \<longleftrightarrow>
     (\<exists>is. sh_record_indices sh = Some is \<and> int (length is) = sh_end sh - sh_start sh) \<and>
     sh_start sh < sh_end sh \<and> sh_end sh \<le> sh_start sh + sz"

lemma indexed_shard_records: "indexed_shard sz sh \<Longrightarrow> shard_records sh = the (sh_record_indices sh)"
  by (auto simp: indexed_shard_def shard_records_def split: list.splits)

lemma text_loop_shuffled_Cons:
  assumes "0 < dsp_shard_size s" "xs_shuffle s" "a < b"
  shows "text_loop s b (a # rest) ri =
     (let e = min (a + dsp_shard_size s) b
      in \<lparr>sh_name = dsp_dataset_name s, sh_start = a, sh_end = e,
          sh_record_indices = Some (take (nat (e - a)) ri)\<rparr>
         # text_loop s b rest (drop (nat (e - a)) ri))"
  using assms by (simp add: Let_def py_slice_point_def)

lemma text_loop_shuffled:
  assumes "0 < dsp_shard_size s" and "xs_shuffle s" and "int (length ri) = max 0 (b - a)"
  shows "concat (map shard_records (text_loop s b (py_range a b (dsp_shard_size s)) ri)) = ri \<and>
    list_all (indexed_shard (dsp_shard_size s)) (text_loop s b (py_range a b (dsp_shard_size s)) ri)"
  using assms(3)
proof (induction "nat (b - a)" arbitrary: a ri rule: less_induct)
  case less
  let ?sz = "dsp_shard_size s"
  show ?case
  proof (cases "a < b")
    case True
    define e where "e = min (a + ?sz) b"
    define k where "k = nat (e - a)"
    let ?sh = "\<lparr>sh_name = dsp_dataset_name s, sh_start = a, sh_end = e,
          sh_record_indices = Some (take k ri)\<rparr>"
    have k: "int k = e - a" "k \<le> length ri" "a < e" "e \<le> a + ?sz"
      using True assms(1) less.prems by (auto simp: k_def e_def)
    then have ok: "indexed_shard ?sz ?sh" by (auto simp: indexed_shard_def)
    have "nat (b - (a + ?sz)) < nat (b - a)" using True assms(1) by simp
    moreover have "int (length (drop k ri)) = max 0 (b - (a + ?sz))"
      using less.prems k True by (auto simp: e_def min_def split: if_splits)
    ultimately have IH: "concat (map shard_records (text_loop s b (py_range (a + ?sz) b ?sz) (drop k ri)))
          = drop k ri \<and> list_all (indexed_shard ?sz) (text_loop s b (py_range (a + ?sz) b ?sz) (drop k ri))"
      using less.hyps by blast
    have "text_loop s b (py_range a b ?sz) ri = ?sh # text_loop s b (py_range (a + ?sz) b ?sz) (drop k ri)"
      using True assms(1,2) py_range_step [OF assms(1), of a b]
      by (simp only: text_loop_shuffled_Cons if_True Let_def e_def k_def)
    with IH ok indexed_shard_records [OF ok] show ?thesis by simp
  next
    case False
    with less.prems py_range_step [OF assms(1), of a b] show ?thesis by simp
  qed
qed

lemma text_loop_ranges:
  assumes "0 < dsp_shard_size s" and "\<not> xs_shuffle s"
  shows "concat (map shard_records (text_loop s b (py_range a b (dsp_shard_size s)) ri)) = [a..b - 1]"
proof (induction "nat (b - a)" arbitrary: a rule: less_induct)
  case less
  let ?sz = "dsp_shard_size s"
  show ?case
  proof (cases "a < b")
    case True
    have IH: "concat (map shard_records (text_loop s b (py_range (a + ?sz) b ?sz) ri)) = [a + ?sz..b - 1]"
      by (rule less.hyps) (use True assms(1) in simp)
    have "[a..min (a + ?sz) b - 1] @ [a + ?sz..b - 1] = [a..b - 1]"
    proof (cases "a + ?sz \<le> b")
      case True
      then show ?thesis using upto_split [of a "a + ?sz" b] assms(1) by simp
    qed simp
    then show ?thesis
      using IH True assms py_range_step [OF assms(1), of a b]
      by (simp add: Let_def shard_records_def)
  next
    case False
    with py_range_step [OF assms(1), of a b] show ?thesis by simp
  qed
qed

lemma text_create_shards_eq:
  assumes "text_wf s"
  shows "\<exists>shards. text_create_shards p s =
      (Inr shards, s\<lparr>xs_shards := shards, dsp_epoch := dsp_epoch s + 1\<rparr>) \<and>
    shards_records shards = mset [0..dsp_dataset_size s - 1]"
proof -
  let ?ri = "shuffle_by p [0..dsp_dataset_size s - 1]"
  have "int (length ?ri) = max 0 (dsp_dataset_size s - 0)" by simp
  then show ?thesis
    using assms text_loop_shuffled [of s ?ri "dsp_dataset_size s" 0]
      text_loop_ranges [of s "dsp_dataset_size s" 0]
    by (cases "xs_shuffle s")
      (auto simp: text_create_shards_def create_shards_with_indices_def text_wf_def
        shards_records_concat simp del: map_concat)
qed

interpretation text_sp: splitter_contract text_create_shards epoch_finished dsp_epoch dsp_num_epochs
  text_epoch_records text_wf
proof unfold_locales
  fix s p shards s'
  assume wf: "text_wf s"
  note e = text_create_shards_eq [OF wf, of p]
  show "\<exists>shards s'. text_create_shards p s = (Inr shards, s')" using e by blast
  assume "text_create_shards p s = (Inr shards, s')"
  with e wf show "text_wf s'" "dsp_epoch s' = dsp_epoch s + 1" "dsp_num_epochs s' = dsp_num_epochs s"
    "text_epoch_records s' = text_epoch_records s"
    "shards_records shards = text_epoch_records s (dsp_epoch s)"
    by (auto simp: text_wf_def text_epoch_records_def)
next
  fix s :: text_splitter
  show "epoch_finished s \<longleftrightarrow> 0 < dsp_num_epochs s \<and> dsp_num_epochs s \<le> dsp_epoch s"
    by (auto simp: epoch_finished_def)
qed

subsection \<open>Either splitter keeps the contract\<close>

fun splitter_wf :: "splitter \<Rightarrow> bool" where
  "splitter_wf (TableSplitter s) = table_wf s"
| "splitter_wf (TextSplitter s) = text_wf s"

fun splitter_epoch_records :: "splitter \<Rightarrow> int \<Rightarrow> int multiset" where
  "splitter_epoch_records (TableSplitter s) = table_epoch_records s"
| "splitter_epoch_records (TextSplitter s) = text_epoch_records s"

interpretation any_sp: splitter_contract splitter_create_shards splitter_epoch_finished splitter_epoch
  splitter_num_epochs splitter_epoch_records splitter_wf
proof unfold_locales
  fix s p shards s'
  assume wf: "splitter_wf s"
  show "\<exists>shards s'. splitter_create_shards p s = (Inr shards, s')"
  proof (cases s)
    case (TableSplitter t)
    then show ?thesis using wf table_sp.create_total [of t p] by fastforce
  next
    case (TextSplitter t)
    then show ?thesis using wf text_sp.create_total [of t p] by fastforce
  qed
  assume c: "splitter_create_shards p s = (Inr shards, s')"
  have "splitter_wf s' \<and> splitter_epoch s' = splitter_epoch s + 1 \<and>
    splitter_num_epochs s' = splitter_num_epochs s \<and>
    splitter_epoch_records s' = splitter_epoch_records s \<and>
    shards_records shards = splitter_epoch_records s (splitter_epoch s)"
  proof (cases s)
    case (TableSplitter t)
    with c obtain t' where t: "table_create_shards p t = (Inr shards, t')" "s' = TableSplitter t'"
      by (auto simp: map_prod_def split: prod.splits)
    have w: "table_wf t" using wf TableSplitter by simp
    show ?thesis
      using table_sp.create_wf [OF w t(1)] table_sp.create_epoch [OF w t(1)]
        table_sp.create_passes [OF w t(1)] table_sp.create_config [OF w t(1)]
        table_sp.create_records [OF w t(1)] t(2) TableSplitter by simp
  next
    case (TextSplitter t)
    with c obtain t' where t: "text_create_shards p t = (Inr shards, t')" "s' = TextSplitter t'"
      by (auto simp: map_prod_def split: prod.splits)
    have w: "text_wf t" using wf TextSplitter by simp
    show ?thesis
      using text_sp.create_wf [OF w t(1)] text_sp.create_epoch [OF w t(1)]
        text_sp.create_passes [OF w t(1)] text_sp.create_config [OF w t(1)]
        text_sp.create_records [OF w t(1)] t(2) TextSplitter by simp
  qed
  then show "splitter_wf s'" "splitter_epoch s' = splitter_epoch s + 1"
    "splitter_num_epochs s' = splitter_num_epochs s"
    "splitter_epoch_records s' = splitter_epoch_records s"
    "shards_records shards = splitter_epoch_records s (splitter_epoch s)"
    by simp_all
next
  fix s :: splitter
  show "splitter_epoch_finished s \<longleftrightarrow>
      0 < splitter_num_epochs s \<and> splitter_num_epochs s \<le> splitter_epoch s"
    by (cases s) (simp_all add: table_sp.finished_iff text_sp.finished_iff)
qed

section \<open>Properties of the splitters\<close>

text \<open>
  C31. A shuffled text epoch. One call of \<open>create_shards\<close> on a shuffling text splitter succeeds; the
  shards' index lists, concatenated, are the shuffled record indices, every record once and none
  made up; every shard is non-empty, carries exactly as many indices as its range is wide, and is
  no wider than the shard size.
\<close>

theorem text_shuffled_epoch:
  assumes wf: "text_wf s" and sh: "xs_shuffle s"
  shows "\<exists>shards. text_create_shards p s =
      (Inr shards, s\<lparr>xs_shards := shards, dsp_epoch := dsp_epoch s + 1\<rparr>) \<and>
    concat (map shard_records shards) = shuffle_by p [0..dsp_dataset_size s - 1] \<and>
    mset (concat (map shard_records shards)) = mset [0..dsp_dataset_size s - 1] \<and>
    list_all (indexed_shard (dsp_shard_size s)) shards"
proof -
  let ?ri = "shuffle_by p [0..dsp_dataset_size s - 1]"
  have z: "0 < dsp_shard_size s" "int (length ?ri) = max 0 (dsp_dataset_size s - 0)"
    using wf by (simp_all add: text_wf_def)
  from text_loop_shuffled [OF z(1) sh z(2)] z(1) sh show ?thesis
    by (simp add: text_create_shards_def create_shards_with_indices_def)
qed

theorem text_shuffled_epoch_witness:
  "let s = new_text_splitter ''d'' 5 2 1 True
   in text_wf s \<and> xs_shuffle s \<and>
      (\<exists>shards. fst (text_create_shards [4, 2, 0, 1, 3] s) = Inr shards \<and>
         concat (map shard_records shards) = [4, 2, 0, 1, 3])"
proof -
  let ?s = "new_text_splitter ''d'' 5 2 1 True"
  have s: "text_wf ?s" "xs_shuffle ?s" by (simp_all add: new_text_splitter_def text_wf_def)
  have "shuffle_by [4, 2, 0, 1, 3] [0..dsp_dataset_size ?s - 1] = [4, 2, 0, 1, 3]" by code_simp
  moreover obtain shards where "fst (text_create_shards [4, 2, 0, 1, 3] ?s) = Inr shards"
    "concat (map shard_records shards) = shuffle_by [4, 2, 0, 1, 3] [0..dsp_dataset_size ?s - 1]"
    using text_shuffled_epoch [OF s, of "[4, 2, 0, 1, 3]"] by (metis fst_conv)
  ultimately show ?thesis using s unfolding Let_def by metis
qed

lemma table_epoch_range_bounds:
  assumes "table_wf s"
  shows "0 \<le> fst (table_epoch_range s)" and "snd (table_epoch_range s) \<le> dsp_dataset_size s"
    and "snd (table_epoch_range s) - fst (table_epoch_range s) \<le>
         ts_max_shard_count s * dsp_shard_size s"
proof -
  show "0 \<le> fst (table_epoch_range s)" and "snd (table_epoch_range s) \<le> dsp_dataset_size s"
    using assms table_huge_subepoch(1) [OF assms]
    by (auto simp: table_epoch_range_def Let_def table_wf_def)
  have "\<not> table_huge s \<Longrightarrow> dsp_dataset_size s \<le> ts_max_shard_count s * dsp_shard_size s"
    using assms ceil_div_le_iff [of "dsp_shard_size s" "dsp_dataset_size s" "ts_max_shard_count s"]
    by (simp add: table_huge_def table_shard_count_def table_wf_def)
  then show "snd (table_epoch_range s) - fst (table_epoch_range s) \<le>
         ts_max_shard_count s * dsp_shard_size s"
    by (auto simp: table_epoch_range_def Let_def algebra_simps)
qed

text \<open>
  C35. Bounded epochs. Whatever epoch a well-formed table splitter is in, the shards one call hands
  out are at most \<open>max_shard_count\<close> many, each is non-empty, no wider than the shard size, lies
  within the dataset and carries the dataset's name, and no two of them overlap.
\<close>

theorem table_epoch_bounded:
  assumes wf: "table_wf s" and c: "table_create_shards p s = (Inr shards, s')"
  shows "int (length shards) \<le> ts_max_shard_count s \<and>
    list_all (\<lambda>sh. 0 \<le> sh_start sh \<and> sh_start sh < sh_end sh \<and> sh_end sh \<le> dsp_dataset_size s \<and>
      sh_end sh \<le> sh_start sh + dsp_shard_size s \<and> sh_name sh = dsp_dataset_name s) shards \<and>
    distinct (concat (map shard_records shards))"
proof -
  define a b where "a = fst (table_epoch_range s)" and "b = snd (table_epoch_range s)"
  note r = table_create_shards_records [OF wf c]
  have z: "0 < dsp_shard_size s" "a \<le> b"
    using wf table_epoch_range_le [OF wf] by (simp_all add: table_wf_def a_def b_def)
  note bd = table_epoch_range_bounds [OF wf, folded a_def b_def]
  have m: "mset shards = mset (create_shards_with_range s a b)" using r(3) by (simp add: a_def b_def)
  have "int (length shards) = ceil_div (b - a) (dsp_shard_size s)"
    using create_shards_with_range_length [OF z] m by (metis size_mset)
  then have len: "int (length shards) \<le> ts_max_shard_count s"
    using bd(3) z(1) by (simp add: ceil_div_le_iff)
  have "mset (concat (map shard_records shards)) = mset [a..b - 1]"
    using r(1) table_epoch_records_range [of s]
    by (simp add: shards_records_concat a_def b_def del: map_concat)
  then have d: "distinct (concat (map shard_records shards))"
    and sub: "set (concat (map shard_records shards)) = {a..b - 1}"
    by (metis distinct_upto mset_eq_imp_distinct_iff, metis set_mset_mset set_upto)
  have "0 \<le> sh_start sh \<and> sh_start sh < sh_end sh \<and> sh_end sh \<le> dsp_dataset_size s \<and>
      sh_end sh \<le> sh_start sh + dsp_shard_size s \<and> sh_name sh = dsp_dataset_name s"
    if sh: "sh \<in> set shards" for sh
  proof -
    have "sh \<in> set (create_shards_with_range s a b)" using sh m by (metis set_mset_mset)
    note f = create_shards_with_range_shard [OF z this]
    have "set (shard_records sh) \<subseteq> {a..b - 1}" unfolding sub [symmetric] using sh by auto
    moreover have "set (shard_records sh) = {sh_start sh..sh_end sh - 1}"
      using f(3) by (simp add: shard_records_def)
    ultimately have "a \<le> sh_start sh" "sh_end sh \<le> b" using f(1) by simp_all
    then show ?thesis using f bd(1,2) by simp
  qed
  with len d show ?thesis by (simp add: list_all_iff)
qed

theorem table_epoch_bounded_witness:
  "\<exists>s shards s'. new_table_splitter ''d'' 11 2 1 True 2 = Inr s \<and>
     table_create_shards [1, 0] s = (Inr shards, s') \<and>
     int (length shards) \<le> 2 \<and> distinct (concat (map shard_records shards))"
proof -
  obtain s where s: "new_table_splitter ''d'' 11 2 1 True 2 = Inr s" "table_wf s" "ts_max_shard_count s = 2"
    using new_table_splitter_wf [of 2 11 2 "''d''" 1 True] by auto
  obtain shards s' where c: "table_create_shards [1, 0] s = (Inr shards, s')"
    using table_sp.create_total [OF s(2)] by blast
  show ?thesis using table_epoch_bounded [OF s(2) c] s c by auto
qed

text \<open>
  The shard-count estimate. \<open>get_shard_count\<close> divides by the shard size rounding down, while an
  epoch of a dataset that fits in one epoch has one more shard for the records left over: the
  estimate is never above the number of shards the remaining epochs create, and it is that number
  only when the shard size divides the dataset size (or no epoch remains).
\<close>

theorem shard_count_estimate:
  assumes wf: "table_wf s" and small: "\<not> table_huge s" and e: "dsp_epoch s \<le> dsp_num_epochs s"
    and c: "table_create_shards p s = (Inr shards, s')"
  shows "\<exists>est. get_shard_count s = Inr est \<and>
    est \<le> int (length shards) * (dsp_num_epochs s - dsp_epoch s) \<and>
    (est = int (length shards) * (dsp_num_epochs s - dsp_epoch s) \<longleftrightarrow>
       dsp_shard_size s dvd dsp_dataset_size s \<or> dsp_epoch s = dsp_num_epochs s)"
proof -
  have z: "0 < dsp_shard_size s" "0 \<le> dsp_dataset_size s" using wf by (simp_all add: table_wf_def)
  have "mset shards = mset (create_shards_with_range s 0 (dsp_dataset_size s))"
    using table_create_shards_records(3) [OF wf c] small by (simp add: table_epoch_range_def)
  then have len: "int (length shards) = ceil_div (dsp_dataset_size s) (dsp_shard_size s)"
    using create_shards_with_range_length [OF z] by (metis size_mset diff_zero)
  define q r n where "q = dsp_dataset_size s div dsp_shard_size s"
    and "r = (if dsp_dataset_size s mod dsp_shard_size s \<noteq> 0 then 1 else (0 :: int))"
    and "n = dsp_num_epochs s - dsp_epoch s"
  have n: "0 \<le> n" "n = 0 \<longleftrightarrow> dsp_epoch s = dsp_num_epochs s" using e by (auto simp: n_def)
  have est: "get_shard_count s = Inr (q * n)" using z(1) by (simp add: get_shard_count_def q_def n_def)
  have l: "int (length shards) = q + r" using z(1) len by (simp only: q_def r_def ceil_div_floor)
  have r: "0 \<le> r" "r = 0 \<longleftrightarrow> dsp_shard_size s dvd dsp_dataset_size s"
    by (auto simp: r_def dvd_eq_mod_eq_0)
  have "q * n \<le> (q + r) * n" using n r by (simp add: mult_right_mono)
  moreover have "q * n = (q + r) * n \<longleftrightarrow> r = 0 \<or> n = 0" by (auto simp: distrib_right)
  ultimately show ?thesis using est n(2) r(2) unfolding l n_def [symmetric] by simp
qed

theorem shard_count_estimate_witness:
  "\<exists>s. new_table_splitter ''d'' 5 10 2 False 50000 = Inr s \<and> get_shard_count s = Inr 0 \<and>
     (\<exists>shards s'. table_create_shards [] s = (Inr shards, s') \<and> 0 < length shards * 2)"
proof -
  define s where "s = \<lparr>dsp_dataset_name = ''d'', dsp_epoch = 0, dsp_dataset_size = 5,
        dsp_shard_size = 10, dsp_num_epochs = 2, ts_shuffle = False, ts_max_shard_count = 50000,
        ts_subepoch_num_per_epoch = 0, ts_shards = []\<rparr>"
  have s: "new_table_splitter ''d'' 5 10 2 False 50000 = Inr s" "table_wf s" "\<not> table_huge s"
    "get_shard_count s = Inr 0" "\<not> dsp_shard_size s dvd dsp_dataset_size s"
    by (simp_all add: s_def new_table_splitter_def split_epoch_for_huge_dataset_def table_wf_def
        table_huge_def table_shard_count_def get_shard_count_def ceil_div_def)
  obtain shards s' where c: "table_create_shards [] s = (Inr shards, s')"
    using table_sp.create_total [OF s(2)] by blast
  have "0 < length shards"
    using shard_count_estimate [OF s(2,3) _ c] s(4,5) by (auto simp: s_def)
  with s c show ?thesis by auto
qed

end
