(* ===== verification/Job_Constants.thy ===== *)
theory Job_Constants
  imports Py_Prelude
begin

text \<open>
  The string constants of \<open>dlrover/python/common/constants.py\<close> that the modelled components
  compare, as datatypes (each class of constants is one closed enumeration, so comparing two
  constructors is comparing the strings), the numeric limits, and the task types of the protocol
  \<open>elastic_training.proto\<close>.
\<close>

datatype node_type = NT_MASTER | NT_PS | NT_WORKER | NT_EVALUATOR | NT_CHIEF | NT_DLROVER_MASTER

datatype node_status =
    ST_SUCCEEDED | ST_FAILED | ST_RUNNING | ST_FINISHED | ST_PENDING | ST_INITIAL | ST_DELETED
  | ST_UNKNOWN

definition is_terminal_status :: "node_status \<Rightarrow> bool" where
  "is_terminal_status s \<longleftrightarrow> s \<in> {ST_FAILED, ST_DELETED, ST_FINISHED, ST_SUCCEEDED}"

text \<open>\<open>EV_NONE\<close> is the empty string, the reported status of a node that has reported nothing.\<close>

datatype node_event_type =
    EV_NONE | EV_ADDED | EV_MODIFIED | EV_DELETED | EV_ERROR | EV_FINISHED | EV_SUCCEEDED_EXITED
  | EV_FAILED_EXITED | EV_NODE_CHECK_SUCCEEDED | EV_NODE_CHECK_FAILED
  | EV_MASTER_CONNECTION_FAILED | EV_WAIT_PRE_CHECK

text \<open>\<open>ER_NONE\<close> is the empty string, the exit reason of a node that has none.\<close>

datatype node_exit_reason =
    ER_NONE | ER_Succeeded | ER_KILLED | ER_OOM | ER_FATAL_ERROR | ER_UNKNOWN_ERROR
  | ER_HARDWARE_ERROR | ER_NO_HEARTBEAT | ER_DIAG_FAIL | ER_RELAUNCHED | ER_CHECK_FAIL

datatype task_type =
    TT_NONE | TT_TRAINING | TT_EVALUATION | TT_PREDICTION | TT_WAIT | TT_TRAIN_END_CALLBACK

datatype job_stage =
    JOB_INIT | JOB_RUNNING | JOB_STOPPING | JOB_STOPPED | JOB_SUSPENDED | JOB_RESTARTING

datatype pre_check_status = PC_CHECKING | PC_FAIL | PC_PASS | PC_DISABLED

datatype ps_cluster_version_type = PSV_GLOBAL | PSV_LOCAL | PSV_RESTORED | PSV_OTHER string

datatype group_node_check_phase =
    INTRA_INITIAL | INTRA_DIAGNOSTIC | INTER_INITIAL | INTER_DIAGNOSTIC

text \<open>\<open>NF_NONE\<close> is the empty string, no reason.\<close>

datatype network_failure_reason = NF_NONE | NO_INIT | NODE_FAILURE | WAITING_NODE | NEXT_PHASE

datatype distribution_strategy = DS_LOCAL | DS_PS | DS_ALLREDUCE | DS_CUSTOM

definition MIN_CPU_CORES :: rat where "MIN_CPU_CORES = 4"
definition MIN_MEMORY :: rat where "MIN_MEMORY = 6144"
definition MAX_MEMORY :: rat where "MAX_MEMORY = 65536"
definition MAX_HANG_TIMEOUT_SECS :: rat where "MAX_HANG_TIMEOUT_SECS = 7200"
definition PENDING_NODE_TIMEOUT_DEFAULT_MIN :: int where "PENDING_NODE_TIMEOUT_DEFAULT_MIN = 600"
definition GROUP_PENDING_NODE_TIMEOUT_DEFAULT_MIN :: int where
  "GROUP_PENDING_NODE_TIMEOUT_DEFAULT_MIN = 300"
definition FIRST_GROUP_IDX :: int where "FIRST_GROUP_IDX = 1000"
definition MAX_RELAUNCH_COUNT :: int where "MAX_RELAUNCH_COUNT = 3"

lemmas limit_defs = MIN_CPU_CORES_def MIN_MEMORY_def MAX_MEMORY_def MAX_HANG_TIMEOUT_SECS_def
  PENDING_NODE_TIMEOUT_DEFAULT_MIN_def GROUP_PENDING_NODE_TIMEOUT_DEFAULT_MIN_def
  FIRST_GROUP_IDX_def MAX_RELAUNCH_COUNT_def

end
