(* ===== verification/Dataset_Manager.thy ===== *)
theory Dataset_Manager
  imports Dataset_Splitter Job_Constants
begin

text \<open>
  Tasks and the manager of a static dataset: \<open>base_dataset_manager.py\<close> and
  \<open>batch_dataset_manager.py\<close> of \<open>dlrover/python/master/shard/\<close>. The state is the queue of tasks to
  do, the dictionary of tasks being done, the splitter, and the counters. The central facts are the
  identity invariant of the task ids, the ledger (what was created is to do, being done, completed
  or dropped after its last retry), and the checkpoint round trip.

  \<open>now\<close> is the reading of \<open>time.time()\<close> in the call, an exact rational.
\<close>

section \<open>Tasks\<close>

record ('i, 'n) task =
  tk_id :: 'i
  tk_type :: task_type
  tk_shard :: "'n shard"
  tk_retry_count :: int

definition new_task :: "'i \<Rightarrow> task_type \<Rightarrow> 'n shard \<Rightarrow> ('i, 'n) task" where
  "new_task i ty sh = \<lparr>tk_id = i, tk_type = ty, tk_shard = sh, tk_retry_count = 0\<rparr>"

definition create_invalid_task :: "(int, string) task" where
  "create_invalid_task = new_task (-1) TT_NONE (new_shard '''' (-1) (-1))"

record ('i, 'n) doing_task =
  dt_task :: "('i, 'n) task"
  dt_node_type :: node_type
  dt_node_id :: int
  dt_start_time :: int

text \<open>
  A shard in a checkpoint is the list \<open>[start, end]\<close> or \<open>[start, end, record_indices]\<close>: the last
  component is there when the index list is non-empty.
\<close>

type_synonym ckpt_shard = "int \<times> int \<times> int list option"

record shard_checkpoint =
  ck_dataset_name :: string
  ck_todo :: "ckpt_shard list"
  ck_doing :: "ckpt_shard list"
  ck_epoch :: int

section \<open>The batch dataset manager\<close>

record dataset_manager =
  dm_todo :: "(int, string) task list"
  dm_doing :: "(int, (int, string) doing_task) dict"
  dm_task_type :: task_type
  dm_batch_size :: int
  dm_splitter :: splitter
  dm_latest_task_end_time :: int
  dm_max_task_completed_time :: rat
  dm_task_id :: int
  dm_completed_step :: int

definition new_batch_dataset_manager :: "task_type \<Rightarrow> int \<Rightarrow> splitter \<Rightarrow> dataset_manager" where
  "new_batch_dataset_manager ty batch_size sp =
     \<lparr>dm_todo = [], dm_doing = [], dm_task_type = ty, dm_batch_size = batch_size,
      dm_splitter = sp, dm_latest_task_end_time = 0, dm_max_task_completed_time = 0,
      dm_task_id = 0, dm_completed_step = 0\<rparr>"

definition MAX_TASK_RETRIES :: int where
  "MAX_TASK_RETRIES = 3"

text \<open>The loop of \<open>_create_todo_tasks\<close>: one task per shard, numbered from \<open>i\<close>.\<close>

fun number_tasks :: "task_type \<Rightarrow> int \<Rightarrow> string shard list \<Rightarrow> (int, string) task list" where
  "number_tasks ty i [] = []"
| "number_tasks ty i (sh # shs) = new_task i ty sh # number_tasks ty (i + 1) shs"

definition create_todo_tasks :: "string shard list \<Rightarrow> dataset_manager \<Rightarrow> dataset_manager" where
  "create_todo_tasks shards m =
     m\<lparr>dm_todo := dm_todo m @ number_tasks (dm_task_type m) (dm_task_id m) shards,
       dm_task_id := dm_task_id m + int (length shards)\<rparr>"

text \<open>The first half of \<open>get_task\<close>: start a new epoch when nothing is left to do.\<close>

definition dm_start_epoch :: "nat list \<Rightarrow> dataset_manager \<Rightarrow> (dataset_manager, unit) py_run" where
  "dm_start_epoch p m =
     (if dm_todo m = [] \<and> \<not> splitter_epoch_finished (dm_splitter m)
      then case splitter_create_shards p (dm_splitter m) of
             (Inl e, sp) \<Rightarrow> (Inl e, m\<lparr>dm_splitter := sp\<rparr>)
           | (Inr shards, sp) \<Rightarrow> (Inr (), create_todo_tasks shards (m\<lparr>dm_splitter := sp\<rparr>))
      else (Inr (), m))"

definition dm_get_task ::
    "nat list \<Rightarrow> rat \<Rightarrow> node_type \<Rightarrow> int \<Rightarrow> dataset_manager
     \<Rightarrow> (dataset_manager, (int, string) task) py_run" where
  "dm_get_task p now nt nid m =
     (case dm_start_epoch p m of
        (Inl e, m1) \<Rightarrow> (Inl e, m1)
      | (Inr _, m1) \<Rightarrow>
          (case dm_todo m1 of
             [] \<Rightarrow> (Inr create_invalid_task, m1)
           | task # rest \<Rightarrow>
               (Inr task,
                m1\<lparr>dm_todo := rest,
                   dm_doing := AList.update (tk_id task)
                     \<lparr>dt_task = task, dt_node_type = nt, dt_node_id = nid,
                      dt_start_time = py_int now\<rparr> (dm_doing m1)\<rparr>)))"

definition dm_get_epoch :: "dataset_manager \<Rightarrow> int" where
  "dm_get_epoch m = splitter_get_epoch (dm_splitter m)"

definition dm_completed :: "dataset_manager \<Rightarrow> bool" where
  "dm_completed m \<longleftrightarrow>
     splitter_epoch_finished (dm_splitter m) \<and> dm_todo m = [] \<and> dm_doing m = []"

definition dm_get_task_count :: "dataset_manager \<Rightarrow> int py_result" where
  "dm_get_task_count m =
     map_sum id (\<lambda>c. int (length (dm_todo m)) + c) (splitter_shard_count (dm_splitter m))"

definition update_completed_step ::
    "rat \<Rightarrow> (int, string) task \<Rightarrow> dataset_manager \<Rightarrow> (dataset_manager, unit) py_run" where
  "update_completed_step now task m =
     (let record_count = sh_end (tk_shard task) - sh_start (tk_shard task)
      in if dm_batch_size m = 0 then (Inl ZeroDivisionError, m)
         else let batch_count = ceil_div record_count (dm_batch_size m)
              in (Inr (), m\<lparr>dm_completed_step := dm_completed_step m + batch_count,
                             dm_latest_task_end_time := py_int now\<rparr>))"

text \<open>\<open>_check_exceed_max_task_retries\<close> increments the counter of the task object it is given.\<close>

definition check_exceed_max_task_retries :: "('i, 'n) task \<Rightarrow> bool \<times> ('i, 'n) task" where
  "check_exceed_max_task_retries task =
     (let task' = task\<lparr>tk_retry_count := tk_retry_count task + 1\<rparr>
      in (tk_retry_count task' > MAX_TASK_RETRIES, task'))"

definition recover_task ::
    "(int, string) task \<Rightarrow> dataset_manager \<Rightarrow> (int, string) task \<times> dataset_manager" where
  "recover_task task m =
     (case check_exceed_max_task_retries task of
        (exceeded, task') \<Rightarrow>
          (task', if exceeded then m else m\<lparr>dm_todo := dm_todo m @ [task']\<rparr>))"

definition dm_report_task_status ::
    "rat \<Rightarrow> int \<Rightarrow> bool \<Rightarrow> dataset_manager
     \<Rightarrow> (dataset_manager, bool \<times> (int, string) doing_task option) py_run" where
  "dm_report_task_status now task_id success m =
     (case map_of (dm_doing m) task_id of
        None \<Rightarrow> (Inr (False, None), m)
      | Some dt \<Rightarrow>
          let m1 = m\<lparr>dm_doing := AList.delete task_id (dm_doing m)\<rparr>
          in if \<not> success
             then case recover_task (dt_task dt) m1 of
                    (task', m2) \<Rightarrow> (Inr (False, Some (dt\<lparr>dt_task := task'\<rparr>)), m2)
             else case update_completed_step now (dt_task dt) m1 of
                    (Inl e, m2) \<Rightarrow> (Inl e, m2)
                  | (Inr _, m2) \<Rightarrow>
                      let task_completed_time = now - of_int (dt_start_time dt);
                          m3 = (if task_completed_time > dm_max_task_completed_time m2
                                then m2\<lparr>dm_max_task_completed_time := task_completed_time\<rparr>
                                else m2)
                      in (Inr (True, Some dt), m3))"

definition task_ckpt :: "('i, 'n) task \<Rightarrow> ckpt_shard" where
  "task_ckpt t =
     (sh_start (tk_shard t), sh_end (tk_shard t),
      (case sh_record_indices (tk_shard t) of
         Some (i # is) \<Rightarrow> Some (i # is)
       | _ \<Rightarrow> None))"

definition dm_checkpoint :: "dataset_manager \<Rightarrow> shard_checkpoint" where
  "dm_checkpoint m =
     \<lparr>ck_dataset_name = splitter_dataset_name (dm_splitter m),
      ck_todo = map task_ckpt (dm_todo m),
      ck_doing = map (\<lambda>(i, dt). task_ckpt (dt_task dt)) (dm_doing m),
      ck_epoch = splitter_epoch (dm_splitter m)\<rparr>"

text \<open>The loop of \<open>restore_checkpoint\<close> over the shards of the checkpoint.\<close>

fun restore_tasks ::
    "string \<Rightarrow> task_type \<Rightarrow> ckpt_shard list \<Rightarrow> int \<Rightarrow> (int, string) task list \<Rightarrow> (int, string) task list \<times> int"
where
  "restore_tasks nm ty [] i todo = (todo, i)"
| "restore_tasks nm ty ((s, e, ri) # rest) i todo =
     restore_tasks nm ty rest (i + 1)
       (todo @ [new_task i ty \<lparr>sh_name = nm, sh_start = s, sh_end = e, sh_record_indices = ri\<rparr>])"

definition dm_restore_checkpoint :: "shard_checkpoint \<Rightarrow> dataset_manager \<Rightarrow> dataset_manager" where
  "dm_restore_checkpoint ck m =
     (let sp = splitter_set_epoch (ck_epoch ck) (dm_splitter m);
          (todo, i) = restore_tasks (splitter_dataset_name sp) (dm_task_type m)
                        (ck_doing ck @ ck_todo ck) (dm_task_id m) []
      in m\<lparr>dm_splitter := sp, dm_doing := [], dm_todo := todo, dm_task_id := i\<rparr>)"

section \<open>The task-identity invariant\<close>

definition task_ok :: "int \<Rightarrow> (int, 'n) task \<Rightarrow> bool" where
  "task_ok n t \<longleftrightarrow> 0 \<le> tk_id t \<and> tk_id t < n \<and>
     0 \<le> tk_retry_count t \<and> tk_retry_count t \<le> MAX_TASK_RETRIES"

text \<open>
  Every task in the manager has an id of its own below the next id, is filed under that id while it
  is being done, and has not used up its retries.
\<close>

definition dm_inv :: "dataset_manager \<Rightarrow> bool" where
  "dm_inv m \<longleftrightarrow>
     splitter_wf (dm_splitter m) \<and> 0 < dm_batch_size m \<and> 0 \<le> dm_task_id m \<and>
     distinct (map tk_id (dm_todo m) @ map fst (dm_doing m)) \<and>
     (\<forall>t\<in>set (dm_todo m). task_ok (dm_task_id m) t) \<and>
     (\<forall>(i, dt)\<in>set (dm_doing m). tk_id (dt_task dt) = i \<and> task_ok (dm_task_id m) (dt_task dt))"

lemma dm_inv_new:
  "splitter_wf sp \<Longrightarrow> 0 < batch_size \<Longrightarrow> dm_inv (new_batch_dataset_manager ty batch_size sp)"
  by (simp add: dm_inv_def new_batch_dataset_manager_def)

lemma task_ok_mono: "task_ok n t \<Longrightarrow> n \<le> k \<Longrightarrow> task_ok k t"
  by (simp add: task_ok_def)

lemma number_tasks_ids: "map tk_id (number_tasks ty i shs) = [i..i + int (length shs) - 1]"
proof (induction shs arbitrary: i)
  case (Cons sh shs)
  have "[i..i + int (length (sh # shs)) - 1] = i # [i + 1..i + 1 + int (length shs) - 1]"
    by (simp add: upto_rec1)
  then show ?case using Cons by (simp add: new_task_def)
qed simp

lemma number_tasks_shards: "map tk_shard (number_tasks ty i shs) = shs"
  by (induction shs arbitrary: i) (auto simp: new_task_def)

lemma number_tasks_ok:
  "t \<in> set (number_tasks ty i shs) \<Longrightarrow> 0 \<le> i \<Longrightarrow> i + int (length shs) \<le> n \<Longrightarrow> task_ok n t"
proof (induction shs arbitrary: i)
  case (Cons sh shs)
  then show ?case
    using Cons.IH [of "i + 1"] by (auto simp: task_ok_def new_task_def MAX_TASK_RETRIES_def)
qed simp

lemma dm_inv_below:
  assumes "dm_inv m"
  shows "i \<in> set (map tk_id (dm_todo m) @ map fst (dm_doing m)) \<Longrightarrow> i < dm_task_id m"
  using assms by (auto simp: dm_inv_def task_ok_def)

lemma create_todo_tasks_inv:
  assumes "dm_inv m" and "splitter_wf sp"
  shows "dm_inv (create_todo_tasks shards (m\<lparr>dm_splitter := sp\<rparr>))"
proof -
  let ?ts = "number_tasks (dm_task_type m) (dm_task_id m) shards"
  have "set (map tk_id ?ts) \<inter> set (map tk_id (dm_todo m) @ map fst (dm_doing m)) = {}"
    using dm_inv_below [OF assms(1)] unfolding number_tasks_ids by fastforce
  moreover have "distinct (map tk_id ?ts)" unfolding number_tasks_ids by simp
  moreover have "task_ok (dm_task_id m + int (length shards)) t" if "t \<in> set ?ts" for t
    using number_tasks_ok [OF that] assms(1) by (simp add: dm_inv_def)
  moreover have "task_ok (dm_task_id m + int (length shards)) t" if "task_ok (dm_task_id m) t"
    for t :: "(int, string) task"
    by (rule task_ok_mono [OF that]) simp
  ultimately show ?thesis
    using assms by (auto simp: dm_inv_def create_todo_tasks_def)
qed

lemma dm_start_epoch_cases:
  assumes "dm_inv m"
  obtains (keep) "dm_todo m \<noteq> [] \<or> splitter_epoch_finished (dm_splitter m)"
      "dm_start_epoch p m = (Inr (), m)"
    | (fill) shards sp where "dm_todo m = []" "\<not> splitter_epoch_finished (dm_splitter m)"
      "splitter_create_shards p (dm_splitter m) = (Inr shards, sp)" "splitter_wf sp"
      "dm_start_epoch p m = (Inr (), create_todo_tasks shards (m\<lparr>dm_splitter := sp\<rparr>))"
proof (cases "dm_todo m = [] \<and> \<not> splitter_epoch_finished (dm_splitter m)")
  case True
  have wf: "splitter_wf (dm_splitter m)" using assms by (simp add: dm_inv_def)
  obtain shards sp where c: "splitter_create_shards p (dm_splitter m) = (Inr shards, sp)"
    using any_sp.create_total [OF wf] by blast
  moreover have "splitter_wf sp" by (rule any_sp.create_wf [OF wf c])
  ultimately show ?thesis using True fill by (simp add: dm_start_epoch_def)
next
  case False
  then have "dm_start_epoch p m = (Inr (), m)" by (auto simp: dm_start_epoch_def)
  with False keep show ?thesis by blast
qed

lemma dm_start_epoch_inv:
  assumes "dm_inv m"
  shows "\<exists>m1. dm_start_epoch p m = (Inr (), m1) \<and> dm_inv m1"
  by (rule dm_start_epoch_cases [OF assms, of p]) (use assms create_todo_tasks_inv in auto)

text \<open>Moving the first task from to-do to being-done.\<close>

lemma dm_assign_inv:
  assumes "dm_inv m" and "dm_todo m = t # rest" and "dt_task dt = t"
  shows "dm_inv (m\<lparr>dm_todo := rest, dm_doing := AList.update (tk_id t) dt (dm_doing m)\<rparr>)"
    and "AList.update (tk_id t) dt (dm_doing m) = dm_doing m @ [(tk_id t, dt)]"
proof -
  have "tk_id t \<notin> fst ` set (dm_doing m)" using assms(1,2) by (auto simp: dm_inv_def)
  then show u: "AList.update (tk_id t) dt (dm_doing m) = dm_doing m @ [(tk_id t, dt)]"
    by (intro update_new) (simp add: map_of_eq_None_iff)
  show "dm_inv (m\<lparr>dm_todo := rest, dm_doing := AList.update (tk_id t) dt (dm_doing m)\<rparr>)"
    using assms by (auto simp: dm_inv_def u)
qed

lemma dm_get_task_inv: "dm_inv m \<Longrightarrow> dm_inv (snd (dm_get_task p now nt nid m))"
  using dm_start_epoch_inv [of m p] dm_assign_inv(1)
  by (fastforce simp: dm_get_task_def split: list.splits)

lemma doing_split:
  assumes "dm_inv m" and "map_of (dm_doing m) i = Some dt"
  shows "tk_id (dt_task dt) = i" and "task_ok (dm_task_id m) (dt_task dt)"
    and "i \<notin> set (map tk_id (dm_todo m))"
    and "mset (dm_doing m) = add_mset (i, dt) (mset (AList.delete i (dm_doing m)))"
proof -
  have mem: "(i, dt) \<in> set (dm_doing m)" using assms(2) by (rule map_of_SomeD)
  with assms(1) show "tk_id (dt_task dt) = i" "task_ok (dm_task_id m) (dt_task dt)"
    by (auto simp: dm_inv_def)
  show "i \<notin> set (map tk_id (dm_todo m))" using mem assms(1) by (force simp: dm_inv_def)
  show "mset (dm_doing m) = add_mset (i, dt) (mset (AList.delete i (dm_doing m)))"
    using assms by (intro delete_split) (auto simp: dm_inv_def wf_dict_def)
qed

lemma dm_pop_inv:
  assumes "dm_inv m"
  shows "dm_inv (m\<lparr>dm_doing := AList.delete i (dm_doing m)\<rparr>)"
    and "i \<notin> fst ` set (AList.delete i (dm_doing m))"
  using assms unfolding dm_inv_def
  by (auto simp: AList.delete_eq distinct_map_filter)

lemma recover_task_inv:
  assumes "dm_inv m" and "task_ok (dm_task_id m) t"
    and "tk_id t \<notin> set (map tk_id (dm_todo m) @ map fst (dm_doing m))"
  shows "dm_inv (snd (recover_task t m))"
  using assms
  by (auto simp: recover_task_def check_exceed_max_task_retries_def Let_def dm_inv_def task_ok_def
      split: if_splits)

lemma update_completed_step_fields:
  assumes "dm_batch_size m \<noteq> 0"
  shows "\<exists>c e. update_completed_step now t m =
    (Inr (), m\<lparr>dm_completed_step := c, dm_latest_task_end_time := e\<rparr>)"
  using assms by (simp add: update_completed_step_def Let_def) blast

lemma dm_report_task_status_inv:
  assumes "dm_inv m"
  shows "dm_inv (snd (dm_report_task_status now i ok m))"
proof (cases "map_of (dm_doing m) i")
  case None
  then show ?thesis using assms by (simp add: dm_report_task_status_def)
next
  case (Some dt)
  let ?m1 = "m\<lparr>dm_doing := AList.delete i (dm_doing m)\<rparr>"
  note d = doing_split [OF assms Some] and pop = dm_pop_inv [OF assms, of i]
  show ?thesis
  proof (cases ok)
    case True
    obtain c e where u: "update_completed_step now (dt_task dt) ?m1 =
        (Inr (), ?m1\<lparr>dm_completed_step := c, dm_latest_task_end_time := e\<rparr>)"
      using update_completed_step_fields [of ?m1 now "dt_task dt"] assms by (auto simp: dm_inv_def)
    show ?thesis using True Some u pop(1) by (simp add: dm_report_task_status_def Let_def dm_inv_def)
  next
    case False
    have "dm_inv (snd (recover_task (dt_task dt) ?m1))"
      using d pop by (intro recover_task_inv) auto
    then show ?thesis using False Some by (simp add: dm_report_task_status_def Let_def split_def)
  qed
qed

section \<open>The manager as a machine, and its ledger\<close>

datatype dm_op = DmGet "nat list" rat node_type int | DmReport rat int bool

fun dm_step :: "dm_op \<Rightarrow> dataset_manager \<Rightarrow> dataset_manager" where
  "dm_step (DmGet p now nt nid) m = snd (dm_get_task p now nt nid m)"
| "dm_step (DmReport now i ok) m = snd (dm_report_task_status now i ok m)"

lemma dm_step_inv: "dm_inv m \<Longrightarrow> dm_inv (dm_step op m)"
  by (cases op) (auto intro: dm_get_task_inv dm_report_task_status_inv)

text \<open>The shards the manager still owes: to do or being done.\<close>

definition dm_outstanding :: "dataset_manager \<Rightarrow> string shard multiset" where
  "dm_outstanding m =
     mset (map tk_shard (dm_todo m)) + mset (map (\<lambda>(i, dt). tk_shard (dt_task dt)) (dm_doing m))"

text \<open>What one operation creates, completes and drops.\<close>

fun dm_created_by :: "dm_op \<Rightarrow> dataset_manager \<Rightarrow> string shard multiset" where
  "dm_created_by (DmGet p now nt nid) m =
     (if dm_todo m = [] \<and> \<not> splitter_epoch_finished (dm_splitter m)
      then case fst (splitter_create_shards p (dm_splitter m)) of
             Inl _ \<Rightarrow> {#} | Inr shards \<Rightarrow> mset shards
      else {#})"
| "dm_created_by (DmReport now i ok) m = {#}"

fun dm_completed_by :: "dm_op \<Rightarrow> dataset_manager \<Rightarrow> string shard multiset" where
  "dm_completed_by (DmGet p now nt nid) m = {#}"
| "dm_completed_by (DmReport now i ok) m =
     (case map_of (dm_doing m) i of
        None \<Rightarrow> {#} | Some dt \<Rightarrow> if ok then {#tk_shard (dt_task dt)#} else {#})"

fun dm_dropped_by :: "dm_op \<Rightarrow> dataset_manager \<Rightarrow> string shard multiset" where
  "dm_dropped_by (DmGet p now nt nid) m = {#}"
| "dm_dropped_by (DmReport now i ok) m =
     (case map_of (dm_doing m) i of
        None \<Rightarrow> {#}
      | Some dt \<Rightarrow>
          if \<not> ok \<and> tk_retry_count (dt_task dt) \<ge> MAX_TASK_RETRIES
          then {#tk_shard (dt_task dt)#} else {#})"

text \<open>The same summed over a run.\<close>

fun dm_ledger ::
    "(dm_op \<Rightarrow> dataset_manager \<Rightarrow> string shard multiset) \<Rightarrow> dm_op list \<Rightarrow> dataset_manager
     \<Rightarrow> string shard multiset" where
  "dm_ledger f [] m = {#}"
| "dm_ledger f (op # ops) m = f op m + dm_ledger f ops (dm_step op m)"

lemma dm_outstanding_simps [simp]:
  "dm_outstanding (m\<lparr>dm_splitter := sp\<rparr>) = dm_outstanding m"
  "dm_outstanding (m\<lparr>dm_max_task_completed_time := x\<rparr>) = dm_outstanding m"
  "dm_outstanding (m\<lparr>dm_completed_step := c, dm_latest_task_end_time := e\<rparr>) = dm_outstanding m"
  "dm_outstanding (create_todo_tasks shards m) = dm_outstanding m + mset shards"
  by (simp_all add: dm_outstanding_def create_todo_tasks_def number_tasks_shards flip: mset_map)

lemma dm_get_task_ledger:
  assumes "dm_inv m"
  shows "dm_outstanding (snd (dm_get_task p now nt nid m)) =
    dm_outstanding m + dm_created_by (DmGet p now nt nid) m"
proof -
  obtain m1 where m1: "dm_start_epoch p m = (Inr (), m1)" "dm_inv m1"
    using dm_start_epoch_inv [OF assms] by blast
  have "dm_outstanding m1 = dm_outstanding m + dm_created_by (DmGet p now nt nid) m"
    by (rule dm_start_epoch_cases [OF assms, of p]) (use m1 in auto)
  moreover have "dm_outstanding (snd (dm_get_task p now nt nid m)) = dm_outstanding m1"
    using m1 dm_assign_inv(2) [OF m1(2)]
    by (auto simp: dm_get_task_def dm_outstanding_def split: list.splits)
  ultimately show ?thesis by simp
qed

lemma dm_report_ledger:
  assumes "dm_inv m"
  shows "dm_outstanding (snd (dm_report_task_status now i ok m)) +
    dm_completed_by (DmReport now i ok) m + dm_dropped_by (DmReport now i ok) m = dm_outstanding m"
proof (cases "map_of (dm_doing m) i")
  case None
  then show ?thesis by (simp add: dm_report_task_status_def)
next
  case (Some dt)
  let ?m1 = "m\<lparr>dm_doing := AList.delete i (dm_doing m)\<rparr>"
  note d = doing_split [OF assms Some]
  have pop: "dm_outstanding m = dm_outstanding ?m1 + {#tk_shard (dt_task dt)#}"
    using d(4) by (simp add: dm_outstanding_def)
  obtain c e where u: "update_completed_step now (dt_task dt) ?m1 =
      (Inr (), ?m1\<lparr>dm_completed_step := c, dm_latest_task_end_time := e\<rparr>)"
    using update_completed_step_fields [of ?m1 now "dt_task dt"] assms by (auto simp: dm_inv_def)
  show ?thesis
    using Some u pop d(2)
    by (auto simp: dm_report_task_status_def Let_def recover_task_def task_ok_def
        check_exceed_max_task_retries_def dm_outstanding_def)
qed

lemma dm_step_ledger:
  assumes "dm_inv m"
  shows "dm_outstanding (dm_step op m) + dm_completed_by op m + dm_dropped_by op m =
    dm_outstanding m + dm_created_by op m"
  using dm_get_task_ledger [OF assms] dm_report_ledger [OF assms] by (cases op) auto

lemma dm_run_ledger:
  assumes "dm_inv m"
  shows "dm_outstanding (fold dm_step ops m) + dm_ledger dm_completed_by ops m +
    dm_ledger dm_dropped_by ops m = dm_outstanding m + dm_ledger dm_created_by ops m"
  using assms
proof (induction ops arbitrary: m)
  case (Cons op ops)
  let ?m1 = "dm_step op m"
  let ?C = "dm_ledger dm_completed_by ops ?m1" and ?D = "dm_ledger dm_dropped_by ops ?m1"
  have "dm_outstanding (fold dm_step (op # ops) m) + dm_ledger dm_completed_by (op # ops) m +
      dm_ledger dm_dropped_by (op # ops) m =
      (dm_outstanding (fold dm_step ops ?m1) + ?C + ?D) + (dm_completed_by op m + dm_dropped_by op m)"
    by simp
  also have "dm_outstanding (fold dm_step ops ?m1) + ?C + ?D =
      dm_outstanding ?m1 + dm_ledger dm_created_by ops ?m1"
    using Cons dm_step_inv by blast
  also have "\<dots> + (dm_completed_by op m + dm_dropped_by op m) =
      (dm_outstanding ?m1 + dm_completed_by op m + dm_dropped_by op m) + dm_ledger dm_created_by ops ?m1"
    by simp
  also have "\<dots> = dm_outstanding m + dm_ledger dm_created_by (op # ops) m"
    using dm_step_ledger [OF Cons.prems, of op] by simp
  finally show ?case .
qed simp

text \<open>The splitter moves only when an epoch starts, never beyond the configured passes.\<close>

lemma dm_report_splitter: "dm_splitter (snd (dm_report_task_status now i ok m)) = dm_splitter m"
  by (auto simp: dm_report_task_status_def recover_task_def update_completed_step_def Let_def
      split_def split: option.splits sum.splits)

definition dm_epoch :: "dataset_manager \<Rightarrow> int" where
  "dm_epoch m = splitter_epoch (dm_splitter m)"

lemma dm_step_epoch:
  assumes "dm_inv m"
  shows "splitter_num_epochs (dm_splitter (dm_step op m)) = splitter_num_epochs (dm_splitter m)"
    and "splitter_epoch_records (dm_splitter (dm_step op m)) = splitter_epoch_records (dm_splitter m)"
    and "(dm_epoch (dm_step op m) = dm_epoch m \<and> dm_created_by op m = {#}) \<or>
         (dm_epoch (dm_step op m) = dm_epoch m + 1 \<and> \<not> splitter_epoch_finished (dm_splitter m) \<and>
          (\<Sum>sh\<in>#dm_created_by op m. mset (shard_records sh)) =
             splitter_epoch_records (dm_splitter m) (dm_epoch m))"
proof -
  have wf: "splitter_wf (dm_splitter m)" using assms by (simp add: dm_inv_def)
  have "splitter_num_epochs (dm_splitter (dm_step op m)) = splitter_num_epochs (dm_splitter m) \<and>
    splitter_epoch_records (dm_splitter (dm_step op m)) = splitter_epoch_records (dm_splitter m) \<and>
    ((dm_epoch (dm_step op m) = dm_epoch m \<and> dm_created_by op m = {#}) \<or>
         (dm_epoch (dm_step op m) = dm_epoch m + 1 \<and> \<not> splitter_epoch_finished (dm_splitter m) \<and>
          (\<Sum>sh\<in>#dm_created_by op m. mset (shard_records sh)) =
             splitter_epoch_records (dm_splitter m) (dm_epoch m)))"
  proof (cases op)
    case (DmGet p now nt nid)
    obtain m1 where m1: "dm_start_epoch p m = (Inr (), m1)"
      using dm_start_epoch_inv [OF assms] by blast
    have sp: "dm_splitter (dm_step op m) = dm_splitter m1"
      using m1 DmGet by (auto simp: dm_get_task_def split: list.splits)
    show ?thesis
    proof (rule dm_start_epoch_cases [OF assms, of p])
      assume "dm_todo m \<noteq> [] \<or> splitter_epoch_finished (dm_splitter m)"
        and "dm_start_epoch p m = (Inr (), m)"
      with m1 sp DmGet show ?thesis by (auto simp: dm_epoch_def)
    next
      fix shards sp'
      assume todo: "dm_todo m = []" and nf: "\<not> splitter_epoch_finished (dm_splitter m)"
        and c: "splitter_create_shards p (dm_splitter m) = (Inr shards, sp')"
        and s: "dm_start_epoch p m = (Inr (), create_todo_tasks shards (m\<lparr>dm_splitter := sp'\<rparr>))"
      have "dm_splitter m1 = sp'" using s m1 by (auto simp: create_todo_tasks_def)
      with any_sp.create_epoch [OF wf c] any_sp.create_passes [OF wf c]
        any_sp.create_config [OF wf c] any_sp.create_records [OF wf c] sp todo nf c DmGet
      show ?thesis by (auto simp: dm_epoch_def shards_records_def)
    qed
  next
    case (DmReport now i ok)
    then show ?thesis by (simp add: dm_report_splitter dm_epoch_def)
  qed
  then show "splitter_num_epochs (dm_splitter (dm_step op m)) = splitter_num_epochs (dm_splitter m)"
    "splitter_epoch_records (dm_splitter (dm_step op m)) = splitter_epoch_records (dm_splitter m)"
    "(dm_epoch (dm_step op m) = dm_epoch m \<and> dm_created_by op m = {#}) \<or>
         (dm_epoch (dm_step op m) = dm_epoch m + 1 \<and> \<not> splitter_epoch_finished (dm_splitter m) \<and>
          (\<Sum>sh\<in>#dm_created_by op m. mset (shard_records sh)) =
             splitter_epoch_records (dm_splitter m) (dm_epoch m))"
    by blast+
qed

interpretation dm_mach: counting_machine dm_step dm_inv dm_epoch
proof unfold_locales
  fix op m
  assume "dm_inv m"
  then show "dm_inv (dm_step op m)" by (rule dm_step_inv)
  show "dm_epoch m \<le> dm_epoch (dm_step op m)" using dm_step_epoch(3) [OF \<open>dm_inv m\<close>, of op] by auto
qed

section \<open>Every record, once per pass\<close>

definition records_of :: "string shard multiset \<Rightarrow> int multiset" where
  "records_of M = (\<Sum>sh\<in>#M. mset (shard_records sh))"

lemma records_of_simps [simp]:
  "records_of {#} = {#}" "records_of (M + N) = records_of M + records_of N"
  by (simp_all add: records_of_def)

lemma dm_run_created:
  assumes "dm_inv m"
  shows "splitter_num_epochs (dm_splitter (fold dm_step ops m)) = splitter_num_epochs (dm_splitter m) \<and>
    dm_epoch m \<le> dm_epoch (fold dm_step ops m) \<and>
    (0 < splitter_num_epochs (dm_splitter m) \<longrightarrow> dm_epoch m \<le> splitter_num_epochs (dm_splitter m) \<longrightarrow>
       dm_epoch (fold dm_step ops m) \<le> splitter_num_epochs (dm_splitter m)) \<and>
    records_of (dm_ledger dm_created_by ops m) =
      (\<Sum>i<nat (dm_epoch (fold dm_step ops m) - dm_epoch m).
         splitter_epoch_records (dm_splitter m) (dm_epoch m + int i))"
  using assms
proof (induction ops arbitrary: m)
  case (Cons op ops)
  let ?m1 = "dm_step op m" and ?m2 = "fold dm_step ops (dm_step op m)"
  let ?R = "splitter_epoch_records (dm_splitter m)"
  note IH = Cons.IH [OF dm_step_inv [OF Cons.prems], of op]
  note st = dm_step_epoch [OF Cons.prems, of op]
  from st(3) show ?case
  proof (elim disjE conjE)
    assume "dm_epoch ?m1 = dm_epoch m" "dm_created_by op m = {#}"
    with IH st(1,2) show ?thesis by simp
  next
    assume e: "dm_epoch ?m1 = dm_epoch m + 1" and nf: "\<not> splitter_epoch_finished (dm_splitter m)"
      and r: "(\<Sum>sh\<in>#dm_created_by op m. mset (shard_records sh)) = ?R (dm_epoch m)"
    have le: "dm_epoch m + 1 \<le> dm_epoch ?m2" using IH e by simp
    then have n: "nat (dm_epoch ?m2 - dm_epoch m) = Suc (nat (dm_epoch ?m2 - (dm_epoch m + 1)))" by simp
    have "(\<Sum>i<nat (dm_epoch ?m2 - dm_epoch m). ?R (dm_epoch m + int i)) =
          ?R (dm_epoch m) + (\<Sum>i<nat (dm_epoch ?m2 - (dm_epoch m + 1)). ?R (dm_epoch m + 1 + int i))"
      unfolding n by (simp add: sum.lessThan_Suc_shift algebra_simps del: sum.lessThan_Suc)
    then have sum: "records_of (dm_ledger dm_created_by (op # ops) m) =
        (\<Sum>i<nat (dm_epoch ?m2 - dm_epoch m). ?R (dm_epoch m + int i))"
      using IH st(2) e r by (simp add: records_of_def)
    have "dm_epoch m < splitter_num_epochs (dm_splitter m)" if "0 < splitter_num_epochs (dm_splitter m)"
      using nf that by (simp add: any_sp.finished_iff dm_epoch_def)
    then have bound: "0 < splitter_num_epochs (dm_splitter m) \<longrightarrow>
        dm_epoch ?m2 \<le> splitter_num_epochs (dm_splitter m)"
      using IH st(1) e by auto
    show ?thesis using IH st(1) le bound sum by simp
  qed
qed simp

lemma dm_completed_outstanding: "dm_completed m \<Longrightarrow> dm_outstanding m = {#}"
  by (simp add: dm_completed_def dm_outstanding_def)

lemma dm_complete_run:
  assumes inv: "dm_inv m" and fresh: "dm_todo m = []" "dm_doing m = []" "dm_epoch m = 0"
    and n: "0 < splitter_num_epochs (dm_splitter m)"
    and c: "dm_completed (fold dm_step ops m)"
  shows "records_of (dm_ledger dm_completed_by ops m) + records_of (dm_ledger dm_dropped_by ops m) =
    (\<Sum>i<nat (splitter_num_epochs (dm_splitter m)). splitter_epoch_records (dm_splitter m) (int i))"
proof -
  let ?m' = "fold dm_step ops m"
  note run = dm_run_created [OF inv, of ops]
  have "splitter_num_epochs (dm_splitter m) \<le> dm_epoch ?m'"
    using c run by (simp add: dm_completed_def any_sp.finished_iff dm_epoch_def)
  with run n fresh have e: "dm_epoch ?m' = splitter_num_epochs (dm_splitter m)" by simp
  have "dm_outstanding m = {#}" using fresh by (simp add: dm_outstanding_def)
  with dm_run_ledger [OF inv, of ops] dm_completed_outstanding [OF c]
  have "dm_ledger dm_completed_by ops m + dm_ledger dm_dropped_by ops m = dm_ledger dm_created_by ops m"
    by simp
  then have "records_of (dm_ledger dm_completed_by ops m) + records_of (dm_ledger dm_dropped_by ops m)
      = records_of (dm_ledger dm_created_by ops m)"
    by (metis records_of_simps(2))
  with run e fresh show ?thesis by simp
qed

section \<open>A job can always be driven to its end\<close>

lemma dm_report_ok_fields:
  assumes "dm_inv m" and "dm_doing m = (i, dt) # rest"
  shows "dm_doing (snd (dm_report_task_status now i True m)) = rest"
    and "dm_todo (snd (dm_report_task_status now i True m)) = dm_todo m"
proof -
  have "i \<notin> fst ` set rest" using assms by (auto simp: dm_inv_def)
  then have del: "AList.delete i (dm_doing m) = rest"
    using assms(2) by (simp add: AList.delete_eq) (metis delete_id AList.delete_eq)
  have b: "dm_batch_size m \<noteq> 0" using assms(1) by (simp add: dm_inv_def)
  show "dm_doing (snd (dm_report_task_status now i True m)) = rest"
    and "dm_todo (snd (dm_report_task_status now i True m)) = dm_todo m"
    using assms(2) del b
    by (simp_all add: dm_report_task_status_def update_completed_step_def Let_def)
qed

lemma dm_get_ready_fields:
  assumes "dm_inv m" and "dm_todo m = t # rest"
  shows "dm_todo (snd (dm_get_task p now nt nid m)) = rest"
    and "length (dm_doing (snd (dm_get_task p now nt nid m))) = Suc (length (dm_doing m))"
    and "dm_splitter (snd (dm_get_task p now nt nid m)) = dm_splitter m"
  using assms dm_assign_inv(2) [OF assms]
  by (simp_all add: dm_get_task_def dm_start_epoch_def)

definition dm_work :: "dataset_manager \<Rightarrow> nat" where
  "dm_work m = 2 * length (dm_todo m) + length (dm_doing m)"

lemma dm_can_finish:
  assumes "dm_inv m" and "0 < splitter_num_epochs (dm_splitter m)"
  shows "\<exists>ops. dm_completed (fold dm_step ops m)"
  using assms
proof (induction m rule: wf_induct_rule [OF wf_measures,
      of "[\<lambda>m. nat (splitter_num_epochs (dm_splitter m) - dm_epoch m), dm_work]"])
  case (1 m)
  have step: "\<exists>ops. dm_completed (fold dm_step ops m)"
    if "(dm_step op m, m) \<in> measures
          [\<lambda>m. nat (splitter_num_epochs (dm_splitter m) - dm_epoch m), dm_work]" for op
  proof -
    have "\<exists>ops. dm_completed (fold dm_step ops (dm_step op m))"
      using 1 that dm_step_inv dm_step_epoch(1) by simp
    then show ?thesis by (metis fold_simps(2))
  qed
  show ?case
  proof (cases "dm_doing m")
    case (Cons d rest)
    obtain i dt where d: "d = (i, dt)" by (cases d)
    show ?thesis
      by (rule step [of "DmReport 0 i True"])
        (use dm_report_ok_fields [OF "1.prems"(1), of i dt rest] Cons d in
          \<open>simp add: dm_work_def dm_report_splitter dm_epoch_def\<close>)
  next
    case nd: Nil
    show ?thesis
    proof (cases "dm_todo m")
      case (Cons t rest)
      show ?thesis
        by (rule step [of "DmGet [] 0 NT_WORKER 0"])
          (use dm_get_ready_fields [OF "1.prems"(1) Cons] Cons nd in
            \<open>simp add: dm_work_def dm_epoch_def\<close>)
    next
      case nt: Nil
      show ?thesis
      proof (cases "splitter_epoch_finished (dm_splitter m)")
        case True
        then have "dm_completed (fold dm_step [] m)" using nd nt by (simp add: dm_completed_def)
        then show ?thesis by blast
      next
        case False
        let ?op = "DmGet [] 0 NT_WORKER 0"
        obtain m1 where "dm_start_epoch [] m = (Inr (), m1)" "dm_epoch m1 = dm_epoch m + 1"
        proof (rule dm_start_epoch_cases [OF "1.prems"(1), of "[]"])
          fix shards sp
          assume c: "splitter_create_shards [] (dm_splitter m) = (Inr shards, sp)"
            and s: "dm_start_epoch [] m = (Inr (), create_todo_tasks shards (m\<lparr>dm_splitter := sp\<rparr>))"
          have "splitter_epoch sp = dm_epoch m + 1"
            using any_sp.create_epoch [OF _ c] "1.prems"(1) by (simp add: dm_inv_def dm_epoch_def)
          then show thesis using that s by (simp add: create_todo_tasks_def dm_epoch_def)
        qed (use False nt in simp)
        then have "dm_epoch (dm_step ?op m) = dm_epoch m + 1"
          by (auto simp: dm_get_task_def dm_epoch_def split: list.splits)
        moreover have "dm_epoch m < splitter_num_epochs (dm_splitter m)"
          using False "1.prems"(2) by (simp add: any_sp.finished_iff dm_epoch_def)
        ultimately show ?thesis
          using dm_step_epoch(1) [OF "1.prems"(1), of ?op] by (intro step [of ?op]) simp
      qed
    qed
  qed
qed

section \<open>Checkpoint and restore\<close>

lemma restore_tasks_eq:
  "restore_tasks nm ty cks i todo =
     (todo @ number_tasks ty i
        (map (\<lambda>(s, e, ri). \<lparr>sh_name = nm, sh_start = s, sh_end = e, sh_record_indices = ri\<rparr>) cks),
      i + int (length cks))"
  by (induction nm ty cks i todo rule: restore_tasks.induct) auto

lemma task_ckpt_records:
  "(case task_ckpt t of (s, e, ri) \<Rightarrow>
      shard_records \<lparr>sh_name = nm, sh_start = s, sh_end = e, sh_record_indices = ri\<rparr>)
   = shard_records (tk_shard t)"
  by (auto simp: task_ckpt_def shard_records_def split: option.splits list.splits)

lemma splitter_set_epoch_simps [simp]:
  "splitter_wf (splitter_set_epoch e sp) = splitter_wf sp"
  "splitter_epoch (splitter_set_epoch e sp) = e"
  "splitter_dataset_name (splitter_set_epoch e sp) = splitter_dataset_name sp"
  by (cases sp; simp add: table_wf_def table_huge_def table_shard_count_def text_wf_def)+

lemma dm_restore_fields:
  shows "dm_doing (dm_restore_checkpoint ck m) = []"
    and "dm_epoch (dm_restore_checkpoint ck m) = ck_epoch ck"
    and "dm_todo (dm_restore_checkpoint ck m) =
      number_tasks (dm_task_type m) (dm_task_id m)
        (map (\<lambda>(s, e, ri). \<lparr>sh_name = splitter_dataset_name (dm_splitter m), sh_start = s,
                            sh_end = e, sh_record_indices = ri\<rparr>) (ck_doing ck @ ck_todo ck))"
  by (simp_all add: dm_restore_checkpoint_def Let_def restore_tasks_eq dm_epoch_def)

lemma dm_restore_inv: "dm_inv m \<Longrightarrow> dm_inv (dm_restore_checkpoint ck m)"
  by (auto simp: dm_inv_def dm_restore_checkpoint_def Let_def restore_tasks_eq number_tasks_ids
      intro: number_tasks_ok)

section \<open>Properties of the static dataset\<close>

lemma dm_fresh:
  "dm_todo (new_batch_dataset_manager ty b sp) = []"
  "dm_doing (new_batch_dataset_manager ty b sp) = []"
  "dm_splitter (new_batch_dataset_manager ty b sp) = sp"
  by (simp_all add: new_batch_dataset_manager_def)

lemma table_complete_run:
  assumes "0 < shard_size" and "0 \<le> dataset_size" and "0 < max_count" and "0 < num_epochs"
    and "0 < batch_size"
    and s: "new_table_splitter name dataset_size shard_size num_epochs shuffle max_count = Inr s"
    and m: "m = new_batch_dataset_manager ty batch_size (TableSplitter s)"
    and c: "dm_completed (fold dm_step ops m)"
  shows "records_of (dm_ledger dm_completed_by ops m) + records_of (dm_ledger dm_dropped_by ops m) =
    repeat_mset (nat num_epochs) (mset [0..dataset_size - 1])"
proof -
  define n where "n = (if table_huge s then nat (ts_subepoch_num_per_epoch s) else 1)"
  from new_table_splitter_wf [OF assms(1-3), of name num_epochs shuffle] s
  have wf: "table_wf s" "dsp_epoch s = 0" "dsp_dataset_size s = dataset_size"
    "dsp_num_epochs s = num_epochs * (if table_huge s then ts_subepoch_num_per_epoch s else 1)"
    by auto
  then have e: "nat (dsp_num_epochs s) = nat num_epochs * n" "0 < dsp_num_epochs s"
    using table_huge_subepoch(1) [OF wf(1)] assms(4) by (auto simp: n_def nat_mult_distrib)
  have "records_of (dm_ledger dm_completed_by ops m) + records_of (dm_ledger dm_dropped_by ops m) =
    (\<Sum>i<nat num_epochs * n. table_epoch_records s (int i))"
    using dm_complete_run [OF _ _ _ _ _ c] wf e assms(5)
    by (simp add: m dm_fresh dm_inv_new dm_epoch_def)
  also have "\<dots> = repeat_mset (nat num_epochs) (mset [0..dataset_size - 1])"
    using table_passes_records [OF wf(1) n_def] wf(3) by simp
  finally show ?thesis .
qed

text \<open>
  C1. Exactly once per pass. A manager is created over a table splitter; whatever sequence of
  task requests and success or failure reports follows, with whatever shuffles, when the manager
  says it is completed the records of the completed tasks together with those of the tasks dropped
  after their last retry are every record of the dataset, once per configured pass, also for a
  dataset so large that its passes are cut into subepochs.
\<close>

theorem table_job_each_record_once_per_pass:
  assumes "0 < shard_size" and "0 \<le> dataset_size" and "0 < max_count" and "0 < num_epochs"
    and "0 < batch_size"
    and s: "new_table_splitter name dataset_size shard_size num_epochs shuffle max_count = Inr s"
    and m: "m = new_batch_dataset_manager ty batch_size (TableSplitter s)"
    and c: "dm_completed (fold dm_step ops m)"
  shows "records_of (dm_ledger dm_completed_by ops m) + records_of (dm_ledger dm_dropped_by ops m) =
    repeat_mset (nat num_epochs) (mset [0..dataset_size - 1])"
  using assms by (rule table_complete_run)

theorem table_job_each_record_once_per_pass_witness:
  "\<exists>s. new_table_splitter ''d'' 3 2 1 False 10 = Inr s \<and>
     (let m = new_batch_dataset_manager TT_TRAINING 1 (TableSplitter s);
          ops = [DmGet [] 1 NT_WORKER 0, DmGet [] 2 NT_WORKER 1, DmReport 3 0 False,
                 DmGet [] 4 NT_WORKER 1, DmReport 5 0 True, DmReport 6 1 True]
      in dm_completed (fold dm_step ops m) \<and>
         records_of (dm_ledger dm_completed_by ops m) + records_of (dm_ledger dm_dropped_by ops m) =
           repeat_mset 1 (mset [0..2]))"
proof -
  let ?ops = "[DmGet [] 1 NT_WORKER 0, DmGet [] 2 NT_WORKER 1, DmReport 3 0 False,
                 DmGet [] 4 NT_WORKER 1, DmReport 5 0 True, DmReport 6 1 True]"
  define s where "s = \<lparr>dsp_dataset_name = ''d'', dsp_epoch = 0, dsp_dataset_size = 3,
        dsp_shard_size = 2, dsp_num_epochs = 1, ts_shuffle = False, ts_max_shard_count = 10,
        ts_subepoch_num_per_epoch = 0, ts_shards = []\<rparr>"
  have s: "new_table_splitter ''d'' 3 2 1 False 10 = Inr s" unfolding s_def by code_simp
  have c: "dm_completed (fold dm_step ?ops (new_batch_dataset_manager TT_TRAINING 1 (TableSplitter s)))"
    unfolding s_def by code_simp
  show ?thesis
    using table_job_each_record_once_per_pass [OF _ _ _ _ _ s refl c] s c by (simp add: Let_def)
qed

text \<open>
  C6. No dead end. From every state that a run of requests and reports can reach from a fresh
  manager over a well-formed splitter with a positive number of passes, some continuation of the
  run completes the dataset.
\<close>

theorem static_job_can_finish:
  assumes "splitter_wf sp" and "0 < batch_size" and "0 < splitter_num_epochs sp"
  shows "\<exists>more. dm_completed
    (fold dm_step (ops @ more) (new_batch_dataset_manager ty batch_size sp))"
proof -
  let ?m = "new_batch_dataset_manager ty batch_size sp"
  have inv: "dm_inv ?m" using assms by (intro dm_inv_new)
  have "splitter_num_epochs (dm_splitter (fold dm_step ops ?m)) = splitter_num_epochs sp"
    using dm_run_created [OF inv, of ops] by (simp add: dm_fresh)
  then show ?thesis
    using dm_can_finish [OF dm_mach.run_inv [OF inv, of ops]] assms(3) by simp
qed

theorem static_job_can_finish_witness:
  "\<exists>more. dm_completed (fold dm_step ([DmGet [] 1 NT_WORKER 0, DmReport 3 0 False] @ more)
     (new_batch_dataset_manager TT_TRAINING 1 (TextSplitter (new_text_splitter ''d'' 7 2 2 True))))"
  by (rule static_job_can_finish) (simp_all add: new_text_splitter_def text_wf_def)

text \<open>
  C10. Checkpoint and restore. A manager that restores the checkpoint of another manager of the same
  dataset has, in its queue, exactly the shards that the other one had being done, then those it had
  to do, in that order and with the same records; nothing is being done, the epoch is the
  checkpointed one, ids start at the restoring manager's next id, and the invariant holds.
\<close>

theorem checkpoint_restore_round_trip:
  fixes m m' :: dataset_manager
  assumes "dm_inv m'"
  defines "r \<equiv> dm_restore_checkpoint (dm_checkpoint m) m'"
  shows "map (\<lambda>t. shard_records (tk_shard t)) (dm_todo r) =
      map (\<lambda>(i, dt). shard_records (tk_shard (dt_task dt))) (dm_doing m) @
      map (\<lambda>t. shard_records (tk_shard t)) (dm_todo m) \<and>
    map (\<lambda>t. (sh_start (tk_shard t), sh_end (tk_shard t))) (dm_todo r) =
      map (\<lambda>(i, dt). (sh_start (tk_shard (dt_task dt)), sh_end (tk_shard (dt_task dt)))) (dm_doing m) @
      map (\<lambda>t. (sh_start (tk_shard t), sh_end (tk_shard t))) (dm_todo m) \<and>
    dm_doing r = [] \<and> dm_epoch r = dm_epoch m \<and>
    map tk_id (dm_todo r) = [dm_task_id m'..dm_task_id r - 1] \<and> dm_inv r"
proof -
  define shs where "shs = map (\<lambda>(s, e, ri). \<lparr>sh_name = splitter_dataset_name (dm_splitter m'),
      sh_start = s, sh_end = e, sh_record_indices = ri\<rparr>)
      (ck_doing (dm_checkpoint m) @ ck_todo (dm_checkpoint m))"
  have todo: "dm_todo r = number_tasks (dm_task_type m') (dm_task_id m') shs"
    unfolding r_def shs_def by (rule dm_restore_fields)
  have ids: "dm_task_id r = dm_task_id m' + int (length shs)"
    by (simp add: r_def dm_restore_checkpoint_def Let_def restore_tasks_eq shs_def)
  have m: "map (f \<circ> tk_shard) (dm_todo r) = map f shs" for f :: "string shard \<Rightarrow> 'z"
    unfolding todo by (metis map_map number_tasks_shards)
  have recs: "map shard_records shs =
      map (\<lambda>(i, dt). shard_records (tk_shard (dt_task dt))) (dm_doing m) @
      map (\<lambda>t. shard_records (tk_shard t)) (dm_todo m)"
    by (simp add: shs_def dm_checkpoint_def o_def split_def task_ckpt_records [unfolded split_def])
  have rng: "map (\<lambda>sh. (sh_start sh, sh_end sh)) shs =
      map (\<lambda>(i, dt). (sh_start (tk_shard (dt_task dt)), sh_end (tk_shard (dt_task dt)))) (dm_doing m) @
      map (\<lambda>t. (sh_start (tk_shard t), sh_end (tk_shard t))) (dm_todo m)"
    by (simp add: shs_def dm_checkpoint_def o_def split_def task_ckpt_def)
  have "map tk_id (dm_todo r) = [dm_task_id m'..dm_task_id r - 1]"
    unfolding todo ids by (rule number_tasks_ids)
  moreover have "dm_doing r = []" "dm_epoch r = dm_epoch m" "dm_inv r"
    using dm_restore_inv [OF assms(1)]
    by (simp_all add: r_def dm_restore_fields) (simp add: dm_checkpoint_def dm_epoch_def)
  ultimately show ?thesis
    using m [of shard_records] m [of "\<lambda>sh. (sh_start sh, sh_end sh)"] recs rng by (simp add: o_def)
qed

theorem checkpoint_restore_round_trip_witness:
  "let m' = new_batch_dataset_manager TT_TRAINING 2
              (TextSplitter (new_text_splitter ''d'' 3 2 2 True));
       m = fold dm_step [DmGet [2, 0, 1] 1 NT_WORKER 0] m';
       r = dm_restore_checkpoint (dm_checkpoint m) m'
   in dm_inv m' \<and>
      map (\<lambda>t. shard_records (tk_shard t)) (dm_todo r) = [[2, 0], [1]] \<and> dm_inv r"
proof -
  let ?m' = "new_batch_dataset_manager TT_TRAINING 2 (TextSplitter (new_text_splitter ''d'' 3 2 2 True))"
  let ?m = "fold dm_step [DmGet [2, 0, 1] 1 NT_WORKER 0] ?m'"
  have inv: "dm_inv ?m'" by (rule dm_inv_new) (simp_all add: new_text_splitter_def text_wf_def)
  have "map (\<lambda>(i, dt). shard_records (tk_shard (dt_task dt))) (dm_doing ?m) = [[2, 0]]"
    and "map (\<lambda>t. shard_records (tk_shard t)) (dm_todo ?m) = [[1]]"
    by code_simp+
  with checkpoint_restore_round_trip [OF inv, of ?m] inv show ?thesis by (simp add: Let_def)
qed

text \<open>
  C25. Task identity. In every reachable state of a manager over a well-formed splitter, no two tasks
  that are to do or being done share an id, every id was given out already, a task being done is
  filed under its own id, and no queued task has been retried more than three times.
\<close>

theorem task_ids_unique:
  fixes ops :: "dm_op list" and ty :: task_type
  assumes "splitter_wf sp" and "0 < batch_size"
  defines "m \<equiv> fold dm_step ops (new_batch_dataset_manager ty batch_size sp)"
  shows "distinct (map tk_id (dm_todo m) @ map fst (dm_doing m)) \<and>
    (\<forall>t\<in>set (dm_todo m). 0 \<le> tk_id t \<and> tk_id t < dm_task_id m \<and> tk_retry_count t \<le> 3) \<and>
    (\<forall>(i, dt)\<in>set (dm_doing m). tk_id (dt_task dt) = i \<and> i < dm_task_id m)"
  using dm_mach.run_inv [OF dm_inv_new [OF assms(1,2)], of ops ty]
  by (auto simp: m_def dm_inv_def task_ok_def MAX_TASK_RETRIES_def)

theorem task_ids_unique_witness:
  "let sp = TextSplitter (new_text_splitter ''d'' 3 2 2 False);
       m = fold dm_step [DmGet [] 1 NT_WORKER 0, DmReport 2 0 False]
             (new_batch_dataset_manager TT_TRAINING 2 sp)
   in splitter_wf sp \<and> dm_todo m \<noteq> [] \<and> distinct (map tk_id (dm_todo m) @ map fst (dm_doing m))"
proof -
  let ?sp = "TextSplitter (new_text_splitter ''d'' 3 2 2 False)"
  have wf: "splitter_wf ?sp" by (simp add: new_text_splitter_def text_wf_def)
  have ne: "dm_todo (fold dm_step [DmGet [] 1 NT_WORKER 0, DmReport 2 0 False]
             (new_batch_dataset_manager TT_TRAINING 2 ?sp)) \<noteq> []"
    by code_simp
  show ?thesis
    using task_ids_unique [OF wf, of 2 "[DmGet [] 1 NT_WORKER 0, DmReport 2 0 False]" TT_TRAINING]
      wf ne by (simp add: Let_def)
qed

end
