(* ===== verification/Streaming_Dataset.thy ===== *)
theory Streaming_Dataset
  imports Dataset_Manager
begin

text \<open>
  Datasets read from a message queue: \<open>PartitionOffsets\<close> and \<open>StreamingDatasetSplitter\<close> of
  \<open>dataset_splitter.py\<close> and \<open>StreamingDatasetManager\<close> of \<open>streaming_dataset_manager.py\<close>. A partition
  is named by whatever the caller uses as a key, an integer or a string (\<^typ>\<open>pykey\<close>); the same type
  serves for task ids, because a restored task gets the dataset's name as its id.
\<close>

section \<open>Partition offsets\<close>

record partition_offsets =
  po_offsets :: "(pykey, int) dict"
  po_start_partition :: int
  po_partitions :: "pykey list"
  po_partition_num :: int
  po_partition_name_index :: "(pykey, pykey) dict"

definition update_partitions :: "partition_offsets \<Rightarrow> partition_offsets" where
  "update_partitions po =
     (let ps = map fst (po_offsets po)
      in po\<lparr>po_partitions := ps, po_partition_num := int (length ps),
            po_partition_name_index := zip (map (KInt \<circ> int) [0..<length ps]) ps\<rparr>)"

definition new_partition_offsets :: "(pykey, int) dict \<Rightarrow> partition_offsets" where
  "new_partition_offsets offs =
     update_partitions
       \<lparr>po_offsets = offs, po_start_partition = 0, po_partitions = [], po_partition_num = 0,
        po_partition_name_index = []\<rparr>"

definition get_partition_index_by_name :: "partition_offsets \<Rightarrow> pykey \<Rightarrow> pykey option" where
  "get_partition_index_by_name po nm = map_of (po_partition_name_index po) nm"

definition get_round_robin_partition :: "partition_offsets \<Rightarrow> (partition_offsets, pykey) py_run" where
  "get_round_robin_partition po =
     (if po_partition_num po = 0 then (Inl ZeroDivisionError, po)
      else case py_index (po_partitions po) (po_start_partition po mod po_partition_num po) of
             Inl e \<Rightarrow> (Inl e, po)
           | Inr p \<Rightarrow> (Inr p, po\<lparr>po_start_partition := po_start_partition po + 1\<rparr>))"

definition get_partition_offset :: "partition_offsets \<Rightarrow> pykey \<Rightarrow> int option" where
  "get_partition_offset po p = map_of (po_offsets po) p"

definition set_partition_offset :: "pykey \<Rightarrow> int \<Rightarrow> partition_offsets \<Rightarrow> partition_offsets" where
  "set_partition_offset p off po = po\<lparr>po_offsets := AList.update p off (po_offsets po)\<rparr>"

section \<open>The streaming splitter\<close>

text \<open>
  \<open>to_checkpoint\<close> returns the splitter's own \<open>__dict__\<close> after replacing the attribute
  \<open>_partition_offset\<close> in it by a plain dict, and \<open>from_checkpoint\<close> pops the attribute from the dict it
  is given. So the attribute is an object, a plain dict, or gone.
\<close>

datatype po_attr = PoObject partition_offsets | PoDict "(pykey, int) dict" | PoGone

record streaming_splitter =
  st_dataset_name :: string
  st_epoch :: int
  st_dataset_size :: int
  st_shard_size :: int
  st_num_epochs :: int
  st_partition_offset :: po_attr
  st_shuffle :: bool
  st_max_shard_count :: "int option"
  st_fetch_data_size :: int
  st_shards :: "pykey shard list"

definition new_streaming_splitter ::
    "string \<Rightarrow> int \<Rightarrow> partition_offsets \<Rightarrow> int \<Rightarrow> int \<Rightarrow> bool \<Rightarrow> int option \<Rightarrow> int \<Rightarrow> streaming_splitter"
where
  "new_streaming_splitter name shard_size po num_epochs dataset_size shuffle max_count fetch =
     \<lparr>st_dataset_name = name, st_epoch = 0, st_dataset_size = dataset_size,
      st_shard_size = shard_size, st_num_epochs = num_epochs, st_partition_offset = PoObject po,
      st_shuffle = shuffle, st_max_shard_count = max_count, st_fetch_data_size = fetch,
      st_shards = []\<rparr>"

definition st_epoch_finished :: "streaming_splitter \<Rightarrow> bool" where
  "st_epoch_finished s \<longleftrightarrow> st_dataset_size s = 0"

definition st_get_epoch :: "streaming_splitter \<Rightarrow> int" where
  "st_get_epoch s = 1"

definition st_to_checkpoint :: "streaming_splitter \<Rightarrow> (streaming_splitter, streaming_splitter) py_run" where
  "st_to_checkpoint s =
     (case st_partition_offset s of
        PoObject po \<Rightarrow>
          let s' = s\<lparr>st_partition_offset := PoDict (po_offsets po)\<rparr> in (Inr s', s')
      | _ \<Rightarrow> (Inl AttributeError, s))"

text \<open>
  \<open>from_checkpoint\<close> works on the checkpoint dict; what is left of that dict is the second component.
\<close>

definition st_from_checkpoint :: "streaming_splitter \<Rightarrow> (streaming_splitter, streaming_splitter) py_run" where
  "st_from_checkpoint ck =
     (case st_partition_offset ck of
        PoGone \<Rightarrow> (Inl KeyError, ck)
      | PoObject _ \<Rightarrow> (Inl AttributeError, ck\<lparr>st_partition_offset := PoGone\<rparr>)
      | PoDict d \<Rightarrow>
          (Inr (new_streaming_splitter (st_dataset_name ck) (st_shard_size ck) (new_partition_offsets d)
                  (st_num_epochs ck) (st_dataset_size ck) (st_shuffle ck) (st_max_shard_count ck)
                  (st_fetch_data_size ck)),
           ck\<lparr>st_partition_offset := PoGone\<rparr>))"

text \<open>One round of the loop of \<open>_create_shards_with_range\<close>, and the loop.\<close>

definition stream_round :: "partition_offsets \<Rightarrow> streaming_splitter \<Rightarrow>
    (partition_offsets \<times> streaming_splitter, unit) py_run" where
  "stream_round po s =
     (case get_round_robin_partition po of
        (Inl e, po1) \<Rightarrow> (Inl e, (po1, s))
      | (Inr p, po1) \<Rightarrow>
          (case get_partition_offset po1 p of
             None \<Rightarrow> (Inl TypeError, (po1, s))
           | Some start \<Rightarrow>
               let end' = start + st_shard_size s;
                   s1 = s\<lparr>st_shards := st_shards s @ [new_shard p start end']\<rparr>;
                   s2 = (if st_dataset_size s1 \<noteq> - 1
                         then s1\<lparr>st_dataset_size := st_dataset_size s1 - st_shard_size s1\<rparr> else s1)
               in (Inr (), (set_partition_offset p end' po1, s2))))"

fun stream_loop :: "nat \<Rightarrow> partition_offsets \<Rightarrow> streaming_splitter \<Rightarrow>
    (partition_offsets \<times> streaming_splitter, unit) py_run" where
  "stream_loop 0 po s = (Inr (), (po, s))"
| "stream_loop (Suc n) po s =
     (case stream_round po s of
        (Inl e, r) \<Rightarrow> (Inl e, r)
      | (Inr _, (po1, s1)) \<Rightarrow> stream_loop n po1 s1)"

definition st_create_shards_with_range :: "streaming_splitter \<Rightarrow> (streaming_splitter, unit) py_run" where
  "st_create_shards_with_range s =
     (if st_partition_offset s = PoGone then (Inl AttributeError, s)
      else if st_shard_size s = 0 then (Inl ZeroDivisionError, s)
      else
        let total = (if st_dataset_size s = - 1 then st_fetch_data_size s else st_dataset_size s);
            shard_count = trunc_div total (st_shard_size s)
        in case st_partition_offset s of
             PoObject po \<Rightarrow>
               (case stream_loop (nat shard_count) po s of
                  (r, (po1, s1)) \<Rightarrow> (r, s1\<lparr>st_partition_offset := PoObject po1\<rparr>))
           | _ \<Rightarrow> (Inl AttributeError, s))"

definition st_create_shards :: "streaming_splitter \<Rightarrow> (streaming_splitter, pykey shard list) py_run" where
  "st_create_shards s =
     (case st_create_shards_with_range s of
        (Inl e, s1) \<Rightarrow> (Inl e, s1)
      | (Inr _, s1) \<Rightarrow> (Inr (st_shards s1), s1))"

section \<open>The streaming dataset manager\<close>

record streaming_manager =
  sm_todo :: "(pykey, pykey) task list"
  sm_doing :: "(pykey, (pykey, pykey) doing_task) dict"
  sm_task_type :: task_type
  sm_batch_size :: int
  sm_splitter :: streaming_splitter
  sm_max_task_completed_time :: rat
  sm_task_id :: int
  sm_completed_step :: int

definition new_streaming_manager :: "task_type \<Rightarrow> int \<Rightarrow> streaming_splitter \<Rightarrow> streaming_manager" where
  "new_streaming_manager ty batch_size sp =
     \<lparr>sm_todo = [], sm_doing = [], sm_task_type = ty, sm_batch_size = batch_size, sm_splitter = sp,
      sm_max_task_completed_time = 0, sm_task_id = 0, sm_completed_step = 0\<rparr>"

fun sm_number_tasks :: "task_type \<Rightarrow> int \<Rightarrow> pykey shard list \<Rightarrow> (pykey, pykey) task list" where
  "sm_number_tasks ty i [] = []"
| "sm_number_tasks ty i (sh # shs) = new_task (KInt i) ty sh # sm_number_tasks ty (i + 1) shs"

definition sm_create_todo_tasks :: "pykey shard list \<Rightarrow> streaming_manager \<Rightarrow> streaming_manager" where
  "sm_create_todo_tasks shards m =
     m\<lparr>sm_todo := sm_todo m @ sm_number_tasks (sm_task_type m) (sm_task_id m) shards,
       sm_task_id := sm_task_id m + int (length shards)\<rparr>"

text \<open>The scan of \<open>get_task_from_todo\<close>: the first task whose looked-up partition is the worker's.\<close>

fun scan_todo ::
    "partition_offsets \<Rightarrow> int \<Rightarrow> (pykey, pykey) task list
     \<Rightarrow> ((pykey, pykey) task \<times> (pykey, pykey) task list) option" where
  "scan_todo po j [] = None"
| "scan_todo po j (t # ts) =
     (if get_partition_index_by_name po (sh_name (tk_shard t)) = Some (KInt j) then Some (t, ts)
      else map_option (\<lambda>(u, rest). (u, t # rest)) (scan_todo po j ts))"

definition get_task_from_todo ::
    "int \<Rightarrow> streaming_manager \<Rightarrow> (streaming_manager, (pykey, pykey) task option) py_run" where
  "get_task_from_todo worker_id m =
     (case st_partition_offset (sm_splitter m) of
        PoObject po \<Rightarrow>
          if sm_todo m = [] then (Inr None, m)
          else if po_partition_num po = 0 then (Inl ZeroDivisionError, m)
          else (case scan_todo po (worker_id mod po_partition_num po) (sm_todo m) of
                  None \<Rightarrow> (Inr None, m)
                | Some (t, rest) \<Rightarrow> (Inr (Some t), m\<lparr>sm_todo := rest\<rparr>))
      | _ \<Rightarrow> (Inl AttributeError, m))"

definition sm_start_epoch :: "streaming_manager \<Rightarrow> (streaming_manager, unit) py_run" where
  "sm_start_epoch m =
     (if sm_todo m = [] \<and> \<not> st_epoch_finished (sm_splitter m)
      then case st_create_shards (sm_splitter m) of
             (Inl e, sp) \<Rightarrow> (Inl e, m\<lparr>sm_splitter := sp\<rparr>)
           | (Inr _, sp) \<Rightarrow> (Inr (), sm_create_todo_tasks (st_shards sp) (m\<lparr>sm_splitter := sp\<rparr>))
      else (Inr (), m))"

definition sm_invalid_task :: "(pykey, pykey) task" where
  "sm_invalid_task = new_task (KInt (-1)) TT_NONE (new_shard (KStr '''') (-1) (-1))"

definition sm_get_task ::
    "rat \<Rightarrow> node_type \<Rightarrow> int \<Rightarrow> streaming_manager \<Rightarrow> (streaming_manager, (pykey, pykey) task) py_run" where
  "sm_get_task now nt nid m =
     (case sm_start_epoch m of
        (Inl e, m1) \<Rightarrow> (Inl e, m1)
      | (Inr _, m1) \<Rightarrow>
          if sm_todo m1 = [] then (Inr sm_invalid_task, m1)
          else (case get_task_from_todo nid m1 of
                  (Inl e, m2) \<Rightarrow> (Inl e, m2)
                | (Inr None, m2) \<Rightarrow> (Inl AttributeError, m2)
                | (Inr (Some t), m2) \<Rightarrow>
                    (Inr t, m2\<lparr>sm_doing := AList.update (tk_id t)
                       \<lparr>dt_task = t, dt_node_type = nt, dt_node_id = nid,
                        dt_start_time = py_int now\<rparr> (sm_doing m2)\<rparr>)))"

definition sm_get_epoch :: "streaming_manager \<Rightarrow> int" where
  "sm_get_epoch m = st_get_epoch (sm_splitter m)"

definition sm_completed :: "streaming_manager \<Rightarrow> bool" where
  "sm_completed m \<longleftrightarrow> st_epoch_finished (sm_splitter m) \<and> sm_todo m = [] \<and> sm_doing m = []"

definition sm_update_completed_step ::
    "(pykey, pykey) task \<Rightarrow> streaming_manager \<Rightarrow> (streaming_manager, unit) py_run" where
  "sm_update_completed_step task m =
     (if sm_batch_size m = 0 then (Inl ZeroDivisionError, m)
      else (Inr (), m\<lparr>sm_completed_step := sm_completed_step m +
              ceil_div (sh_end (tk_shard task) - sh_start (tk_shard task)) (sm_batch_size m)\<rparr>))"

definition sm_recover_task ::
    "(pykey, pykey) task \<Rightarrow> streaming_manager \<Rightarrow> (pykey, pykey) task \<times> streaming_manager" where
  "sm_recover_task task m =
     (case check_exceed_max_task_retries task of
        (exceeded, task') \<Rightarrow>
          (task', if exceeded then m else m\<lparr>sm_todo := sm_todo m @ [task']\<rparr>))"

definition sm_report_task_status ::
    "rat \<Rightarrow> pykey \<Rightarrow> bool \<Rightarrow> streaming_manager
     \<Rightarrow> (streaming_manager, bool \<times> (pykey, pykey) doing_task) py_run" where
  "sm_report_task_status now task_id success m =
     (case map_of (sm_doing m) task_id of
        None \<Rightarrow> (Inl KeyError, m)
      | Some dt \<Rightarrow>
          let m1 = m\<lparr>sm_doing := AList.delete task_id (sm_doing m)\<rparr>
          in if \<not> success
             then case sm_recover_task (dt_task dt) m1 of
                    (task', m2) \<Rightarrow> (Inr (False, dt\<lparr>dt_task := task'\<rparr>), m2)
             else case sm_update_completed_step (dt_task dt) m1 of
                    (Inl e, m2) \<Rightarrow> (Inl e, m2)
                  | (Inr _, m2) \<Rightarrow>
                      let spent = now - of_int (dt_start_time dt)
                      in (Inr (True, dt),
                          if spent > sm_max_task_completed_time m2
                          then m2\<lparr>sm_max_task_completed_time := spent\<rparr> else m2))"

record stream_checkpoint = shard_checkpoint +
  ck_splitter :: streaming_splitter

definition range_ckpt :: "('i, 'n) task \<Rightarrow> ckpt_shard" where
  "range_ckpt t = (sh_start (tk_shard t), sh_end (tk_shard t), None)"

definition sm_checkpoint :: "streaming_manager \<Rightarrow> (streaming_manager, stream_checkpoint) py_run" where
  "sm_checkpoint m =
     (case st_to_checkpoint (sm_splitter m) of
        (Inl e, sp) \<Rightarrow> (Inl e, m\<lparr>sm_splitter := sp\<rparr>)
      | (Inr ck, sp) \<Rightarrow>
          (Inr \<lparr>ck_dataset_name = st_dataset_name sp, ck_todo = map range_ckpt (sm_todo m),
                ck_doing = map (\<lambda>(i, dt). range_ckpt (dt_task dt)) (sm_doing m),
                ck_epoch = st_epoch sp, ck_splitter = ck\<rparr>,
           m\<lparr>sm_splitter := sp\<rparr>))"

definition sm_restored_task :: "string \<Rightarrow> task_type \<Rightarrow> ckpt_shard \<Rightarrow> (pykey, pykey) task" where
  "sm_restored_task nm ty ck = (case ck of (s, e, _) \<Rightarrow> new_task (KStr nm) ty (new_shard (KStr nm) s e))"

definition sm_restore_checkpoint :: "stream_checkpoint \<Rightarrow> streaming_manager \<Rightarrow> (streaming_manager, unit) py_run"
where
  "sm_restore_checkpoint ck m =
     (case fst (st_from_checkpoint (ck_splitter ck)) of
        Inl e \<Rightarrow> (Inl e, m)
      | Inr sp \<Rightarrow>
          (Inr (), m\<lparr>sm_splitter := sp,
                     sm_todo := map (sm_restored_task (st_dataset_name sp) (sm_task_type m))
                                  (ck_doing ck @ ck_todo ck)\<rparr>))"

section \<open>What one call creates\<close>

definition po_wf :: "partition_offsets \<Rightarrow> bool" where
  "po_wf po \<longleftrightarrow> po_partitions po = map fst (po_offsets po) \<and> po_partitions po \<noteq> [] \<and>
     distinct (po_partitions po) \<and> po_partition_num po = int (length (po_partitions po))"

lemma new_partition_offsets_wf: "wf_dict offs \<Longrightarrow> offs \<noteq> [] \<Longrightarrow> po_wf (new_partition_offsets offs)"
  by (simp add: po_wf_def new_partition_offsets_def update_partitions_def Let_def wf_dict_def)

definition next_partition :: "partition_offsets \<Rightarrow> pykey" where
  "next_partition po = po_partitions po ! nat (po_start_partition po mod po_partition_num po)"

definition offset_of :: "partition_offsets \<Rightarrow> pykey \<Rightarrow> int" where
  "offset_of po p = the (map_of (po_offsets po) p)"

text \<open>The state after one round.\<close>

definition after_round :: "partition_offsets \<Rightarrow> int \<Rightarrow> partition_offsets" where
  "after_round po sz =
     set_partition_offset (next_partition po) (offset_of po (next_partition po) + sz)
       (po\<lparr>po_start_partition := po_start_partition po + 1\<rparr>)"

lemma next_partition_mem: "po_wf po \<Longrightarrow> next_partition po \<in> set (po_partitions po)"
  unfolding next_partition_def po_wf_def by (intro nth_mem) (auto simp: nat_less_iff)

lemma po_wf_after_round:
  assumes "po_wf po"
  shows "po_wf (after_round po sz)" and "po_partitions (after_round po sz) = po_partitions po"
    and "offset_of (after_round po sz) p =
         (if p = next_partition po then offset_of po p + sz else offset_of po p)"
proof -
  have "next_partition po \<in> set (map fst (po_offsets po))"
    using next_partition_mem [OF assms] assms by (simp add: po_wf_def)
  then have "map fst (AList.update (next_partition po) v (po_offsets po)) = map fst (po_offsets po)" for v
    by (simp add: update_keys)
  then show "po_wf (after_round po sz)" "po_partitions (after_round po sz) = po_partitions po"
    using assms by (auto simp: po_wf_def after_round_def set_partition_offset_def)
  show "offset_of (after_round po sz) p =
         (if p = next_partition po then offset_of po p + sz else offset_of po p)"
    by (simp add: offset_of_def after_round_def set_partition_offset_def update_conv')
qed

definition take_size :: "int \<Rightarrow> streaming_splitter \<Rightarrow> streaming_splitter" where
  "take_size k s =
     (if st_dataset_size s = - 1 then s
      else s\<lparr>st_dataset_size := st_dataset_size s - k * st_shard_size s\<rparr>)"

lemma stream_round_eq:
  assumes "po_wf po"
  shows "stream_round po s =
    (Inr (), (after_round po (st_shard_size s),
      take_size 1 (s\<lparr>st_shards := st_shards s @ [new_shard (next_partition po)
        (offset_of po (next_partition po)) (offset_of po (next_partition po) + st_shard_size s)]\<rparr>)))"
proof -
  have n: "0 < po_partition_num po" using assms by (auto simp: po_wf_def)
  then have "po_start_partition po mod po_partition_num po < int (length (po_partitions po))"
    "\<not> po_start_partition po mod po_partition_num po < 0"
    using assms by (simp_all add: po_wf_def not_less)
  then have rr: "get_round_robin_partition po =
      (Inr (next_partition po), po\<lparr>po_start_partition := po_start_partition po + 1\<rparr>)"
    using n by (simp add: get_round_robin_partition_def py_index_def next_partition_def)
  have "next_partition po \<in> dom (map_of (po_offsets po))"
    using next_partition_mem [OF assms] assms by (simp add: po_wf_def dom_map_of_conv_image_fst)
  then have "map_of (po_offsets po) (next_partition po) = Some (offset_of po (next_partition po))"
    by (auto simp: offset_of_def)
  with rr show ?thesis
    by (simp add: stream_round_def get_partition_offset_def after_round_def take_size_def Let_def)
qed

text \<open>
  What a call of \<open>n\<close> rounds adds: shards named round robin, each one shard size wide, those of a
  partition following one another from its old offset to its new one.
\<close>

definition fresh_shards :: "partition_offsets \<Rightarrow> partition_offsets \<Rightarrow> int \<Rightarrow> pykey shard list \<Rightarrow> bool" where
  "fresh_shards po po1 sz new \<longleftrightarrow>
     map sh_name new =
       map (\<lambda>i. po_partitions po ! nat ((po_start_partition po + int i) mod po_partition_num po))
         [0..<length new] \<and>
     (\<forall>sh\<in>set new. sh_end sh = sh_start sh + sz) \<and>
     (\<forall>p. offset_of po p \<le> offset_of po1 p \<and>
          concat (map shard_records (filter (\<lambda>sh. sh_name sh = p) new)) =
            [offset_of po p..offset_of po1 p - 1])"

lemma fresh_shards_Cons:
  assumes po: "po_wf po" and sz: "0 < sz" and f: "fresh_shards (after_round po sz) po1 sz new"
  shows "fresh_shards po po1 sz (new_shard (next_partition po) (offset_of po (next_partition po))
           (offset_of po (next_partition po) + sz) # new)"
proof -
  let ?q = "next_partition po" and ?po' = "after_round po sz"
  note w = po_wf_after_round [OF po, of sz]
  have s: "po_start_partition ?po' = po_start_partition po + 1"
    "po_partition_num ?po' = po_partition_num po"
    by (simp_all add: after_round_def set_partition_offset_def)
  have names: "map sh_name new =
      map (\<lambda>i. po_partitions po ! nat ((po_start_partition po + 1 + int i) mod po_partition_num po))
        [0..<length new]"
    using f s w(2) by (simp add: fresh_shards_def)
  have range: "offset_of po p \<le> offset_of po1 p \<and>
      concat (map shard_records (filter (\<lambda>sh. sh_name sh = p)
        (new_shard ?q (offset_of po ?q) (offset_of po ?q + sz) # new))) =
      [offset_of po p..offset_of po1 p - 1]" for p
  proof (cases "p = ?q")
    case True
    have "offset_of po p + sz \<le> offset_of po1 p"
      and "concat (map shard_records (filter (\<lambda>sh. sh_name sh = p) new)) =
           [offset_of po p + sz..offset_of po1 p - 1]"
      using f True w(3) [of p] unfolding fresh_shards_def by metis+
    with True sz upto_split [of "offset_of po p" "offset_of po p + sz" "offset_of po1 p"] show ?thesis
      by (simp add: new_shard_def shard_records_def)
  next
    case False
    then have "offset_of po p \<le> offset_of po1 p"
      "concat (map shard_records (filter (\<lambda>sh. sh_name sh = p) new)) =
         [offset_of po p..offset_of po1 p - 1]"
      using f w(3) [of p] unfolding fresh_shards_def by metis+
    with False show ?thesis by (simp add: new_shard_def)
  qed
  let ?nm = "\<lambda>i. po_partitions po ! nat ((po_start_partition po + int i) mod po_partition_num po)"
  have "[0..<Suc (length new)] = 0 # map Suc [0..<length new]"
    by (metis map_Suc_upt upt_conv_Cons zero_less_Suc)
  then have "map ?nm [0..<Suc (length new)] = ?q # map (\<lambda>i. ?nm (Suc i)) [0..<length new]"
    by (simp add: next_partition_def del: upt_Suc)
  also have "map (\<lambda>i. ?nm (Suc i)) [0..<length new] = map sh_name new"
    unfolding names by (simp add: add.assoc)
  finally have "map sh_name (new_shard ?q (offset_of po ?q) (offset_of po ?q + sz) # new) =
      map ?nm [0..<length (new_shard ?q (offset_of po ?q) (offset_of po ?q + sz) # new)]"
    by (simp add: new_shard_def del: upt_Suc)
  moreover have "\<forall>sh\<in>set (new_shard ?q (offset_of po ?q) (offset_of po ?q + sz) # new).
      sh_end sh = sh_start sh + sz"
    using f by (simp add: fresh_shards_def new_shard_def)
  ultimately show ?thesis unfolding fresh_shards_def using range by blast
qed

lemma stream_loop_fresh:
  assumes "po_wf po" and "0 < st_shard_size s"
    and "st_dataset_size s = - 1 \<or> int n * st_shard_size s \<le> st_dataset_size s"
  shows "\<exists>po1 new. stream_loop n po s =
      (Inr (), (po1, take_size (int n) (s\<lparr>st_shards := st_shards s @ new\<rparr>))) \<and>
    po_wf po1 \<and> length new = n \<and> fresh_shards po po1 (st_shard_size s) new"
  using assms
proof (induction n arbitrary: po s)
  case 0
  then show ?case by (intro exI [of _ po] exI [of _ "[]"]) (simp add: take_size_def fresh_shards_def)
next
  case (Suc n)
  let ?sz = "st_shard_size s" and ?q = "next_partition po"
  let ?sh = "new_shard ?q (offset_of po ?q) (offset_of po ?q + ?sz)"
  let ?s1 = "take_size 1 (s\<lparr>st_shards := st_shards s @ [?sh]\<rparr>)"
  have s1: "st_shard_size ?s1 = ?sz" by (simp add: take_size_def)
  have "st_dataset_size ?s1 = - 1 \<or> int n * ?sz \<le> st_dataset_size ?s1"
    using Suc.prems(3) by (auto simp: take_size_def algebra_simps)
  then obtain po1 new where
    l: "stream_loop n (after_round po ?sz) ?s1 =
      (Inr (), (po1, take_size (int n) (?s1\<lparr>st_shards := st_shards ?s1 @ new\<rparr>)))"
    and w: "po_wf po1" "length new = n" "fresh_shards (after_round po ?sz) po1 ?sz new"
    using Suc.IH [of "after_round po ?sz" ?s1] Suc.prems(2) po_wf_after_round(1) [OF Suc.prems(1)] s1
    by auto
  have "0 \<le> int n * ?sz" using Suc.prems(2) by simp
  then have "st_dataset_size s = - 1 \<or> st_dataset_size s - ?sz \<noteq> - 1"
    using Suc.prems(3) by (auto simp: algebra_simps)
  then have "take_size (int n) (?s1\<lparr>st_shards := st_shards ?s1 @ new\<rparr>) =
      take_size (int (Suc n)) (s\<lparr>st_shards := st_shards s @ ?sh # new\<rparr>)"
    by (auto simp: take_size_def algebra_simps)
  with l w fresh_shards_Cons [OF Suc.prems(1,2) w(3)] stream_round_eq [OF Suc.prems(1), of s] show ?case
    by (intro exI [of _ po1] exI [of _ "?sh # new"]) simp
qed

lemma st_create_shards_eq:
  assumes "po_wf po" and "0 < st_shard_size s" and "st_partition_offset s = PoObject po"
    and "st_dataset_size s = - 1 \<or> 0 \<le> st_dataset_size s"
    and n: "n = nat ((if st_dataset_size s = - 1 then st_fetch_data_size s else st_dataset_size s)
                      div st_shard_size s)"
    and "0 \<le> st_fetch_data_size s"
  shows "\<exists>po1 new. st_create_shards s = (Inr (st_shards s @ new),
      take_size (int n) (s\<lparr>st_shards := st_shards s @ new, st_partition_offset := PoObject po1\<rparr>)) \<and>
    po_wf po1 \<and> length new = n \<and> fresh_shards po po1 (st_shard_size s) new"
proof -
  have t: "nat (trunc_div (if st_dataset_size s = - 1 then st_fetch_data_size s else st_dataset_size s)
      (st_shard_size s)) = n"
    using assms(2,4,6) unfolding n by (auto simp: trunc_div_nonneg)
  have "st_dataset_size s \<noteq> - 1 \<Longrightarrow> int n = st_dataset_size s div st_shard_size s"
    using n assms(2,4) by (simp add: pos_imp_zdiv_nonneg_iff)
  then have "st_dataset_size s = - 1 \<or> int n * st_shard_size s \<le> st_dataset_size s"
    using pos_mod_sign [OF assms(2), of "st_dataset_size s"]
    by (cases "st_dataset_size s = - 1") (simp_all flip: minus_mod_eq_div_mult)
  from stream_loop_fresh [OF assms(1,2) this] obtain po1 new where
    l: "stream_loop n po s = (Inr (), (po1, take_size (int n) (s\<lparr>st_shards := st_shards s @ new\<rparr>)))"
    and w: "po_wf po1" "length new = n" "fresh_shards po po1 (st_shard_size s) new"
    by blast
  have "(take_size (int n) (s\<lparr>st_shards := st_shards s @ new\<rparr>))\<lparr>st_partition_offset := PoObject po1\<rparr> =
      take_size (int n) (s\<lparr>st_shards := st_shards s @ new, st_partition_offset := PoObject po1\<rparr>)"
    by (simp add: take_size_def)
  moreover have "st_shards (take_size k x) = st_shards x" for k x by (simp add: take_size_def)
  ultimately have "st_create_shards s = (Inr (st_shards s @ new),
      take_size (int n) (s\<lparr>st_shards := st_shards s @ new, st_partition_offset := PoObject po1\<rparr>))"
    using l assms(2,3) t by (simp add: st_create_shards_def st_create_shards_with_range_def)
  with w show ?thesis by blast
qed

section \<open>Properties of the streaming dataset\<close>

text \<open>
  A first call on a stream. A new splitter over non-empty partition offsets creates
  \<open>dataset_size div shard_size\<close> shards (of the fetch size when the dataset is unbounded), dealt to the
  partitions round robin, each one shard size wide, and those of every partition cover, without gap
  or overlap, exactly the records from its old offset to its new one.
\<close>

theorem streaming_first_call_tiles:
  assumes "wf_dict offs" and "offs \<noteq> []" and "0 < shard_size" and "0 \<le> fetch"
    and "dataset_size = - 1 \<or> 0 \<le> dataset_size"
  shows "\<exists>shards s po. st_create_shards
        (new_streaming_splitter nm shard_size (new_partition_offsets offs) e dataset_size shuffle mx fetch)
        = (Inr shards, s) \<and>
      st_partition_offset s = PoObject po \<and>
      length shards = nat ((if dataset_size = - 1 then fetch else dataset_size) div shard_size) \<and>
      fresh_shards (new_partition_offsets offs) po shard_size shards \<and>
      st_dataset_size s = (if dataset_size = - 1 then - 1 else dataset_size mod shard_size)"
proof -
  let ?po = "new_partition_offsets offs"
  let ?s = "new_streaming_splitter nm shard_size ?po e dataset_size shuffle mx fetch"
  define n where "n = nat ((if dataset_size = - 1 then fetch else dataset_size) div shard_size)"
  have "int n = dataset_size div shard_size" if "dataset_size \<noteq> - 1"
    using that assms(3,5) by (simp add: n_def pos_imp_zdiv_nonneg_iff)
  then have "dataset_size = - 1 \<or> dataset_size - int n * shard_size = dataset_size mod shard_size"
    by (cases "dataset_size = - 1") (simp_all add: minus_div_mult_eq_mod)
  moreover obtain po1 new where "st_create_shards ?s = (Inr (st_shards ?s @ new),
      take_size (int n) (?s\<lparr>st_shards := st_shards ?s @ new, st_partition_offset := PoObject po1\<rparr>))"
    "po_wf po1" "length new = n" "fresh_shards ?po po1 (st_shard_size ?s) new"
  proof -
    have f: "st_shard_size ?s = shard_size" "st_partition_offset ?s = PoObject ?po"
      "st_dataset_size ?s = dataset_size" "st_fetch_data_size ?s = fetch"
      by (simp_all add: new_streaming_splitter_def)
    show thesis
      using st_create_shards_eq [of ?po ?s n] new_partition_offsets_wf [OF assms(1,2)] assms(3-5) that
      unfolding f n_def by blast
  qed
  ultimately show ?thesis
    unfolding n_def [symmetric]
    by (intro exI [of _ new] exI [of _ po1]
        exI [of _ "take_size (int n) (?s\<lparr>st_shards := new, st_partition_offset := PoObject po1\<rparr>)"]) (auto simp: new_streaming_splitter_def take_size_def)
qed

theorem streaming_first_call_tiles_witness:
  "\<exists>shards s po. st_create_shards (new_streaming_splitter ''q''
       100 (new_partition_offsets [(KInt 0, 5), (KInt 1, 7)]) 1 250 False None 10000) = (Inr shards, s) \<and>
     st_partition_offset s = PoObject po \<and> length shards = 2 \<and>
     fresh_shards (new_partition_offsets [(KInt 0, 5), (KInt 1, 7)]) po 100 shards \<and>
     st_dataset_size s = 50"
  using streaming_first_call_tiles [of "[(KInt 0, 5), (KInt 1, 7)]" 100 10000 250 "''q''" 1 False None]
  by (simp add: wf_dict_def)

text \<open>
  Later calls hand out old shards again. \<open>create_shards\<close> appends to the splitter's list and
  returns the whole list, so the tasks of a later epoch begin with every shard that was ever created,
  completed or not; a bounded stream whose size is no multiple of the shard size never counts as
  finished, and each later epoch of it consists of exactly the old shards.
\<close>

theorem streaming_later_call_repeats:
  assumes "po_wf po" and "st_partition_offset s = PoObject po" and "0 < st_shard_size s"
    and "0 \<le> st_fetch_data_size s" and "st_dataset_size s = - 1 \<or> 0 \<le> st_dataset_size s"
  shows "\<exists>new s'. st_create_shards s = (Inr (st_shards s @ new), s') \<and>
    (0 < st_dataset_size s \<longrightarrow> st_dataset_size s < st_shard_size s \<longrightarrow>
       new = [] \<and> \<not> st_epoch_finished s \<and> \<not> st_epoch_finished s')"
proof -
  define n where "n = nat ((if st_dataset_size s = - 1 then st_fetch_data_size s else st_dataset_size s)
                      div st_shard_size s)"
  from st_create_shards_eq [OF assms(1,3,2,5) n_def assms(4)] obtain po1 new where
    c: "st_create_shards s = (Inr (st_shards s @ new),
      take_size (int n) (s\<lparr>st_shards := st_shards s @ new, st_partition_offset := PoObject po1\<rparr>))"
    "length new = n" by blast
  have "0 < st_dataset_size s \<Longrightarrow> st_dataset_size s < st_shard_size s \<Longrightarrow> n = 0" by (simp add: n_def)
  with c show ?thesis by (auto simp: st_epoch_finished_def take_size_def)
qed

theorem streaming_later_call_repeats_witness:
  "\<exists>new s'. st_create_shards
      ((new_streaming_splitter ''q'' 100 (new_partition_offsets [(KInt 0, 105)]) 1 50 False None 10000)
       \<lparr>st_shards := [new_shard (KInt 0) 5 105]\<rparr>) = (Inr ([new_shard (KInt 0) 5 105] @ new), s') \<and>
     new = [] \<and> \<not> st_epoch_finished s'"
  using streaming_later_call_repeats [OF new_partition_offsets_wf [of "[(KInt 0, 105)]"],
      of "(new_streaming_splitter ''q'' 100 (new_partition_offsets [(KInt 0, 105)]) 1 50 False None 10000)
          \<lparr>st_shards := [new_shard (KInt 0) 5 105]\<rparr>"]
  by (auto simp: wf_dict_def new_streaming_splitter_def)

lemma scan_todo_None:
  "(\<And>t. t \<in> set ts \<Longrightarrow> get_partition_index_by_name po (sh_name (tk_shard t)) = None) \<Longrightarrow>
   scan_todo po j ts = None"
  by (induction ts) auto

lemma index_by_string: "get_partition_index_by_name (new_partition_offsets offs) (KStr x) = None"
  by (auto simp: get_partition_index_by_name_def new_partition_offsets_def update_partitions_def Let_def
      map_of_eq_None_iff dest!: set_zip_leftD)

text \<open>
  Named partitions get no task. The name index of the partitions is keyed by position, not by
  name, so when every partition is named by a string a request finds no task for any worker: with
  tasks waiting, \<open>get_task\<close> raises \<open>AttributeError\<close> and the queue keeps all its tasks.
\<close>

theorem streaming_named_partitions_starve:
  assumes "sm_todo m \<noteq> []" and "\<forall>t\<in>set (sm_todo m). \<exists>x. sh_name (tk_shard t) = KStr x"
    and "st_partition_offset (sm_splitter m) = PoObject (new_partition_offsets offs\<lparr>po_offsets := cur\<rparr>)"
    and "offs \<noteq> []"
  shows "sm_get_task now nt nid m = (Inl AttributeError, m)"
proof -
  let ?po = "new_partition_offsets offs\<lparr>po_offsets := cur\<rparr>"
  have "get_partition_index_by_name ?po (KStr x) = None" for x
    using index_by_string [of offs x] by (simp add: get_partition_index_by_name_def)
  then have "scan_todo ?po j (sm_todo m) = None" for j
    using assms(2) by (intro scan_todo_None) auto
  moreover have "po_partition_num ?po \<noteq> 0"
    using assms(4) by (simp add: new_partition_offsets_def update_partitions_def Let_def)
  ultimately show ?thesis
    using assms(1,3) by (simp add: sm_get_task_def sm_start_epoch_def get_task_from_todo_def)
qed

theorem streaming_named_partitions_starve_witness:
  "let m = (new_streaming_manager TT_TRAINING 10 (new_streaming_splitter ''q'' 100
        (new_partition_offsets [(KStr ''p0'', 0)]) 1 100 False None 10000))
        \<lparr>sm_todo := [new_task (KInt 0) TT_TRAINING (new_shard (KStr ''p0'') 0 100)]\<rparr>
   in sm_get_task 1 NT_WORKER 0 m = (Inl AttributeError, m)"
  unfolding Let_def
  by (rule streaming_named_partitions_starve [where offs = "[(KStr ''p0'', 0)]" and cur = "[(KStr ''p0'', 0)]"])
    (simp_all add: new_streaming_manager_def new_streaming_splitter_def new_task_def new_shard_def
      new_partition_offsets_def update_partitions_def)

text \<open>
  A checkpoint disables the splitter. Taking a checkpoint turns the live splitter's offsets into
  a plain dict: afterwards the same manager can neither hand out a task nor take a second
  checkpoint. A manager that restores the checkpoint gets fresh offsets equal to the checkpointed
  ones and the outstanding ranges in its queue, all of them under one and the same task id.
\<close>

theorem streaming_checkpoint_disables:
  assumes "sm_checkpoint m = (Inr ck, m')"
  shows "sm_checkpoint m' = (Inl AttributeError, m') \<and>
    (sm_todo m \<noteq> [] \<longrightarrow> sm_get_task now nt nid m' = (Inl AttributeError, m')) \<and>
    (\<exists>r. sm_restore_checkpoint ck m2 = (Inr (), r) \<and>
       map (\<lambda>t. (sh_start (tk_shard t), sh_end (tk_shard t))) (sm_todo r) =
         map (\<lambda>(i, dt). (sh_start (tk_shard (dt_task dt)), sh_end (tk_shard (dt_task dt)))) (sm_doing m) @
         map (\<lambda>t. (sh_start (tk_shard t), sh_end (tk_shard t))) (sm_todo m) \<and>
       (\<forall>t\<in>set (sm_todo r). tk_id t = KStr (st_dataset_name (sm_splitter m))))"
proof (intro conjI impI)
  obtain po where po: "st_partition_offset (sm_splitter m) = PoObject po"
    using assms by (auto simp: sm_checkpoint_def st_to_checkpoint_def split: po_attr.splits)
  define sp where "sp = (sm_splitter m)\<lparr>st_partition_offset := PoDict (po_offsets po)\<rparr>"
  have m': "m' = m\<lparr>sm_splitter := sp\<rparr>" and ck: "ck_splitter ck = sp"
    "ck_todo ck = map range_ckpt (sm_todo m)"
    "ck_doing ck = map (\<lambda>(i, dt). range_ckpt (dt_task dt)) (sm_doing m)"
    using assms po by (auto simp: sm_checkpoint_def st_to_checkpoint_def sp_def Let_def)
  show "sm_checkpoint m' = (Inl AttributeError, m')"
    by (simp add: m' sm_checkpoint_def st_to_checkpoint_def sp_def)
  show "sm_get_task now nt nid m' = (Inl AttributeError, m')" if "sm_todo m \<noteq> []"
    using that by (simp add: m' sp_def sm_get_task_def sm_start_epoch_def get_task_from_todo_def)
  show "\<exists>r. sm_restore_checkpoint ck m2 = (Inr (), r) \<and>
       map (\<lambda>t. (sh_start (tk_shard t), sh_end (tk_shard t))) (sm_todo r) =
         map (\<lambda>(i, dt). (sh_start (tk_shard (dt_task dt)), sh_end (tk_shard (dt_task dt)))) (sm_doing m) @
         map (\<lambda>t. (sh_start (tk_shard t), sh_end (tk_shard t))) (sm_todo m) \<and>
       (\<forall>t\<in>set (sm_todo r). tk_id t = KStr (st_dataset_name (sm_splitter m)))"
    by (auto simp: sm_restore_checkpoint_def st_from_checkpoint_def ck sp_def sm_restored_task_def
        range_ckpt_def new_task_def new_shard_def new_streaming_splitter_def split_def)
qed

theorem streaming_checkpoint_disables_witness:
  "\<exists>ck m'. sm_checkpoint (new_streaming_manager TT_TRAINING 10 (new_streaming_splitter ''q'' 100
        (new_partition_offsets [(KInt 0, 0)]) 1 100 False None 10000)) = (Inr ck, m') \<and>
     sm_checkpoint m' = (Inl AttributeError, m')"
proof -
  obtain ck m' where c: "sm_checkpoint (new_streaming_manager TT_TRAINING 10 (new_streaming_splitter ''q'' 100
        (new_partition_offsets [(KInt 0, 0)]) 1 100 False None 10000)) = (Inr ck, m')"
    by (simp add: sm_checkpoint_def st_to_checkpoint_def new_streaming_manager_def
        new_streaming_splitter_def Let_def)
  from streaming_checkpoint_disables [OF c] c show ?thesis by blast
qed

end
