(* ===== verification/Perf_Monitor.thy ===== *)
theory Perf_Monitor
  imports Job_Constants
begin

text \<open>
  \<open>dlrover/python/master/monitor/perf_monitor.py\<close>: the record of global steps, the set of running
  workers and the evaluation times. \<open>max_record_count\<close> and the seconds for a stable worker count come
  from the global context and are arguments; the events it reports are output only.
\<close>

section \<open>State and operations\<close>

record global_step_record =
  gsr_step :: int
  gsr_timestamp :: rat
  gsr_worker_num :: int

record evaluation_time =
  ev_start_eval :: rat
  ev_eval_time :: rat

record perf_monitor =
  pm_records :: "global_step_record list"
  pm_workers :: "(node_type \<times> int) set"
  pm_max_record_count :: int
  pm_global_step :: int
  pm_target_worker_num :: int
  pm_init_time :: rat
  pm_start_training_time :: "rat option"
  pm_sample_count :: int
  pm_eval_times :: "(int, evaluation_time) dict"

definition new_perf_monitor :: "int \<Rightarrow> rat \<Rightarrow> perf_monitor" where
  "new_perf_monitor max_count now =
     \<lparr>pm_records = [], pm_workers = {}, pm_max_record_count = max_count, pm_global_step = 0,
      pm_target_worker_num = 0, pm_init_time = now, pm_start_training_time = None,
      pm_sample_count = 0, pm_eval_times = []\<rparr>"

definition set_target_worker_num :: "int \<Rightarrow> perf_monitor \<Rightarrow> perf_monitor" where
  "set_target_worker_num n pm = pm\<lparr>pm_target_worker_num := n\<rparr>"

definition reduce_target_worker_num :: "(node_type \<times> int) list \<Rightarrow> perf_monitor \<Rightarrow> perf_monitor" where
  "reduce_target_worker_num workers pm =
     (let num = int (length (filter (\<lambda>w. w \<in> pm_workers pm) workers))
      in if pm_target_worker_num pm > num
         then pm\<lparr>pm_target_worker_num := pm_target_worker_num pm - num\<rparr> else pm)"

definition running_worker_count :: "perf_monitor \<Rightarrow> int" where
  "running_worker_count pm = int (card (pm_workers pm))"

definition set_start_timestamp :: "rat \<Rightarrow> perf_monitor \<Rightarrow> perf_monitor" where
  "set_start_timestamp now pm =
     (if pm_global_step pm = 0 \<and> pm_records pm = []
      then pm\<lparr>pm_records := [\<lparr>gsr_step = 0, gsr_timestamp = of_int (py_int now),
                               gsr_worker_num = running_worker_count pm\<rparr>]\<rparr>
      else pm)"

text \<open>
  After the append, the code reads the last record for its log line: with a record limit of 0 the
  list is empty there and the call raises.
\<close>

definition collect_global_step :: "rat \<Rightarrow> int \<Rightarrow> rat \<Rightarrow> perf_monitor \<Rightarrow> (perf_monitor, unit) py_run" where
  "collect_global_step now step ts pm =
     (let pm1 = (if pm_start_training_time pm = None \<or> pm_start_training_time pm = Some 0
                 then pm\<lparr>pm_start_training_time := Some now\<rparr> else pm);
          pm2 = pm1\<lparr>pm_global_step := step\<rparr>
      in if pm_records pm2 = [] \<or> step > gsr_step (last (pm_records pm2))
         then let rs = pm_records pm2 @ [\<lparr>gsr_step = step, gsr_timestamp = ts,
                                          gsr_worker_num = running_worker_count pm2\<rparr>];
                  rs' = (if int (length rs) > pm_max_record_count pm2 then tl rs else rs);
                  pm3 = pm2\<lparr>pm_sample_count := pm_sample_count pm2 + 1, pm_records := rs'\<rparr>
              in if rs' = [] then (Inl IndexError, pm3) else (Inr (), pm3)
         else (Inr (), pm2))"

definition running_speed :: "perf_monitor \<Rightarrow> rat" where
  "running_speed pm =
     (case rev (pm_records pm) of
        last_record # first_record # _ \<Rightarrow>
          let time_diff = gsr_timestamp last_record - gsr_timestamp first_record
          in if time_diff \<le> 0 then 0
             else of_int (gsr_step last_record - gsr_step first_record) / time_diff
      | _ \<Rightarrow> 0)"

definition add_running_worker :: "node_type \<Rightarrow> int \<Rightarrow> perf_monitor \<Rightarrow> perf_monitor" where
  "add_running_worker ty i pm = pm\<lparr>pm_workers := insert (ty, i) (pm_workers pm)\<rparr>"

definition remove_running_worker :: "node_type \<Rightarrow> int \<Rightarrow> perf_monitor \<Rightarrow> perf_monitor" where
  "remove_running_worker ty i pm =
     (if (ty, i) \<in> pm_workers pm then pm\<lparr>pm_workers := pm_workers pm - {(ty, i)}\<rparr> else pm)"

definition init_training_time :: "perf_monitor \<Rightarrow> int" where
  "init_training_time pm =
     (case pm_start_training_time pm of
        Some t \<Rightarrow> if t = 0 then 0 else py_round (t - pm_init_time pm)
      | None \<Rightarrow> 0)"

definition reset_running_perf_monitor :: "perf_monitor \<Rightarrow> perf_monitor" where
  "reset_running_perf_monitor pm = pm\<lparr>pm_records := [], pm_workers := {}\<rparr>"

definition set_worker_start_eval_time :: "rat \<Rightarrow> int \<Rightarrow> perf_monitor \<Rightarrow> perf_monitor" where
  "set_worker_start_eval_time now w pm =
     (let et = dict_setdefault w \<lparr>ev_start_eval = 0, ev_eval_time = 0\<rparr> (pm_eval_times pm);
          e = dict_get et w \<lparr>ev_start_eval = 0, ev_eval_time = 0\<rparr>
      in pm\<lparr>pm_eval_times := AList.update w (e\<lparr>ev_start_eval := now\<rparr>) et\<rparr>)"

definition close_eval :: "rat \<Rightarrow> evaluation_time \<Rightarrow> evaluation_time" where
  "close_eval now e =
     (if ev_start_eval e > 0
      then e\<lparr>ev_eval_time := ev_eval_time e + (now - ev_start_eval e), ev_start_eval := 0\<rparr> else e)"

definition update_worker_eval_time :: "rat \<Rightarrow> int \<Rightarrow> perf_monitor \<Rightarrow> perf_monitor" where
  "update_worker_eval_time now w pm =
     (case map_of (pm_eval_times pm) w of
        None \<Rightarrow> pm
      | Some e \<Rightarrow> pm\<lparr>pm_eval_times := AList.update w (close_eval now e) (pm_eval_times pm)\<rparr>)"

definition get_worker_eval_time :: "rat \<Rightarrow> int \<Rightarrow> perf_monitor \<Rightarrow> rat \<times> perf_monitor" where
  "get_worker_eval_time now w pm =
     (case map_of (pm_eval_times pm) w of
        None \<Rightarrow> (0, pm)
      | Some e \<Rightarrow>
          (ev_eval_time (close_eval now e),
           pm\<lparr>pm_eval_times := AList.update w (close_eval now e) (pm_eval_times pm)\<rparr>))"

definition all_worker_joined :: "perf_monitor \<Rightarrow> bool" where
  "all_worker_joined pm \<longleftrightarrow> running_worker_count pm = pm_target_worker_num pm"

definition worker_adjustment_finished :: "rat \<Rightarrow> perf_monitor \<Rightarrow> bool" where
  "worker_adjustment_finished stable_secs pm \<longleftrightarrow>
     pm_records pm \<noteq> [] \<and>
     (let worker_num = gsr_worker_num (last (pm_records pm));
          last_time = gsr_timestamp (last (pm_records pm))
      in worker_num = pm_target_worker_num pm \<and>
         list_ex (\<lambda>r. gsr_worker_num r = worker_num \<and> last_time - gsr_timestamp r \<ge> stable_secs)
           (rev (pm_records pm)))"

section \<open>The record of global steps\<close>

definition pm_inv :: "perf_monitor \<Rightarrow> bool" where
  "pm_inv pm \<longleftrightarrow>
     sorted_wrt (<) (map gsr_step (pm_records pm)) \<and>
     int (length (pm_records pm)) \<le> max 1 (pm_max_record_count pm) \<and>
     finite (pm_workers pm) \<and> wf_dict (pm_eval_times pm)"

datatype pm_op =
    PmTarget int
  | PmReduce "(node_type \<times> int) list"
  | PmStart rat
  | PmCollect rat int rat
  | PmAdd node_type int
  | PmRemove node_type int
  | PmReset
  | PmStartEval rat int
  | PmUpdateEval rat int

fun pm_step :: "pm_op \<Rightarrow> perf_monitor \<Rightarrow> perf_monitor" where
  "pm_step (PmTarget n) pm = set_target_worker_num n pm"
| "pm_step (PmReduce ws) pm = reduce_target_worker_num ws pm"
| "pm_step (PmStart now) pm = set_start_timestamp now pm"
| "pm_step (PmCollect now step ts) pm = snd (collect_global_step now step ts pm)"
| "pm_step (PmAdd ty i) pm = add_running_worker ty i pm"
| "pm_step (PmRemove ty i) pm = remove_running_worker ty i pm"
| "pm_step PmReset pm = reset_running_perf_monitor pm"
| "pm_step (PmStartEval now w) pm = set_worker_start_eval_time now w pm"
| "pm_step (PmUpdateEval now w) pm = update_worker_eval_time now w pm"

lemmas pm_simple_defs = set_target_worker_num_def reduce_target_worker_num_def set_start_timestamp_def
  add_running_worker_def remove_running_worker_def reset_running_perf_monitor_def
  set_worker_start_eval_time_def update_worker_eval_time_def

declare pm_simple_defs [machine_defs] collect_global_step_def [machine_defs]

lemma pm_inv_new: "pm_inv (new_perf_monitor n now)"
  by (simp add: pm_inv_def new_perf_monitor_def)

lemma sorted_wrt_less_snoc:
  "sorted_wrt (<) xs \<Longrightarrow> xs = [] \<or> last xs < x \<Longrightarrow> sorted_wrt (<) (xs @ [x :: int])"
proof (induction xs)
  case (Cons a xs)
  have "a < x" if "xs \<noteq> []"
  proof -
    have "a < last xs" "last xs < x" using Cons.prems that last_in_set [OF that] by simp_all
    then show ?thesis by simp
  qed
  with Cons show ?case by (auto split: if_splits)
qed simp

lemma sorted_wrt_tl: "sorted_wrt P xs \<Longrightarrow> sorted_wrt P (tl xs)"
  by (cases xs) auto

lemma collect_global_step_inv:
  assumes "pm_inv pm"
  shows "pm_inv (snd (collect_global_step now step ts pm))"
proof (cases "pm_records pm = [] \<or> step > gsr_step (last (pm_records pm))")
  case True
  let ?r = "\<lparr>gsr_step = step, gsr_timestamp = ts, gsr_worker_num = running_worker_count pm\<rparr>"
  let ?rs = "pm_records pm @ [?r]"
  have "sorted_wrt (<) (map gsr_step (pm_records pm) @ [step])"
    using assms True
    by (intro sorted_wrt_less_snoc) (cases "pm_records pm = []"; simp add: pm_inv_def last_map)+
  then have s: "sorted_wrt (<) (map gsr_step ?rs)" by simp
  then have "sorted_wrt (<) (map gsr_step (tl ?rs))" by (metis sorted_wrt_tl map_tl)
  with s assms True show ?thesis
    by (auto simp: collect_global_step_def pm_inv_def running_worker_count_def Let_def)
next
  case False
  then show ?thesis using assms by (auto simp: collect_global_step_def pm_inv_def Let_def)
qed

lemma pm_step_inv: "pm_inv pm \<Longrightarrow> pm_inv (pm_step op pm)"
proof (cases op)
  case (PmCollect now step ts)
  assume "pm_inv pm"
  then show ?thesis using PmCollect by (simp add: collect_global_step_inv)
qed (auto simp: pm_inv_def pm_simple_defs Let_def split: option.splits)

interpretation pm_mach: op_machine pm_step pm_inv
  by unfold_locales (rule pm_step_inv)

lemma rev_records_head:
  "sorted_wrt (<) (map gsr_step rs) \<Longrightarrow> rev rs = a # b # rest \<Longrightarrow> gsr_step b < gsr_step a"
proof -
  assume s: "sorted_wrt (<) (map gsr_step rs)" and r: "rev rs = a # b # rest"
  have "rs = rev rest @ [b, a]" using arg_cong [OF r, of rev] by simp
  with s show ?thesis by (simp add: sorted_wrt_append)
qed

text \<open>
  Steps only grow. In every reachable state of the monitor the recorded global steps are strictly
  increasing, at most the configured number of records is kept, the running speed is not negative,
  and it is positive exactly when there are two records and the later one has the later time.
\<close>

theorem perf_records_increase:
  fixes ops :: "pm_op list" and n :: int and t0 :: rat
  defines "pm \<equiv> fold pm_step ops (new_perf_monitor n t0)"
  shows "sorted_wrt (<) (map gsr_step (pm_records pm)) \<and>
    int (length (pm_records pm)) \<le> max 1 n \<and> 0 \<le> running_speed pm \<and>
    (0 < running_speed pm \<longleftrightarrow>
      (\<exists>a b rest. rev (pm_records pm) = a # b # rest \<and> gsr_timestamp b < gsr_timestamp a))"
proof -
  have inv: "pm_inv pm" unfolding pm_def by (rule pm_mach.run_inv) (rule pm_inv_new)
  have "pm_max_record_count (pm_step op p) = pm_max_record_count p" for op p
    by (cases op) (auto simp: pm_simple_defs collect_global_step_def Let_def split: option.splits)
  then have "pm_max_record_count (fold pm_step ops p) = pm_max_record_count p" for p
    by (induction ops arbitrary: p) simp_all
  then have n: "pm_max_record_count pm = n" by (simp add: pm_def new_perf_monitor_def)
  have "0 \<le> running_speed pm \<and> (0 < running_speed pm \<longleftrightarrow>
      (\<exists>a b rest. rev (pm_records pm) = a # b # rest \<and> gsr_timestamp b < gsr_timestamp a))"
  proof (cases "\<exists>a b rest. rev (pm_records pm) = a # b # rest")
    case True
    then obtain a b rest where r: "rev (pm_records pm) = a # b # rest" by blast
    have lt: "gsr_step b < gsr_step a"
      using inv by (intro rev_records_head [OF _ r]) (simp add: pm_inv_def)
    have v: "running_speed pm = (if gsr_timestamp a \<le> gsr_timestamp b then 0
        else of_int (gsr_step a - gsr_step b) / (gsr_timestamp a - gsr_timestamp b))"
      by (simp add: running_speed_def r)
    have "(0::rat) < of_int (gsr_step a - gsr_step b)" using lt by (simp del: of_int_diff)
    then have "\<not> gsr_timestamp a \<le> gsr_timestamp b \<Longrightarrow> 0 < running_speed pm"
      unfolding v by (simp del: of_int_diff)
    moreover have "(\<exists>a' b' rest. rev (pm_records pm) = a' # b' # rest \<and>
        gsr_timestamp b' < gsr_timestamp a') \<longleftrightarrow> gsr_timestamp b < gsr_timestamp a"
      unfolding r by simp
    ultimately show ?thesis using v by (cases "gsr_timestamp a \<le> gsr_timestamp b") simp_all
  next
    case False
    then show ?thesis by (auto simp: running_speed_def split: list.splits)
  qed
  with inv n show ?thesis by (simp add: pm_inv_def)
qed

theorem perf_records_increase_witness:
  "let pm = fold pm_step [PmStart 0, PmCollect 5 10 5, PmCollect 7 8 7, PmCollect 9 30 9]
              (new_perf_monitor 50 0)
   in sorted_wrt (<) (map gsr_step (pm_records pm)) \<and> 0 \<le> running_speed pm"
  using perf_records_increase [where ops = "[PmStart 0, PmCollect 5 10 5, PmCollect 7 8 7, PmCollect 9 30 9]"
      and n = 50 and ?t0.0 = 0]
  by (simp only: Let_def)

text \<open>
  Stable for long enough. \<open>worker_adjustment_finished\<close> looks for one old record with the target
  worker count; it does not ask that the count was the target in between. A record of a different
  worker count between the old one and the last does not change the answer.
\<close>

theorem worker_adjustment_ignores_between:
  assumes "worker_adjustment_finished secs (pm\<lparr>pm_records := r # mid @ [l]\<rparr>)"
    and "gsr_worker_num r = pm_target_worker_num pm"
    and "gsr_timestamp l - gsr_timestamp r \<ge> secs"
  shows "worker_adjustment_finished secs (pm\<lparr>pm_records := r # mid @ extra @ [l]\<rparr>)"
  using assms by (auto simp: worker_adjustment_finished_def Let_def)

theorem worker_adjustment_ignores_between_witness:
  "let rec = (\<lambda>s t w. \<lparr>gsr_step = s, gsr_timestamp = t, gsr_worker_num = w\<rparr>)
   in worker_adjustment_finished 300
        ((new_perf_monitor 50 0)\<lparr>pm_target_worker_num := 2,
           pm_records := rec 1 0 2 # [] @ [rec 2 200 1] @ [rec 3 300 2]\<rparr>)"
  unfolding Let_def
  by (rule worker_adjustment_ignores_between [where pm = "(new_perf_monitor 50 0)\<lparr>pm_target_worker_num := 2\<rparr>",
        simplified])
    (simp_all add: worker_adjustment_finished_def)

end
