(* ===== verification/Task_Manager.thy ===== *)
theory Task_Manager
  imports Dataset_Manager Perf_Monitor
begin

text \<open>
  \<open>dlrover/python/master/shard/task_manager.py\<close>: the manager of all datasets of a job. It hands out
  tasks by dataset name, forwards the reports of the workers, requeues the tasks of a dead node,
  scans for timed-out evaluation tasks, and checkpoints and restores datasets by name. The scan
  thread is modelled by one pass of its loop; the timeout callbacks are code of the caller, so a pass
  returns the list of worker ids it invokes them with.
\<close>

section \<open>State and operations\<close>

record task_manager =
  tm_task_process_timeout :: int
  tm_datasets :: "(string, dataset_manager) dict"
  tm_worker_start_task_time :: "(int, rat) dict"
  tm_perf :: perf_monitor
  tm_paral_eval_count :: int
  tm_paral_eval_started :: bool

definition new_task_manager :: "int \<Rightarrow> perf_monitor \<Rightarrow> task_manager" where
  "new_task_manager timeout pm =
     \<lparr>tm_task_process_timeout = timeout, tm_datasets = [], tm_worker_start_task_time = [],
      tm_perf = pm, tm_paral_eval_count = 0, tm_paral_eval_started = False\<rparr>"

definition tm_put :: "string \<Rightarrow> dataset_manager \<Rightarrow> task_manager \<Rightarrow> task_manager" where
  "tm_put nm d tm = tm\<lparr>tm_datasets := AList.update nm d (tm_datasets tm)\<rparr>"

definition tm_new_dataset ::
    "int \<Rightarrow> int \<Rightarrow> string \<Rightarrow> splitter \<Rightarrow> task_type \<Rightarrow> task_manager \<Rightarrow> task_manager" where
  "tm_new_dataset batch_size dataset_size nm sp ty tm =
     (if dict_has (tm_datasets tm) nm then tm
      else if dataset_size < 0 then tm
      else tm_put nm (new_batch_dataset_manager ty batch_size sp) tm)"

text \<open>What handing out a task does to the performance monitor and the evaluation counters.\<close>

definition tm_note_task :: "rat \<Rightarrow> node_type \<Rightarrow> int \<Rightarrow> task_type \<Rightarrow> task_manager \<Rightarrow> task_manager" where
  "tm_note_task now nt nid ty tm =
     (let tm1 =
            (if ty = TT_EVALUATION \<and> nt = NT_WORKER
             then let t = tm\<lparr>tm_perf := set_worker_start_eval_time now nid
                               (reset_running_perf_monitor (tm_perf tm))\<rparr>
                  in if \<not> tm_paral_eval_started t
                     then t\<lparr>tm_paral_eval_count := tm_paral_eval_count t + 1,
                            tm_paral_eval_started := True\<rparr>
                     else t
             else tm);
          tm2 =
            (if ty = TT_TRAINING
             then tm1\<lparr>tm_perf := update_worker_eval_time now nid
                         (add_running_worker nt nid (tm_perf tm1)),
                      tm_paral_eval_started := False\<rparr>
             else tm1)
      in tm2\<lparr>tm_worker_start_task_time := AList.update nid now (tm_worker_start_task_time tm2)\<rparr>)"

definition get_dataset_task ::
    "nat list \<Rightarrow> rat \<Rightarrow> node_type \<Rightarrow> int \<Rightarrow> string \<Rightarrow> task_manager
     \<Rightarrow> (task_manager, (int, string) task option) py_run" where
  "get_dataset_task p now nt nid nm tm =
     (case map_of (tm_datasets tm) nm of
        None \<Rightarrow> (Inr None, tm)
      | Some d \<Rightarrow>
          (case dm_get_task p now nt nid d of
             (Inl e, d') \<Rightarrow> (Inl e, tm_put nm d' tm)
           | (Inr t, d') \<Rightarrow> (Inr (Some t), tm_note_task now nt nid (tk_type t) (tm_put nm d' tm))))"

definition report_dataset_task ::
    "rat \<Rightarrow> int \<Rightarrow> string \<Rightarrow> bool \<Rightarrow> task_manager
     \<Rightarrow> (task_manager, ((int, string) task \<times> int) option) py_run" where
  "report_dataset_task now task_id nm success tm =
     (case map_of (tm_datasets tm) nm of
        None \<Rightarrow> (Inl ValueError, tm)
      | Some d \<Rightarrow>
          (case dm_report_task_status now task_id success d of
             (Inl e, d') \<Rightarrow> (Inl e, tm_put nm d' tm)
           | (Inr (True, Some dt), d') \<Rightarrow>
               (Inr (Some (dt_task dt, dt_node_id dt)),
                (tm_put nm d' tm)\<lparr>tm_worker_start_task_time :=
                   AList.update (dt_node_id dt) now (tm_worker_start_task_time tm)\<rparr>)
           | (Inr (True, None), d') \<Rightarrow> (Inl AttributeError, tm_put nm d' tm)
           | (Inr (False, _), d') \<Rightarrow> (Inr None, tm_put nm d' tm)))"

definition task_hanged :: "rat \<Rightarrow> task_manager \<Rightarrow> bool" where
  "task_hanged now tm \<longleftrightarrow>
     tm_datasets tm \<noteq> [] \<and>
     list_all (\<lambda>(nm, d). dm_latest_task_end_time d > 0 \<and>
        now - of_int (dm_latest_task_end_time d) > of_int (tm_task_process_timeout tm)) (tm_datasets tm)"


text \<open>
  \<open>recover_tasks\<close>: the ids of the node's tasks in one dataset are collected first, then each is
  reported as failed; then the next dataset.
\<close>

definition ids_of_node :: "node_type \<Rightarrow> int \<Rightarrow> dataset_manager \<Rightarrow> int list" where
  "ids_of_node nt nid d =
     map fst (filter (\<lambda>(i, dt). dt_node_id dt = nid \<and> dt_node_type dt = nt) (dm_doing d))"

fun report_failed :: "rat \<Rightarrow> string \<Rightarrow> int list \<Rightarrow> task_manager \<Rightarrow> (task_manager, unit) py_run" where
  "report_failed now nm [] tm = (Inr (), tm)"
| "report_failed now nm (i # is) tm =
     (case report_dataset_task now i nm False tm of
        (Inl e, tm1) \<Rightarrow> (Inl e, tm1)
      | (Inr _, tm1) \<Rightarrow> report_failed now nm is tm1)"

fun recover_names ::
    "rat \<Rightarrow> node_type \<Rightarrow> int \<Rightarrow> string list \<Rightarrow> task_manager \<Rightarrow> (task_manager, unit) py_run" where
  "recover_names now nt nid [] tm = (Inr (), tm)"
| "recover_names now nt nid (nm # nms) tm =
     (case map_of (tm_datasets tm) nm of
        None \<Rightarrow> recover_names now nt nid nms tm
      | Some d \<Rightarrow>
          (case report_failed now nm (ids_of_node nt nid d) tm of
             (Inl e, tm1) \<Rightarrow> (Inl e, tm1)
           | (Inr _, tm1) \<Rightarrow> recover_names now nt nid nms tm1))"

definition recover_tasks :: "rat \<Rightarrow> node_type \<Rightarrow> int \<Rightarrow> task_manager \<Rightarrow> (task_manager, unit) py_run" where
  "recover_tasks now nt nid tm = recover_names now nt nid (map fst (tm_datasets tm)) tm"

definition reset_worker_start_task_time :: "rat \<Rightarrow> int \<Rightarrow> task_manager \<Rightarrow> task_manager" where
  "reset_worker_start_task_time now w tm =
     tm\<lparr>tm_worker_start_task_time := AList.update w now (tm_worker_start_task_time tm)\<rparr>"

text \<open>
  One pass of \<open>_check_and_reassign_timeout_tasks\<close>: in each dataset the first evaluation task being
  done whose worker is silent for too long is reported as failed, and the scan of the dataset stops.
\<close>

definition task_timed_out :: "rat \<Rightarrow> task_manager \<Rightarrow> (int, string) doing_task \<Rightarrow> bool" where
  "task_timed_out cur tm dt \<longleftrightarrow>
     tk_type (dt_task dt) = TT_EVALUATION \<and>
     cur - dict_get (tm_worker_start_task_time tm) (dt_node_id dt) cur
       > of_int (tm_task_process_timeout tm)"

definition first_timed_out ::
    "rat \<Rightarrow> task_manager \<Rightarrow> dataset_manager \<Rightarrow> (int \<times> (int, string) doing_task) option" where
  "first_timed_out cur tm d = find (\<lambda>(i, dt). task_timed_out cur tm dt) (dm_doing d)"

fun scan_timeouts :: "rat \<Rightarrow> string list \<Rightarrow> task_manager \<Rightarrow> int list \<times> task_manager" where
  "scan_timeouts cur [] tm = ([], tm)"
| "scan_timeouts cur (nm # nms) tm =
     (case map_of (tm_datasets tm) nm of
        None \<Rightarrow> scan_timeouts cur nms tm
      | Some d \<Rightarrow>
          (case first_timed_out cur tm d of
             None \<Rightarrow> scan_timeouts cur nms tm
           | Some (i, dt) \<Rightarrow>
               (case scan_timeouts cur nms (tm_put nm (snd (dm_report_task_status cur i False d)) tm) of
                  (ws, tm1) \<Rightarrow> (dt_node_id dt # ws, tm1))))"

definition check_and_reassign_timeout_tasks :: "rat \<Rightarrow> task_manager \<Rightarrow> int list \<times> task_manager" where
  "check_and_reassign_timeout_tasks cur tm = scan_timeouts cur (map fst (tm_datasets tm)) tm"

definition get_dataset_checkpoint :: "string \<Rightarrow> task_manager \<Rightarrow> shard_checkpoint option" where
  "get_dataset_checkpoint nm tm = map_option dm_checkpoint (map_of (tm_datasets tm) nm)"

text \<open>
  \<open>restore_dataset_from_checkpoint\<close>: the argument is the outcome of \<open>from_json\<close>, \<open>None\<close> when it raises.
  A missing dataset is logged and then dereferenced; the raised exception is caught by the handler.
\<close>

definition restore_dataset_from_checkpoint :: "shard_checkpoint option \<Rightarrow> task_manager \<Rightarrow> bool \<times> task_manager"
where
  "restore_dataset_from_checkpoint parsed tm =
     (case parsed of
        None \<Rightarrow> (False, tm)
      | Some ck \<Rightarrow>
          (case map_of (tm_datasets tm) (ck_dataset_name ck) of
             None \<Rightarrow> (False, tm)
           | Some d \<Rightarrow> (True, tm_put (ck_dataset_name ck) (dm_restore_checkpoint ck d) tm)))"

definition get_dataset_epoch :: "string \<Rightarrow> task_manager \<Rightarrow> int" where
  "get_dataset_epoch nm tm =
     (case map_of (tm_datasets tm) nm of None \<Rightarrow> 0 | Some d \<Rightarrow> dm_get_epoch d)"

definition tm_training_started :: "task_manager \<Rightarrow> bool" where
  "tm_training_started tm \<longleftrightarrow> list_ex (\<lambda>(nm, d). dm_completed_step d > 0) (tm_datasets tm)"

section \<open>The invariant\<close>

definition tm_inv :: "task_manager \<Rightarrow> bool" where
  "tm_inv tm \<longleftrightarrow>
     wf_dict (tm_datasets tm) \<and> (\<forall>(nm, d)\<in>set (tm_datasets tm). dm_inv d) \<and>
     wf_dict (tm_worker_start_task_time tm) \<and> pm_inv (tm_perf tm)"

lemma tm_inv_new: "pm_inv pm \<Longrightarrow> tm_inv (new_task_manager t pm)"
  by (simp add: tm_inv_def new_task_manager_def)

lemma tm_inv_dataset: "tm_inv tm \<Longrightarrow> map_of (tm_datasets tm) nm = Some d \<Longrightarrow> dm_inv d"
  by (auto simp: tm_inv_def dest: map_of_SomeD)

lemma tm_put_inv: "tm_inv tm \<Longrightarrow> dm_inv d \<Longrightarrow> tm_inv (tm_put nm d tm)"
proof -
  assume inv: "tm_inv tm" and d: "dm_inv d"
  have "dm_inv d'" if "(nm', d') \<in> set (AList.update nm d (tm_datasets tm))" for nm' d'
    using update_mem [OF that] inv d by (auto simp: tm_inv_def)
  with inv show ?thesis by (auto simp: tm_inv_def tm_put_def)
qed

lemma tm_put_fields [simp]:
  "tm_worker_start_task_time (tm_put nm d tm) = tm_worker_start_task_time tm"
  "tm_task_process_timeout (tm_put nm d tm) = tm_task_process_timeout tm"
  "tm_perf (tm_put nm d tm) = tm_perf tm"
  "tm_datasets (tm_put nm d tm) = AList.update nm d (tm_datasets tm)"
  by (simp_all add: tm_put_def)

lemma tm_note_task_datasets [simp]: "tm_datasets (tm_note_task now nt nid ty tm) = tm_datasets tm"
  by (simp add: tm_note_task_def Let_def)

lemma tm_note_task_inv: "tm_inv tm \<Longrightarrow> tm_inv (tm_note_task now nt nid ty tm)"
  using pm_step_inv [of _ PmReset] pm_step_inv [of _ "PmStartEval now nid"]
    pm_step_inv [of _ "PmAdd nt nid"] pm_step_inv [of _ "PmUpdateEval now nid"]
  by (auto simp: tm_note_task_def tm_inv_def Let_def)


lemma report_dataset_task_datasets:
  "tm_datasets (snd (report_dataset_task now i nm ok tm)) =
     (case map_of (tm_datasets tm) nm of
        None \<Rightarrow> tm_datasets tm
      | Some d \<Rightarrow> AList.update nm (snd (dm_report_task_status now i ok d)) (tm_datasets tm))"
  by (auto simp: report_dataset_task_def split: option.splits sum.splits prod.splits bool.splits)

section \<open>Recovering the tasks of a dead node\<close>

definition of_node :: "node_type \<Rightarrow> int \<Rightarrow> (int, string) doing_task \<Rightarrow> bool" where
  "of_node nt nid dt \<longleftrightarrow> dt_node_id dt = nid \<and> dt_node_type dt = nt"

text \<open>A failed task goes back to the end of the queue with one more retry, until its retries are used up.\<close>

definition requeue :: "(int, string) task \<Rightarrow> (int, string) task list" where
  "requeue t = (if tk_retry_count t < MAX_TASK_RETRIES
                then [t\<lparr>tk_retry_count := tk_retry_count t + 1\<rparr>] else [])"

definition recovered :: "node_type \<Rightarrow> int \<Rightarrow> dataset_manager \<Rightarrow> dataset_manager" where
  "recovered nt nid d =
     d\<lparr>dm_doing := filter (\<lambda>(i, dt). \<not> of_node nt nid dt) (dm_doing d),
       dm_todo := dm_todo d @ concat (map (\<lambda>(i, dt). requeue (dt_task dt))
                                (filter (\<lambda>(i, dt). of_node nt nid dt) (dm_doing d)))\<rparr>"

definition fail_task :: "rat \<Rightarrow> int \<Rightarrow> dataset_manager \<Rightarrow> dataset_manager" where
  "fail_task now i d = snd (dm_report_task_status now i False d)"

lemma fail_task_eq:
  assumes "map_of (dm_doing d) i = Some dt"
  shows "fail_task now i d =
    d\<lparr>dm_doing := AList.delete i (dm_doing d), dm_todo := dm_todo d @ requeue (dt_task dt)\<rparr>"
  using assms
  by (auto simp: fail_task_def dm_report_task_status_def recover_task_def requeue_def Let_def
      check_exceed_max_task_retries_def)

lemma fail_tasks_eq:
  assumes "distinct ids" and "\<forall>i\<in>set ids. map_of (dm_doing d) i \<noteq> None"
  shows "fold (fail_task now) ids d =
    d\<lparr>dm_doing := filter (\<lambda>(i, dt). i \<notin> set ids) (dm_doing d),
      dm_todo := dm_todo d @ concat (map (\<lambda>i. requeue (dt_task (the (map_of (dm_doing d) i)))) ids)\<rparr>"
  using assms
proof (induction ids arbitrary: d)
  case Nil
  then show ?case by simp
next
  case (Cons i ids)
  then obtain dt where dt: "map_of (dm_doing d) i = Some dt" by auto
  let ?d1 = "fail_task now i d"
  have look: "map_of (dm_doing ?d1) j = map_of (dm_doing d) j" if "j \<in> set ids" for j
    using that Cons.prems(1) by (auto simp: fail_task_eq [OF dt] delete_conv')
  have "fold (fail_task now) ids ?d1 =
    ?d1\<lparr>dm_doing := filter (\<lambda>(i, dt). i \<notin> set ids) (dm_doing ?d1),
      dm_todo := dm_todo ?d1 @ concat (map (\<lambda>i. requeue (dt_task (the (map_of (dm_doing ?d1) i)))) ids)\<rparr>"
    using Cons.prems look by (intro Cons.IH) auto
  moreover have "concat (map (\<lambda>i. requeue (dt_task (the (map_of (dm_doing ?d1) i)))) ids) =
      concat (map (\<lambda>i. requeue (dt_task (the (map_of (dm_doing d) i)))) ids)"
    using look by (intro arg_cong [of _ _ concat] map_cong) simp_all
  moreover have "filter (\<lambda>(i, dt). i \<notin> set ids) (dm_doing ?d1) =
      filter (\<lambda>(j, dt). j \<notin> set (i # ids)) (dm_doing d)"
    by (auto simp: fail_task_eq [OF dt] AList.delete_eq intro!: filter_cong)
  ultimately have "fold (fail_task now) (i # ids) d =
    ?d1\<lparr>dm_doing := filter (\<lambda>(j, dt). j \<notin> set (i # ids)) (dm_doing d),
      dm_todo := dm_todo ?d1 @ concat (map (\<lambda>i. requeue (dt_task (the (map_of (dm_doing d) i)))) ids)\<rparr>"
    by simp
  then show ?case unfolding fail_task_eq [OF dt] using dt by simp
qed

lemma ids_of_node_facts:
  assumes "dm_inv d"
  shows "distinct (ids_of_node nt nid d)"
    and "(i, dt) \<in> set (dm_doing d) \<Longrightarrow> i \<in> set (ids_of_node nt nid d) \<longleftrightarrow> of_node nt nid dt"
proof -
  have w: "wf_dict (dm_doing d)" using assms by (simp add: dm_inv_def wf_dict_def)
  then show "distinct (ids_of_node nt nid d)"
    by (simp add: ids_of_node_def wf_dict_def distinct_map_filter)
  show "i \<in> set (ids_of_node nt nid d) \<longleftrightarrow> of_node nt nid dt" if "(i, dt) \<in> set (dm_doing d)"
    using that w by (auto simp: ids_of_node_def of_node_def wf_dict_mem_map_of image_iff)
qed

lemma fail_node_tasks:
  assumes "dm_inv d"
  shows "fold (fail_task now) (ids_of_node nt nid d) d = recovered nt nid d"
proof -
  note f = ids_of_node_facts(1) [OF assms, of nt nid] ids_of_node_facts(2) [OF assms, of _ _ nt nid]
  have w: "wf_dict (dm_doing d)" using assms by (simp add: dm_inv_def wf_dict_def)
  have "\<forall>i\<in>set (ids_of_node nt nid d). map_of (dm_doing d) i \<noteq> None"
    by (auto simp: ids_of_node_def map_of_eq_None_iff)
  note e = fail_tasks_eq [OF f(1) this, of now]
  have "filter (\<lambda>(i, dt). i \<notin> set (ids_of_node nt nid d)) (dm_doing d) =
      filter (\<lambda>(i, dt). \<not> of_node nt nid dt) (dm_doing d)"
    using f(2) by (auto intro!: filter_cong)
  moreover have "map (\<lambda>i. requeue (dt_task (the (map_of (dm_doing d) i)))) (ids_of_node nt nid d) =
      map (\<lambda>(i, dt). requeue (dt_task dt)) (filter (\<lambda>(i, dt). of_node nt nid dt) (dm_doing d))"
    using w by (auto simp: ids_of_node_def of_node_def wf_dict_mem_map_of)
  ultimately show ?thesis using e by (simp add: recovered_def)
qed

lemma report_dataset_task_failed:
  assumes "map_of (tm_datasets tm) nm = Some d"
  shows "report_dataset_task now i nm False tm = (Inr None, tm_put nm (fail_task now i d) tm)"
  using assms
  by (auto simp: report_dataset_task_def fail_task_def dm_report_task_status_def Let_def
      split: option.splits prod.splits)

lemma tm_put_twice [simp]: "tm_put nm d (tm_put nm d' tm) = tm_put nm d tm"
  by (simp add: tm_put_def)

lemma report_failed_eq:
  assumes "map_of (tm_datasets tm) nm = Some d"
  shows "report_failed now nm ids tm = (Inr (), tm_put nm (fold (fail_task now) ids d) tm)"
  using assms
proof (induction ids arbitrary: tm d)
  case Nil
  then show ?case by (simp add: tm_put_def update_triv)
next
  case (Cons i ids)
  have "map_of (tm_datasets (tm_put nm (fail_task now i d) tm)) nm = Some (fail_task now i d)"
    by (simp add: update_conv')
  from Cons.IH [OF this] Cons.prems show ?case by (simp add: report_dataset_task_failed)
qed

lemma update_middle:
  "nm \<notin> fst ` set pre \<Longrightarrow> AList.update nm v (pre @ (nm, d) # post) = pre @ (nm, v) # post"
  by (induction pre) auto

lemma recover_names_eq:
  assumes "tm_datasets tm = pre @ post" and "wf_dict (tm_datasets tm)"
    and "\<forall>(nm, d)\<in>set post. dm_inv d"
  shows "recover_names now nt nid (map fst post) tm =
    (Inr (), tm\<lparr>tm_datasets := pre @ map (\<lambda>(nm, d). (nm, recovered nt nid d)) post\<rparr>)"
  using assms
proof (induction post arbitrary: pre tm)
  case Nil
  then show ?case by simp
next
  case (Cons q post)
  obtain nm d where q: "q = (nm, d)" by (cases q)
  have fresh: "nm \<notin> fst ` set pre" "nm \<notin> fst ` set post" using Cons.prems q by (auto simp: wf_dict_def)
  have "map_of pre nm = None" using fresh by (simp add: map_of_eq_None_iff)
  then have look: "map_of (tm_datasets tm) nm = Some d"
    using Cons.prems(1) q by (simp add: map_add_def)
  let ?tm1 = "tm_put nm (recovered nt nid d) tm"
  have r: "report_failed now nm (ids_of_node nt nid d) tm = (Inr (), ?tm1)"
    using report_failed_eq [OF look] fail_node_tasks Cons.prems(3) q by simp
  have ds: "tm_datasets ?tm1 = (pre @ [(nm, recovered nt nid d)]) @ post"
    using Cons.prems(1) q fresh by (simp add: update_middle)
  have "recover_names now nt nid (map fst post) ?tm1 =
    (Inr (), ?tm1\<lparr>tm_datasets := (pre @ [(nm, recovered nt nid d)]) @
       map (\<lambda>(nm, d). (nm, recovered nt nid d)) post\<rparr>)"
    using Cons.prems by (intro Cons.IH [OF ds]) auto
  then show ?case using q look r by (simp add: tm_put_def)
qed

lemma recover_tasks_eq:
  assumes "tm_inv tm"
  shows "recover_tasks now nt nid tm =
    (Inr (), tm\<lparr>tm_datasets := map (\<lambda>(nm, d). (nm, recovered nt nid d)) (tm_datasets tm)\<rparr>)"
  using recover_names_eq [of tm "[]" "tm_datasets tm" now nt nid] assms
  by (simp add: recover_tasks_def tm_inv_def)

section \<open>The job as a machine that drives the machines of its datasets\<close>

text \<open>
  \<open>TmNew\<close> stands for a request that respects the client's contract: a well-formed splitter (what
  \<open>new_dataset_splitter\<close> returns for a positive shard size) and a positive batch size.
\<close>

datatype tm_op =
    TmNew int int string splitter task_type
  | TmGet "nat list" rat node_type int string
  | TmReport rat int string bool
  | TmRecover rat node_type int
  | TmScan rat
  | TmResetTime rat int

fun tm_step :: "tm_op \<Rightarrow> task_manager \<Rightarrow> task_manager" where
  "tm_step (TmNew b n nm sp ty) tm =
     (if splitter_wf sp \<and> 0 < b then tm_new_dataset b n nm sp ty tm else tm)"
| "tm_step (TmGet p now nt nid nm) tm = snd (get_dataset_task p now nt nid nm tm)"
| "tm_step (TmReport now i nm ok) tm = snd (report_dataset_task now i nm ok tm)"
| "tm_step (TmRecover now nt nid) tm = snd (recover_tasks now nt nid tm)"
| "tm_step (TmScan cur) tm = snd (check_and_reassign_timeout_tasks cur tm)"
| "tm_step (TmResetTime now w) tm = reset_worker_start_task_time now w tm"

lemma fold_fail_dm: "fold (fail_task now) ids d = fold dm_step (map (\<lambda>i. DmReport now i False) ids) d"
  by (induction ids arbitrary: d) (simp_all add: fail_task_def)

lemma recovered_inv:
  assumes "dm_inv d"
  shows "dm_inv (recovered nt nid d)"
  using fail_node_tasks [OF assms, of 0 nt nid] dm_mach.run_inv [OF assms] fold_fail_dm by metis


lemma scan_timeouts_inv: "tm_inv tm \<Longrightarrow> tm_inv (snd (scan_timeouts cur nms tm))"
proof (induction nms arbitrary: tm)
  case (Cons n nms)
  show ?case
  proof (cases "map_of (tm_datasets tm) n")
    case None
    then show ?thesis using Cons by simp
  next
    case (Some d)
    have "tm_inv (tm_put n (snd (dm_report_task_status cur i False d)) tm)" for i
      using tm_inv_dataset [OF Cons.prems Some] by (intro tm_put_inv Cons.prems dm_report_task_status_inv)
    with Some Cons show ?thesis by (auto simp: split_def split: option.splits)
  qed
qed simp

lemma tm_step_inv:
  assumes "tm_inv tm"
  shows "tm_inv (tm_step op tm)"
proof (cases op)
  case (TmNew b n nm sp ty)
  then show ?thesis using assms tm_put_inv [OF assms] dm_inv_new by (simp add: tm_new_dataset_def)
next
  case (TmGet p now nt nid nm)
  have "tm_inv (tm_put nm (snd (dm_get_task p now nt nid d)) tm)"
    if "map_of (tm_datasets tm) nm = Some d" for d
    using tm_inv_dataset [OF assms that] by (intro tm_put_inv assms dm_get_task_inv)
  then show ?thesis
    using TmGet assms tm_note_task_inv
    by (fastforce simp: get_dataset_task_def split: option.splits sum.splits prod.splits)
next
  case (TmReport now i nm ok)
  have "tm_inv (tm_put nm (snd (dm_report_task_status now i ok d)) tm)"
    if "map_of (tm_datasets tm) nm = Some d" for d
    using tm_inv_dataset [OF assms that] by (intro tm_put_inv assms dm_report_task_status_inv)
  then have "(\<forall>(nm, d)\<in>set (tm_datasets (tm_step op tm)). dm_inv d) \<and> wf_dict (tm_datasets (tm_step op tm))"
    using TmReport assms
    by (simp add: report_dataset_task_datasets tm_inv_def split: option.splits)
  then show ?thesis
    using TmReport assms
    by (auto simp: report_dataset_task_def tm_inv_def
        split: option.splits sum.splits prod.splits bool.splits)
next
  case (TmRecover now nt nid)
  then show ?thesis
    using assms recovered_inv recover_tasks_eq [OF assms, of now nt nid]
    by (fastforce simp: tm_inv_def wf_dict_def o_def split_def)
next
  case (TmScan cur)
  then show ?thesis using scan_timeouts_inv [OF assms] by (simp add: check_and_reassign_timeout_tasks_def)
next
  case (TmResetTime now w)
  then show ?thesis using assms by (simp add: tm_inv_def reset_worker_start_task_time_def)
qed

interpretation tm_mach: op_machine tm_step tm_inv
  by unfold_locales (rule tm_step_inv)




section \<open>Properties of the job's task manager\<close>

text \<open>
  C15. A dead node's tasks come back. Recovering the tasks of a node succeeds; in every dataset it
  removes exactly the node's tasks from those being done, appends them in order to the end of the
  queue with one more retry, leaves out those that had used up their three retries, and changes
  nothing else in the manager.
\<close>

theorem recover_tasks_exact:
  assumes "tm_inv tm"
  shows "recover_tasks now nt nid tm =
    (Inr (), tm\<lparr>tm_datasets := map (\<lambda>(nm, d).
       (nm, d\<lparr>dm_doing := filter (\<lambda>(i, dt). \<not> of_node nt nid dt) (dm_doing d),
              dm_todo := dm_todo d @ concat (map (\<lambda>(i, dt). requeue (dt_task dt))
                            (filter (\<lambda>(i, dt). of_node nt nid dt) (dm_doing d)))\<rparr>)) (tm_datasets tm)\<rparr>)"
  using recover_tasks_eq [OF assms] by (simp add: recovered_def)

definition demo_job :: task_manager where
  "demo_job = fold tm_step
     [TmNew 1 3 ''d'' (TextSplitter (new_text_splitter ''d'' 3 2 1 False)) TT_TRAINING,
      TmGet [] 1 NT_WORKER 0 ''d'', TmGet [] 2 NT_WORKER 1 ''d'']
     (new_task_manager 100 (new_perf_monitor 50 0))"

lemma demo_job_inv: "tm_inv demo_job"
  unfolding demo_job_def by (intro tm_mach.run_inv tm_inv_new pm_inv_new)

theorem recover_tasks_exact_witness:
  "tm_inv demo_job \<and> map (\<lambda>(nm, d). map fst (dm_doing d)) (tm_datasets demo_job) = [[0, 1]] \<and>
   (\<exists>tm'. recover_tasks 5 NT_WORKER 0 demo_job = (Inr (), tm') \<and>
      map (\<lambda>(nm, d). map fst (dm_doing d)) (tm_datasets tm') = [[1]] \<and>
      map (\<lambda>(nm, d). map tk_id (dm_todo d)) (tm_datasets tm') = [[0]])"
proof -
  let ?f = "\<lambda>(nm, d). (nm, d\<lparr>dm_doing := filter (\<lambda>(i, dt). \<not> of_node NT_WORKER 0 dt) (dm_doing d),
              dm_todo := dm_todo d @ concat (map (\<lambda>(i, dt). requeue (dt_task dt))
                            (filter (\<lambda>(i, dt). of_node NT_WORKER 0 dt) (dm_doing d)))\<rparr>)"
  have "map (\<lambda>(nm, d). map fst (dm_doing d)) (tm_datasets demo_job) = [[0, 1]]"
    "map (\<lambda>(nm, d). map fst (dm_doing d)) (map ?f (tm_datasets demo_job)) = [[1]]"
    "map (\<lambda>(nm, d). map tk_id (dm_todo d)) (map ?f (tm_datasets demo_job)) = [[0]]"
    unfolding demo_job_def by code_simp+
  with recover_tasks_exact [OF demo_job_inv, of 5 NT_WORKER 0] demo_job_inv show ?thesis by simp
qed



end
