(* ===== verification/Status_Flow.thy ===== *)
theory Status_Flow
  imports Job_Constants
begin

text \<open>
  \<open>dlrover/python/master/node/status_flow.py\<close>: the table of status transitions a pod event may cause
  and the lookup. A pod phase is a status string. The transitions the code allows are an order on
  the statuses, so the library's order facts apply to them.
\<close>

section \<open>The tables and the lookup\<close>

record node_state_flow =
  fl_from :: node_status
  fl_to :: node_status
  fl_events :: "node_event_type list"
  fl_phase :: "node_status option"
  fl_relaunch :: bool

definition flow ::
    "node_status \<Rightarrow> node_status \<Rightarrow> node_event_type list \<Rightarrow> node_status option \<Rightarrow> bool \<Rightarrow> node_state_flow" where
  "flow a b evs ph r = \<lparr>fl_from = a, fl_to = b, fl_events = evs, fl_phase = ph, fl_relaunch = r\<rparr>"

definition NODE_STATE_FLOWS :: "node_state_flow list" where
  "NODE_STATE_FLOWS =
     [flow ST_INITIAL ST_PENDING [EV_ADDED, EV_MODIFIED] (Some ST_PENDING) False,
      flow ST_INITIAL ST_RUNNING [EV_ADDED, EV_MODIFIED] (Some ST_RUNNING) False,
      flow ST_INITIAL ST_FAILED [EV_ADDED, EV_MODIFIED] (Some ST_FAILED) True,
      flow ST_INITIAL ST_DELETED [EV_DELETED] None True,
      flow ST_PENDING ST_RUNNING [EV_ADDED, EV_MODIFIED] (Some ST_RUNNING) False,
      flow ST_PENDING ST_SUCCEEDED [EV_ADDED, EV_MODIFIED] (Some ST_SUCCEEDED) False,
      flow ST_PENDING ST_FAILED [EV_ADDED, EV_MODIFIED] (Some ST_FAILED) True,
      flow ST_RUNNING ST_SUCCEEDED [EV_ADDED, EV_MODIFIED] (Some ST_SUCCEEDED) False,
      flow ST_RUNNING ST_FAILED [EV_ADDED, EV_MODIFIED] (Some ST_FAILED) True,
      flow ST_PENDING ST_DELETED [EV_MODIFIED, EV_DELETED] None True,
      flow ST_RUNNING ST_DELETED [EV_MODIFIED, EV_DELETED] None True,
      flow ST_SUCCEEDED ST_DELETED [EV_MODIFIED, EV_DELETED] None False,
      flow ST_FAILED ST_DELETED [EV_MODIFIED, EV_DELETED] None False]"

definition ALLOWED_TRANSITIONS :: "(node_status, node_status list) dict" where
  "ALLOWED_TRANSITIONS =
     [(ST_INITIAL, [ST_INITIAL, ST_PENDING, ST_RUNNING, ST_SUCCEEDED, ST_FAILED, ST_DELETED]),
      (ST_PENDING, [ST_PENDING, ST_RUNNING, ST_SUCCEEDED, ST_FAILED, ST_DELETED]),
      (ST_RUNNING, [ST_RUNNING, ST_SUCCEEDED, ST_FAILED, ST_DELETED]),
      (ST_SUCCEEDED, [ST_SUCCEEDED, ST_DELETED]),
      (ST_FAILED, [ST_FAILED, ST_DELETED]),
      (ST_DELETED, [ST_DELETED])]"

definition get_node_state_flow ::
    "node_status \<Rightarrow> node_event_type \<Rightarrow> node_status \<Rightarrow> node_state_flow option py_result" where
  "get_node_state_flow from_status event_type phase0 =
     (let phase = (if event_type = EV_DELETED \<and> from_status = ST_PENDING then ST_DELETED else phase0)
      in if from_status = phase then Inr None
         else case map_of ALLOWED_TRANSITIONS from_status of
                None \<Rightarrow> Inl KeyError
              | Some allowed \<Rightarrow>
                  if phase \<notin> set allowed then Inr None
                  else Inr (find (\<lambda>f. from_status = fl_from f \<and> event_type \<in> set (fl_events f) \<and>
                                      (fl_phase f = None \<or> fl_phase f = Some phase)) NODE_STATE_FLOWS))"

section \<open>The allowed transitions are an order\<close>

instantiation node_status :: order
begin

definition less_eq_node_status :: "node_status \<Rightarrow> node_status \<Rightarrow> bool" where
  "less_eq_node_status a b \<longleftrightarrow> a = b \<or> b \<in> set (dict_get ALLOWED_TRANSITIONS a [])"

definition less_node_status :: "node_status \<Rightarrow> node_status \<Rightarrow> bool" where
  "less_node_status a b \<longleftrightarrow> a \<noteq> b \<and> b \<in> set (dict_get ALLOWED_TRANSITIONS a [])"

instance
proof
  fix a b c :: node_status
  show "a < b \<longleftrightarrow> a \<le> b \<and> \<not> b \<le> a"
    by (cases a; cases b; simp add: less_node_status_def less_eq_node_status_def
        ALLOWED_TRANSITIONS_def dict_get_def)
  show "a \<le> a" by (simp add: less_eq_node_status_def)
  show "a \<le> b \<Longrightarrow> b \<le> a \<Longrightarrow> a = b"
    by (cases a; cases b; simp add: less_eq_node_status_def ALLOWED_TRANSITIONS_def dict_get_def)
  show "a \<le> b \<Longrightarrow> b \<le> c \<Longrightarrow> a \<le> c"
    by (cases a; cases b; cases c; simp add: less_eq_node_status_def ALLOWED_TRANSITIONS_def dict_get_def)
qed

end

lemmas status_order_defs = less_eq_node_status_def less_node_status_def ALLOWED_TRANSITIONS_def
  dict_get_def

text \<open>How many status changes a node in a status can still go through.\<close>

fun status_height :: "node_status \<Rightarrow> nat" where
  "status_height ST_INITIAL = 4"
| "status_height ST_PENDING = 3"
| "status_height ST_RUNNING = 2"
| "status_height ST_SUCCEEDED = 1"
| "status_height ST_FAILED = 1"
| "status_height _ = 0"

lemma status_height_less: "a < (b :: node_status) \<Longrightarrow> status_height b < status_height a"
  by (cases a; cases b; simp add: status_order_defs)

lemma flows_go_up: "f \<in> set NODE_STATE_FLOWS \<Longrightarrow> fl_from f < fl_to f"
  by (auto simp: NODE_STATE_FLOWS_def flow_def status_order_defs)

lemma get_node_state_flow_find:
  assumes "get_node_state_flow st ev ph = Inr (Some f)"
  shows "f \<in> set NODE_STATE_FLOWS" and "fl_from f = st" and "ev \<in> set (fl_events f)"
    and "fl_phase f = None \<or> fl_phase f = Some (if ev = EV_DELETED \<and> st = ST_PENDING then ST_DELETED else ph)"
  using assms
  by (auto simp: get_node_state_flow_def Let_def find_Some_iff nth_mem split: if_splits option.splits)

section \<open>Properties\<close>

text \<open>
  The status of a node under a sequence of pod events: a flow that is found moves it.
\<close>

fun status_run :: "(node_event_type \<times> node_status) list \<Rightarrow> node_status \<Rightarrow> node_status list" where
  "status_run [] st = []"
| "status_run ((ev, ph) # evs) st =
     (case get_node_state_flow st ev ph of
        Inr (Some f) \<Rightarrow> fl_to f # status_run evs (fl_to f)
      | _ \<Rightarrow> status_run evs st)"

lemma status_run_height: "length (status_run evs st) \<le> status_height st"
proof (induction evs st rule: status_run.induct)
  case (2 ev ph evs st)
  show ?case
  proof (cases "\<exists>f. get_node_state_flow st ev ph = Inr (Some f)")
    case True
    then obtain f where f: "get_node_state_flow st ev ph = Inr (Some f)" by blast
    note g = get_node_state_flow_find [OF f]
    have "status_height (fl_to f) < status_height st"
      using flows_go_up [OF g(1)] g(2) status_height_less by simp
    moreover have "length (status_run evs (fl_to f)) \<le> status_height (fl_to f)" using 2 f by simp
    ultimately show ?thesis using f by simp
  next
    case False
    then have "status_run ((ev, ph) # evs) st = status_run evs st"
      by (simp split: sum.splits option.splits)
    then show ?thesis using 2 False by (cases "get_node_state_flow st ev ph") (auto split: option.splits)
  qed
qed simp

lemma status_run_sorted: "sorted_wrt (<) (st # status_run evs st)"
proof (induction evs st rule: status_run.induct)
  case (2 ev ph evs st)
  show ?case
  proof (cases "\<exists>f. get_node_state_flow st ev ph = Inr (Some f)")
    case True
    then obtain f where f: "get_node_state_flow st ev ph = Inr (Some f)" by blast
    note g = get_node_state_flow_find [OF f]
    have "st < fl_to f" using flows_go_up [OF g(1)] g(2) by simp
    moreover have "sorted_wrt (<) (fl_to f # status_run evs (fl_to f))" using 2 f by simp
    ultimately show ?thesis using f by (fastforce intro: less_trans)
  next
    case False
    then have "status_run ((ev, ph) # evs) st = status_run evs st"
      by (simp split: sum.splits option.splits)
    then show ?thesis using 2 False by (cases "get_node_state_flow st ev ph") (auto split: option.splits)
  qed
qed simp

text \<open>
  C5. Statuses only advance. Every transition the lookup returns starts at the current status, answers
  the event, and leads to a strictly later status in the order of allowed transitions; so over any
  sequence of pod events a node changes its status at most four times and never returns to an
  earlier one.
\<close>

theorem statuses_only_advance:
  "sorted_wrt (<) (st # status_run evs st) \<and> length (status_run evs st) \<le> 4"
proof -
  have "status_height st \<le> 4" by (cases st) simp_all
  with status_run_sorted [of st evs] status_run_height [of evs st] show ?thesis by simp
qed

text \<open>
  When a node is relaunched. The lookup asks for a relaunch exactly when a node that was initial,
  pending or running fails or is deleted; a node that had already succeeded or failed is not
  relaunched when its pod goes away.
\<close>

theorem relaunch_exactly_on_loss:
  assumes "get_node_state_flow st ev ph = Inr (Some f)"
  shows "fl_relaunch f \<longleftrightarrow>
    st \<in> {ST_INITIAL, ST_PENDING, ST_RUNNING} \<and> fl_to f \<in> {ST_FAILED, ST_DELETED}"
  using get_node_state_flow_find(1,2) [OF assms] by (auto simp: NODE_STATE_FLOWS_def flow_def)

theorem relaunch_exactly_on_loss_witness:
  "\<exists>f. get_node_state_flow ST_RUNNING EV_MODIFIED ST_FAILED = Inr (Some f) \<and> fl_relaunch f"
proof -
  obtain f where f: "get_node_state_flow ST_RUNNING EV_MODIFIED ST_FAILED = Inr (Some f)"
    and t: "fl_to f = ST_FAILED"
    by (simp add: get_node_state_flow_def ALLOWED_TRANSITIONS_def NODE_STATE_FLOWS_def flow_def)
  from relaunch_exactly_on_loss [OF f] f t show ?thesis by auto
qed

text \<open>
  Where the two tables disagree. For a known status and a pod event of the watcher, the lookup
  returns a transition whenever the phase is allowed and new, with these exceptions: an initial
  node whose pod has already succeeded (or is gone without a delete event), and a delete event on a
  running or ended node whose last phase it already had. For a status outside the table, the lookup
  raises unless the phase repeats the status.
\<close>

theorem flow_lookup_gaps:
  "get_node_state_flow ST_INITIAL EV_ADDED ST_SUCCEEDED = Inr None \<and>
   get_node_state_flow ST_INITIAL EV_MODIFIED ST_SUCCEEDED = Inr None \<and>
   ST_INITIAL < ST_SUCCEEDED \<and>
   get_node_state_flow ST_RUNNING EV_DELETED ST_RUNNING = Inr None \<and>
   (\<forall>ev ph. ph \<noteq> ST_FINISHED \<longrightarrow> get_node_state_flow ST_FINISHED ev ph = Inl KeyError) \<and>
   (\<forall>st ev ph. st \<in> {ST_PENDING, ST_RUNNING} \<longrightarrow> ev = EV_MODIFIED \<longrightarrow> st < ph \<longrightarrow>
      (\<exists>f. get_node_state_flow st ev ph = Inr (Some f) \<and> st < fl_to f \<and> (fl_to f = ph \<or> fl_to f = ST_DELETED)))"
proof (intro conjI allI impI)
  fix st ev ph
  assume "st \<in> {ST_PENDING, ST_RUNNING}" "ev = EV_MODIFIED" "st < ph"
  then show "\<exists>f. get_node_state_flow st ev ph = Inr (Some f) \<and> st < fl_to f \<and>
      (fl_to f = ph \<or> fl_to f = ST_DELETED)"
    by (cases ph) (auto simp: get_node_state_flow_def NODE_STATE_FLOWS_def flow_def status_order_defs)
qed (auto simp: get_node_state_flow_def NODE_STATE_FLOWS_def flow_def status_order_defs)

theorem flow_lookup_gaps_witness:
  "(\<exists>f. get_node_state_flow ST_PENDING EV_MODIFIED ST_RUNNING = Inr (Some f) \<and> ST_PENDING < fl_to f) \<and>
   get_node_state_flow ST_FINISHED EV_DELETED ST_DELETED = Inl KeyError"
proof -
  have "ST_PENDING < ST_RUNNING" by (simp add: status_order_defs)
  then show ?thesis using flow_lookup_gaps by blast
qed

end
