(* ===== verification/Net_Topology.thy ===== *)
theory Net_Topology
  imports Py_Prelude
begin

text \<open>
  \<open>dlrover/python/master/elastic_training/net_topology.py\<close>: the topology data of a node, the default
  querier and the sorter that puts the nodes under one access switch next to one another.
\<close>

section \<open>Nodes and the sorter\<close>

record node_topology =
  nt_node_id :: int
  nt_node_rank :: int
  nt_process_num :: int
  nt_node_ip :: string
  nt_asw :: string
  nt_psw :: string
  nt_node_group :: int
  nt_node_group_size :: int
  nt_node_group_id :: "string option"

type_synonym world = "(int, node_topology) dict"

definition default_query :: "string \<Rightarrow> string \<times> string" where
  "default_query ip = ('''', '''')"

text \<open>The first loop of \<open>sort\<close>: the nodes by access switch, in order of first occurrence.\<close>

fun group_by_asw :: "node_topology list \<Rightarrow> (string, node_topology list) dict \<Rightarrow> (string, node_topology list) dict"
where
  "group_by_asw [] d = d"
| "group_by_asw (m # ms) d =
     (let d1 = dict_setdefault (nt_asw m) [] d
      in group_by_asw ms (AList.update (nt_asw m) (dict_get d1 (nt_asw m) [] @ [m]) d1))"

definition store_nodes :: "node_topology list \<Rightarrow> world \<Rightarrow> world" where
  "store_nodes ms w = fold (\<lambda>m. AList.update (nt_node_rank m) m) ms w"

definition dp_topology_sort :: "world \<Rightarrow> world py_result" where
  "dp_topology_sort nodes =
     (case map snd nodes of
        [] \<Rightarrow> Inl StopIteration
      | rank0_node # _ \<Rightarrow>
          let asw_nodes = group_by_asw (map snd nodes) [];
              asw0_nodes = dict_get asw_nodes (nt_asw rank0_node) [];
              rest = AList.delete (nt_asw rank0_node) asw_nodes;
              sorted0 = store_nodes asw0_nodes []
          in Inr (fold (\<lambda>(asw, ms). store_nodes ms) rest sorted0))"

section \<open>The sorter permutes\<close>

definition asw_class :: "string \<Rightarrow> node_topology list \<Rightarrow> node_topology list" where
  "asw_class a ms = filter (\<lambda>m. nt_asw m = a) ms"

text \<open>The switches in order of first occurrence.\<close>

fun asw_keys :: "node_topology list \<Rightarrow> string list \<Rightarrow> string list" where
  "asw_keys [] ks = ks"
| "asw_keys (m # ms) ks = asw_keys ms (if nt_asw m \<in> set ks then ks else ks @ [nt_asw m])"

lemma group_by_asw_lookup:
  "dict_get (group_by_asw ms d) a [] = dict_get d a [] @ asw_class a ms"
  by (induction ms arbitrary: d)
    (auto simp: Let_def asw_class_def dict_setdefault_def dict_get_def update_conv' split: option.splits)

lemma group_by_asw_keys: "map fst (group_by_asw ms d) = asw_keys ms (map fst d)"
proof (induction ms arbitrary: d)
  case (Cons m ms)
  have "map fst (AList.update (nt_asw m) v (dict_setdefault (nt_asw m) [] d)) =
      (if nt_asw m \<in> set (map fst d) then map fst d else map fst d @ [nt_asw m])" for v
  proof (cases "map_of d (nt_asw m)")
    case None
    then have "nt_asw m \<notin> fst ` set d" by (simp add: map_of_eq_None_iff)
    then show ?thesis using None by (simp add: dict_setdefault_def update_keys)
  next
    case (Some x)
    then have "nt_asw m \<in> fst ` set d" by (metis map_of_eq_None_iff option.discI)
    then show ?thesis using Some by (simp add: dict_setdefault_def update_keys)
  qed
  with Cons show ?case by (simp add: Let_def)
qed simp

lemma asw_keys_distinct: "distinct ks \<Longrightarrow> distinct (asw_keys ms ks)"
  by (induction ms arbitrary: ks) auto

lemma asw_keys_set: "set (asw_keys ms ks) = set ks \<union> nt_asw ` set ms"
  by (induction ms arbitrary: ks) auto

definition grouped :: "node_topology list \<Rightarrow> (string, node_topology list) dict" where
  "grouped ms = map (\<lambda>a. (a, asw_class a ms)) (asw_keys ms [])"

lemma group_by_asw_eq: "group_by_asw ms [] = grouped ms"
proof -
  let ?d = "group_by_asw ms []"
  have k: "map fst ?d = asw_keys ms []" by (simp add: group_by_asw_keys)
  then have w: "wf_dict ?d" using asw_keys_distinct [of "[]" ms] by (simp add: wf_dict_def)
  have "snd p = asw_class (fst p) ms" if "p \<in> set ?d" for p
  proof -
    have "map_of ?d (fst p) = Some (snd p)" using that w by (simp add: wf_dict_def)
    then show ?thesis using group_by_asw_lookup [of ms "[]" "fst p"] by (simp add: dict_get_def)
  qed
  then have "map (\<lambda>a. (a, asw_class a ms)) (map fst ?d) = map (\<lambda>p. p) ?d"
    unfolding map_map by (intro map_cong) (auto simp: prod_eq_iff)
  then show ?thesis unfolding grouped_def k [symmetric] by simp
qed

lemma store_nodes_append:
  assumes "distinct (map fst w @ map nt_node_rank ms)"
  shows "store_nodes ms w = w @ map (\<lambda>m. (nt_node_rank m, m)) ms"
  using assms unfolding store_nodes_def
proof (induction ms arbitrary: w)
  case (Cons m ms)
  have "map_of w (nt_node_rank m) = None" using Cons.prems by (auto simp: map_of_eq_None_iff)
  then have "AList.update (nt_node_rank m) m w = w @ [(nt_node_rank m, m)]" by (rule update_new)
  with Cons show ?case by simp
qed simp

lemma store_groups_append:
  assumes "distinct (map fst w @ map nt_node_rank (concat (map snd gs)))"
  shows "fold (\<lambda>(asw, ms). store_nodes ms) gs w =
    w @ map (\<lambda>m. (nt_node_rank m, m)) (concat (map snd gs))"
  using assms
proof (induction gs arbitrary: w)
  case (Cons g gs)
  obtain a ms where g: "g = (a, ms)" by (cases g)
  have "store_nodes ms w = w @ map (\<lambda>m. (nt_node_rank m, m)) ms"
    using Cons.prems g by (intro store_nodes_append) auto
  moreover have "distinct (map fst (w @ map (\<lambda>m. (nt_node_rank m, m)) ms) @
      map nt_node_rank (concat (map snd gs)))"
    using Cons.prems g by (simp add: o_def)
  from Cons.IH [OF this] calculation show ?case using g by simp
qed simp

lemma count_concat: "count (mset (concat xss)) m = sum_list (map (\<lambda>xs. count (mset xs) m) xss)"
  by (induction xss) simp_all

lemma grouped_mset: "mset (concat (map snd (grouped ms))) = mset ms"
proof (rule multiset_eqI)
  fix m
  have d: "distinct (asw_keys ms [])" by (simp add: asw_keys_distinct)
  have "count (mset (concat (map snd (grouped ms)))) m =
      sum_list (map (\<lambda>a. count (mset (asw_class a ms)) m) (asw_keys ms []))"
    unfolding grouped_def count_concat by (simp add: o_def)
  also have "\<dots> = (\<Sum>a\<in>set (asw_keys ms []). count (mset (asw_class a ms)) m)"
    using d by (simp add: sum_list_distinct_conv_sum_set)
  also have "\<dots> = (\<Sum>a\<in>set (asw_keys ms []). if a = nt_asw m then count (mset ms) m else 0)"
    by (rule sum.cong) (auto simp: asw_class_def)
  also have "\<dots> = (if nt_asw m \<in> set (asw_keys ms []) then count (mset ms) m else 0)"
    by (rule sum.delta) simp
  also have "\<dots> = count (mset ms) m"
  proof (cases "m \<in> set ms")
    case False
    then have "count (mset ms) m = 0" by (simp add: count_eq_zero_iff)
    then show ?thesis by simp
  qed (simp add: asw_keys_set)
  finally show "count (mset (concat (map snd (grouped ms)))) m = count (mset ms) m" .
qed

lemma grouped_split:
  assumes "ms = m0 # ms'"
  shows "dict_get (grouped ms) (nt_asw m0) [] = asw_class (nt_asw m0) ms"
    and "grouped ms = (nt_asw m0, asw_class (nt_asw m0) ms) # AList.delete (nt_asw m0) (grouped ms)"
proof -
  have "\<exists>ks'. asw_keys ns (k # ks) = k # ks'" for ns k and ks :: "string list"
    by (induction ns arbitrary: ks) auto
  then obtain ks where ks: "asw_keys ms [] = nt_asw m0 # ks" using assms by fastforce
  have d: "nt_asw m0 \<notin> set ks" using asw_keys_distinct [of "[]" ms] ks by simp
  show "dict_get (grouped ms) (nt_asw m0) [] = asw_class (nt_asw m0) ms"
    by (simp add: grouped_def ks dict_get_def)
  have "AList.delete (nt_asw m0) (map (\<lambda>a. (a, asw_class a ms)) ks) = map (\<lambda>a. (a, asw_class a ms)) ks"
    using d by (intro delete_id) (simp add: image_image)
  then show "grouped ms = (nt_asw m0, asw_class (nt_asw m0) ms) # AList.delete (nt_asw m0) (grouped ms)"
    by (simp add: grouped_def ks AList.delete_eq)
qed

definition world_ok :: "world \<Rightarrow> bool" where
  "world_ok w \<longleftrightarrow> wf_dict w \<and> dict_all (\<lambda>r m. nt_node_rank m = r) w"

lemma world_ok_pairs: "world_ok w \<Longrightarrow> w = map (\<lambda>m. (nt_node_rank m, m)) (map snd w)"
  by (rule nth_equalityI) (auto simp: world_ok_def dict_all_def list_all_length split_def prod_eq_iff)

lemma dp_topology_sort_eq:
  assumes "world_ok w" and "w \<noteq> []"
  shows "dp_topology_sort w = Inr (map (\<lambda>m. (nt_node_rank m, m)) (concat (map snd (grouped (map snd w)))))"
proof -
  let ?ms = "map snd w"
  obtain m0 ms' where m0: "?ms = m0 # ms'" using assms(2) by (cases ?ms) auto
  note g = grouped_split [OF m0]
  have "map nt_node_rank ?ms = map fst w" using assms(1) by (auto simp: world_ok_def dict_all_iff)
  then have d: "distinct (map nt_node_rank ?ms)"
    using assms(1) unfolding world_ok_def wf_dict_def by metis
  have "mset (map nt_node_rank (concat (map snd (grouped ?ms)))) = mset (map nt_node_rank ?ms)"
    using grouped_mset [of ?ms] by (simp only: mset_map)
  then have dg: "distinct (map nt_node_rank (concat (map snd (grouped ?ms))))"
    using d by (metis mset_eq_imp_distinct_iff)
  let ?c0 = "asw_class (nt_asw m0) ?ms" and ?rest = "AList.delete (nt_asw m0) (grouped ?ms)"
  have all: "concat (map snd (grouped ?ms)) = ?c0 @ concat (map snd ?rest)"
    by (subst g(2)) simp
  have "store_nodes ?c0 [] = map (\<lambda>m. (nt_node_rank m, m)) ?c0"
    using dg unfolding all by (subst store_nodes_append) simp_all
  moreover have "fold (\<lambda>(asw, ms). store_nodes ms) ?rest (map (\<lambda>m. (nt_node_rank m, m)) ?c0) =
      map (\<lambda>m. (nt_node_rank m, m)) ?c0 @ map (\<lambda>m. (nt_node_rank m, m)) (concat (map snd ?rest))"
    using dg unfolding all by (intro store_groups_append) (simp add: o_def)
  moreover have "dp_topology_sort w =
      Inr (fold (\<lambda>(asw, ms). store_nodes ms) ?rest (store_nodes (dict_get (grouped ?ms) (nt_asw m0) []) []))"
    unfolding dp_topology_sort_def by (simp only: m0 list.case Let_def group_by_asw_eq)
  ultimately show ?thesis unfolding g(1) all by simp
qed

lemma dp_topology_sort_perm:
  assumes "world_ok w" and "dp_topology_sort w = Inr v"
  shows "mset v = mset w" and "world_ok v" and "v \<noteq> []"
proof -
  have ne: "w \<noteq> []" using assms(2) by (auto simp: dp_topology_sort_def)
  have v: "v = map (\<lambda>m. (nt_node_rank m, m)) (concat (map snd (grouped (map snd w))))"
    using dp_topology_sort_eq [OF assms(1) ne] assms(2) by simp
  have "mset v = image_mset (\<lambda>m. (nt_node_rank m, m)) (mset (concat (map snd (grouped (map snd w)))))"
    unfolding v by (simp only: mset_map)
  also have "\<dots> = mset (map (\<lambda>m. (nt_node_rank m, m)) (map snd w))"
    unfolding grouped_mset by (simp only: mset_map)
  also have "map (\<lambda>m. (nt_node_rank m, m)) (map snd w) = w" using world_ok_pairs [OF assms(1)] by simp
  finally show m: "mset v = mset w" .
  then have "mset (map fst v) = mset (map fst w)" by (simp only: mset_map)
  then have "distinct (map fst v)" using assms(1) mset_eq_imp_distinct_iff
    unfolding world_ok_def wf_dict_def by metis
  moreover have "set v = set w" using m by (metis set_mset_mset)
  ultimately show "world_ok v"
    using assms(1) by (simp add: world_ok_def wf_dict_def dict_all_iff)
  show "v \<noteq> []" using m ne by auto
qed

section \<open>Properties\<close>

text \<open>
  C37. Ranks next to one another share a switch. Sorting a non-empty world returns a reordering of it
  in which the nodes under the first node's access switch come first, the nodes under any one
  switch stand next to one another and keep their order; an empty world raises \<open>StopIteration\<close>.
\<close>

theorem topology_sort_groups:
  assumes "world_ok w"
  shows "(w = [] \<longrightarrow> dp_topology_sort w = Inl StopIteration) \<and>
    (w \<noteq> [] \<longrightarrow> (\<exists>v keys. dp_topology_sort w = Inr v \<and> mset v = mset w \<and> distinct keys \<and>
       hd keys = nt_asw (snd (hd w)) \<and>
       map snd v = concat (map (\<lambda>a. filter (\<lambda>m. nt_asw m = a) (map snd w)) keys)))"
proof (intro conjI impI)
  show "w = [] \<Longrightarrow> dp_topology_sort w = Inl StopIteration" by (simp add: dp_topology_sort_def)
  assume ne: "w \<noteq> []"
  let ?v = "map (\<lambda>m. (nt_node_rank m, m)) (concat (map snd (grouped (map snd w))))"
  have v: "dp_topology_sort w = Inr ?v" by (rule dp_topology_sort_eq [OF assms ne])
  have "map snd ?v = concat (map (\<lambda>a. filter (\<lambda>m. nt_asw m = a) (map snd w)) (asw_keys (map snd w) []))"
    by (simp add: grouped_def o_def asw_class_def del: map_concat)
  moreover have "hd (asw_keys (map snd w) []) = nt_asw (snd (hd w))"
  proof -
    obtain m0 ms' where m0: "map snd w = m0 # ms'" using ne by (cases "map snd w") auto
    have "hd (map fst (grouped (map snd w))) = nt_asw m0" by (subst grouped_split(2) [OF m0]) simp
    then show ?thesis using m0 ne by (cases w) (auto simp: grouped_def o_def)
  qed
  ultimately show "\<exists>v keys. dp_topology_sort w = Inr v \<and> mset v = mset w \<and> distinct keys \<and>
       hd keys = nt_asw (snd (hd w)) \<and>
       map snd v = concat (map (\<lambda>a. filter (\<lambda>m. nt_asw m = a) (map snd w)) keys)"
    using v dp_topology_sort_perm(1) [OF assms v] asw_keys_distinct [OF distinct.simps(1) [THEN iffD2, OF TrueI]]
    by blast
qed

definition demo_topo :: "int \<Rightarrow> string \<Rightarrow> node_topology" where
  "demo_topo r asw = \<lparr>nt_node_id = r, nt_node_rank = r, nt_process_num = 8, nt_node_ip = '''',
     nt_asw = asw, nt_psw = '''', nt_node_group = - 1, nt_node_group_size = 0,
     nt_node_group_id = Some ''''\<rparr>"

theorem topology_sort_groups_witness:
  "\<exists>v. dp_topology_sort [(0, demo_topo 0 ''a''), (1, demo_topo 1 ''b''), (2, demo_topo 2 ''a'')] = Inr v \<and>
     mset v = mset [(0, demo_topo 0 ''a''), (1, demo_topo 1 ''b''), (2, demo_topo 2 ''a'')]"
  using topology_sort_groups [of "[(0, demo_topo 0 ''a''), (1, demo_topo 1 ''b''), (2, demo_topo 2 ''a'')]"]
  by (auto simp: world_ok_def wf_dict_def dict_all_def demo_topo_def)

end
