(* ===== verification/Node_Pairing.thy ===== *)
theory Node_Pairing
  imports Net_Topology
begin

text \<open>
  The groupings of the network check (\<open>_group_nodes\<close> and the four \<open>_group_\<close> methods in
  \<open>dlrover/python/master/elastic_training/rdzv_manager.py\<close>) as functions of the world, the elapsed
  times and the map of node groups, and what each puts into which group. A group is a small world,
  filled by one dictionary store per member.
\<close>

section \<open>Groups\<close>

text \<open>The assignments \<open>group[rank] = self._rdzv_nodes[rank]\<close> for the given ranks of the world, in turn.\<close>

definition mk_group :: "world \<Rightarrow> int list \<Rightarrow> world" where
  "mk_group w ranks = fold (\<lambda>r g. AList.update r (the (map_of w r)) g) ranks []"

text \<open>A group of one: it goes into the last group, or stands alone when there is none.\<close>

definition merge_group :: "world \<Rightarrow> world list \<Rightarrow> world list" where
  "merge_group g gs = (if gs \<noteq> [] then butlast gs @ [dict_merge (last gs) g] else gs @ [g])"

definition entries :: "world \<Rightarrow> int list \<Rightarrow> world" where
  "entries w ranks = map (\<lambda>r. (r, the (map_of w r))) ranks"

section \<open>The two rounds of the plain check\<close>

text \<open>Round 0: neighbours in the order of the world; \<open>group\<close> is the group being filled.\<close>

fun pair_loop :: "world \<Rightarrow> world \<Rightarrow> world list \<Rightarrow> world \<times> world list" where
  "pair_loop [] grp groups = (grp, groups)"
| "pair_loop ((r, m) # items) grp groups =
     (let grp = AList.update r m grp
      in if length grp = 2 then pair_loop items [] (groups @ [grp])
         else pair_loop items grp groups)"

definition group_adjacent :: "world \<Rightarrow> world list" where
  "group_adjacent w =
     (let (grp, groups) = pair_loop w [] []
      in if length grp = 1 then merge_group grp groups else groups)"

text \<open>Round 1: the nodes of the world by elapsed time, the fastest with the slowest.\<close>

function cross_loop :: "world \<Rightarrow> int list \<Rightarrow> int \<Rightarrow> int \<Rightarrow> world \<Rightarrow> world list \<Rightarrow> world \<times> world list" where
  "cross_loop w cur left right grp groups =
     (if right \<ge> left
      then let grp = mk_group w [cur ! nat left, cur ! nat right]
           in cross_loop w cur (left + 1) (right - 1) grp
                (if length grp = 2 then groups @ [grp] else groups)
      else (grp, groups))"
  by pat_completeness auto
termination
  by (relation "measure (\<lambda>(w, cur, left, right, grp, groups). nat (right - left + 1))") auto

declare cross_loop.simps [simp del]

definition timed_nodes :: "(int, rat) dict \<Rightarrow> world \<Rightarrow> int list" where
  "timed_nodes elapsed w = filter (dict_has w) (map fst (sort_key snd elapsed))"

definition group_cross :: "(int, rat) dict \<Rightarrow> world \<Rightarrow> world list" where
  "group_cross elapsed w =
     (let cur = timed_nodes elapsed w;
          (grp, groups) = cross_loop w cur 0 (int (length cur) - 1) [] []
      in if length grp = 1 then merge_group grp groups else groups)"

section \<open>The four pairings of the group check\<close>

definition note_group :: "int \<times> node_topology \<Rightarrow> (int, int list) dict \<Rightarrow> (int, int list) dict" where
  "note_group p d =
     (let group_idx = nt_node_group (snd p)
      in if group_idx < 0 then d
         else let d1 = dict_setdefault group_idx [] d
              in AList.update group_idx (dict_get d1 group_idx [] @ [fst p]) d1)"

definition build_node_group_map :: "world \<Rightarrow> (int, int list) dict" where
  "build_node_group_map w = map (\<lambda>(g, ranks). (g, sort ranks)) (fold note_group w [])"

text \<open>Neighbours in each node group: \<open>range(0, len(ranks), 2)\<close>.\<close>

fun adj_pairs :: "int list \<Rightarrow> int list list" where
  "adj_pairs (a # b # ranks) = [a, b] # adj_pairs ranks"
| "adj_pairs [a] = [[a]]"
| "adj_pairs [] = []"

definition group_intra_initial :: "world \<Rightarrow> (int, int list) dict \<Rightarrow> world list" where
  "group_intra_initial w gm = concat (map (\<lambda>(g, ranks). map (mk_group w) (adj_pairs ranks)) gm)"

definition by_time :: "(int, rat) dict \<Rightarrow> int list \<Rightarrow> int list" where
  "by_time elapsed ranks = sort_key (\<lambda>r. dict_get elapsed r 0) ranks"

function diag_loop :: "world \<Rightarrow> int list \<Rightarrow> int \<Rightarrow> int \<Rightarrow> world list \<Rightarrow> int \<times> int \<times> world list" where
  "diag_loop w cur left right groups =
     (if left < right
      then diag_loop w cur (left + 1) (right - 1)
             (groups @ [mk_group w [cur ! nat left, cur ! nat right]])
      else (left, right, groups))"
  by pat_completeness auto
termination
  by (relation "measure (\<lambda>(w, cur, left, right, groups). nat (right - left))") auto

declare diag_loop.simps [simp del]

definition diag_group :: "world \<Rightarrow> (int, rat) dict \<Rightarrow> int list \<Rightarrow> world list \<Rightarrow> world list" where
  "diag_group w elapsed ranks groups =
     (let cur = by_time elapsed ranks;
          (left, right, groups) = diag_loop w cur 0 (int (length cur) - 1) groups
      in if left = right then merge_group (mk_group w [cur ! nat left]) groups else groups)"

definition group_intra_diagnostic :: "world \<Rightarrow> (int, rat) dict \<Rightarrow> (int, int list) dict \<Rightarrow> world list" where
  "group_intra_diagnostic w elapsed gm = fold (\<lambda>(g, ranks). diag_group w elapsed ranks) gm []"

text \<open>
  The last two take the nodes at one position of the rows after the other; a position with one node
  joins the previous group.
\<close>

definition add_column :: "world \<Rightarrow> int list \<Rightarrow> world list \<Rightarrow> world list" where
  "add_column w ranks groups =
     (let grp = mk_group w ranks
      in if length grp > 1 then groups @ [grp]
         else if grp \<noteq> [] then merge_group grp groups else groups)"

definition column :: "int list list \<Rightarrow> nat \<Rightarrow> int list" where
  "column rows pos = map (\<lambda>ranks. ranks ! pos) (filter (\<lambda>ranks. pos < length ranks) rows)"

definition group_columns :: "world \<Rightarrow> int list list \<Rightarrow> nat \<Rightarrow> world list" where
  "group_columns w rows max_size = fold (\<lambda>pos. add_column w (column rows pos)) [0..<max_size] []"

definition group_lists :: "(int, int list) dict \<Rightarrow> int list list" where
  "group_lists gm = map (\<lambda>g. dict_get gm g []) (sort (map fst gm))"

definition max_group_size :: "(int, int list) dict \<Rightarrow> nat" where
  "max_group_size gm = Max (length ` set (group_lists gm))"

definition group_inter_initial :: "world \<Rightarrow> (int, int list) dict \<Rightarrow> world list" where
  "group_inter_initial w gm =
     (if gm = [] then [] else group_columns w (group_lists gm) (max_group_size gm))"

definition shift_ranks :: "nat \<Rightarrow> int list \<Rightarrow> int list" where
  "shift_ranks i ranks =
     (let shift = (if ranks \<noteq> [] then i mod length ranks else 0)
      in drop shift ranks @ take shift ranks)"

definition shifted_lists :: "(int, rat) dict \<Rightarrow> (int, int list) dict \<Rightarrow> int list list" where
  "shifted_lists elapsed gm =
     map (\<lambda>(i, ranks). shift_ranks i (by_time elapsed ranks)) (enumerate 0 (group_lists gm))"

definition group_inter_diagnostic :: "world \<Rightarrow> (int, rat) dict \<Rightarrow> (int, int list) dict \<Rightarrow> world list" where
  "group_inter_diagnostic w elapsed gm =
     (if gm = [] then [] else group_columns w (shifted_lists elapsed gm) (max_group_size gm))"

section \<open>Groups hold the ranks they are given\<close>

lemma mk_group_eq:
  assumes "distinct ranks"
  shows "mk_group w ranks = entries w ranks"
proof -
  have "fold (\<lambda>r g. AList.update r (the (map_of w r)) g) ranks d = d @ entries w ranks"
    if "distinct ranks" "set ranks \<inter> fst ` set d = {}" for d
    using that
  proof (induction ranks arbitrary: d)
    case (Cons r ranks)
    then have "AList.update r (the (map_of w r)) d = d @ [(r, the (map_of w r))]"
      by (intro update_new) (auto simp: map_of_eq_None_iff)
    then show ?case using Cons by (auto simp: entries_def)
  qed (simp add: entries_def)
  from this [of "[]"] assms show ?thesis by (simp add: mk_group_def)
qed

lemma mk_group_pair: "mk_group w [a, b] = (if a = b then entries w [a] else entries w [a, b])"
  by (simp add: mk_group_eq mk_group_def entries_def)

lemma entries_simps [simp]:
  "entries w [] = []" "entries w (r # rs) = (r, the (map_of w r)) # entries w rs"
  "entries w (rs @ ts) = entries w rs @ entries w ts"
  "length (entries w rs) = length rs" "map fst (entries w rs) = rs" "fst ` set (entries w rs) = set rs"
  by (auto simp: entries_def o_def image_image)

lemma entries_of_keys: "wf_dict w \<Longrightarrow> set d \<subseteq> set w \<Longrightarrow> entries w (map fst d) = d"
  by (induction d) (auto simp: wf_dict_mem_map_of)

lemma mset_entries: "mset rs = mset ts \<Longrightarrow> mset (entries w rs) = mset (entries w ts)"
  by (simp add: entries_def)

text \<open>Which ranks a list of groups holds, with the entries of the world.\<close>

definition tiles :: "world \<Rightarrow> int list \<Rightarrow> world list \<Rightarrow> bool" where
  "tiles w ranks gs \<longleftrightarrow> mset (concat gs) = mset (entries w ranks)"

lemma tiles_Nil [simp]: "tiles w [] []"
  by (simp add: tiles_def)

lemma tiles_mset: "tiles w rs gs \<Longrightarrow> mset rs = mset ts \<Longrightarrow> tiles w ts gs"
  unfolding tiles_def using mset_entries by metis

lemma tiles_add: "tiles w rs gs \<Longrightarrow> tiles w (rs @ ts) (gs @ [entries w ts])"
  by (simp add: tiles_def)

lemma tiles_append: "tiles w rs gs \<Longrightarrow> tiles w ts hs \<Longrightarrow> tiles w (rs @ ts) (gs @ hs)"
  by (simp add: tiles_def)

lemma tiles_keys: "tiles w rs gs \<Longrightarrow> g \<in> set gs \<Longrightarrow> fst ` set g \<subseteq> set rs"
proof -
  assume t: "tiles w rs gs" and g: "g \<in> set gs"
  have "set (concat gs) = set (entries w rs)" using t unfolding tiles_def by (metis set_mset_mset)
  then have "fst ` set (concat gs) = set rs" by simp
  then show ?thesis using g by auto
qed

lemma merge_group_new:
  assumes t: "tiles w rs gs" and d: "distinct ts" "set rs \<inter> set ts = {}"
  shows "merge_group (entries w ts) gs =
      (if gs = [] then [entries w ts] else butlast gs @ [last gs @ entries w ts])"
    and "tiles w (rs @ ts) (merge_group (entries w ts) gs)"
proof -
  have "dict_merge (last gs) (entries w ts) = last gs @ entries w ts" if "gs \<noteq> []"
    using tiles_keys [OF t, of "last gs"] that d by (intro dict_merge_append) auto
  then show eq: "merge_group (entries w ts) gs =
      (if gs = [] then [entries w ts] else butlast gs @ [last gs @ entries w ts])"
    by (simp add: merge_group_def)
  show "tiles w (rs @ ts) (merge_group (entries w ts) gs)"
  proof (cases "gs = []")
    case True
    then show ?thesis using t unfolding eq tiles_def by simp
  next
    case False
    then have "concat gs = concat (butlast gs) @ last gs"
      by (metis append_butlast_last_id concat_append concat.simps append_Nil2)
    then show ?thesis using t False unfolding eq tiles_def by (simp add: ac_simps)
  qed
qed

definition put_last :: "'a list \<Rightarrow> 'a list list \<Rightarrow> 'a list list" where
  "put_last x gs = (if gs = [] then [x] else butlast gs @ [last gs @ x])"

lemma merge_group_put_last:
  assumes "tiles w rs gs" and "distinct ts" "set rs \<inter> set ts = {}"
  shows "merge_group (entries w ts) gs = put_last (entries w ts) gs"
  using merge_group_new(1) [OF assms] by (simp add: put_last_def)

lemma put_last_facts:
  assumes "\<forall>g\<in>set gs. length g = 2" and "gs \<noteq> []"
  shows "length (put_last [x] gs) = length gs" and "\<forall>g\<in>set (put_last [x] gs). length g \<in> {2, 3}"
    and "i < length gs \<Longrightarrow> take 2 (put_last [x] gs ! i) = gs ! i"
proof -
  obtain hs h where gs: "gs = hs @ [h]" using assms(2) by (metis rev_exhaust)
  show "length (put_last [x] gs) = length gs" "\<forall>g\<in>set (put_last [x] gs). length g \<in> {2, 3}"
    using assms by (auto simp: put_last_def gs)
  show "take 2 (put_last [x] gs ! i) = gs ! i" if "i < length gs"
    using assms that by (auto simp: put_last_def gs nth_append less_Suc_eq)
qed

section \<open>Neighbours\<close>

fun chunk2 :: "'a list \<Rightarrow> 'a list list" where
  "chunk2 (a # b # xs) = [a, b] # chunk2 xs"
| "chunk2 [a] = []"
| "chunk2 [] = []"

lemma chunk2_facts:
  "length (chunk2 xs) = length xs div 2" "\<forall>g\<in>set (chunk2 xs). length g = 2"
  "i < length xs div 2 \<Longrightarrow> chunk2 xs ! i = [xs ! (2 * i), xs ! (2 * i + 1)]"
  "concat (chunk2 xs) = (if odd (length xs) then butlast xs else xs)"
proof -
  show "length (chunk2 xs) = length xs div 2" "\<forall>g\<in>set (chunk2 xs). length g = 2"
    "concat (chunk2 xs) = (if odd (length xs) then butlast xs else xs)"
    by (induction xs rule: chunk2.induct) auto
  show "chunk2 xs ! i = [xs ! (2 * i), xs ! (2 * i + 1)]" if "i < length xs div 2"
    using that
  proof (induction xs arbitrary: i rule: chunk2.induct)
    case (1 a b xs)
    then show ?case by (cases i) auto
  qed simp_all
qed

lemma pair_loop_eq:
  "wf_dict w \<Longrightarrow> pair_loop w [] gs = (if odd (length w) then [last w] else [], gs @ chunk2 w)"
proof (induction w arbitrary: gs rule: chunk2.induct)
  case (1 a b xs)
  obtain r m r' m' where ab: "a = (r, m)" "b = (r', m')" by fastforce
  then show ?case using 1 by (auto simp: wf_dict_def)
next
  case (2 a)
  then show ?case by (cases a) simp
qed simp

lemma group_adjacent_eq:
  assumes "wf_dict w"
  shows "group_adjacent w = (if odd (length w) then put_last [last w] (chunk2 w) else chunk2 w)"
    and "tiles w (map fst w) (group_adjacent w)"
proof -
  have e: "entries w (map fst w) = w" using assms by (rule entries_of_keys) simp
  have even: "tiles w (map fst w) (chunk2 w)" if "even (length w)"
    using that e by (simp add: tiles_def chunk2_facts(4))
  have odd: "group_adjacent w = put_last [last w] (chunk2 w) \<and> tiles w (map fst w) (group_adjacent w)"
    if o: "odd (length w)"
  proof -
    obtain v r m where w: "w = v @ [(r, m)]" using o by (metis rev_exhaust list.size(3) even_zero prod.exhaust)
    have v: "entries w (map fst v) = v" using assms by (rule entries_of_keys) (auto simp: w)
    have l: "[last w] = entries w [r]" using e by (simp add: w)
    have t: "tiles w (map fst v) (chunk2 w)" using o v by (simp add: tiles_def chunk2_facts(4)) (simp add: w)
    have d: "set (map fst v) \<inter> set [r] = {}" using assms by (auto simp: w wf_dict_def)
    have "group_adjacent w = merge_group (entries w [r]) (chunk2 w)"
      using pair_loop_eq [OF assms, of "[]"] o by (simp add: group_adjacent_def l)
    then show ?thesis
      using merge_group_put_last [OF t _ d] merge_group_new(2) [OF t _ d] unfolding l by (simp add: w)
  qed
  show "group_adjacent w = (if odd (length w) then put_last [last w] (chunk2 w) else chunk2 w)"
    "tiles w (map fst w) (group_adjacent w)"
    using odd even pair_loop_eq [OF assms, of "[]"] by (auto simp: group_adjacent_def)
qed

section \<open>The fastest with the slowest\<close>

definition ends :: "'a list \<Rightarrow> nat \<Rightarrow> 'a list list" where
  "ends xs i = map (\<lambda>j. [xs ! j, xs ! (length xs - 1 - j)]) [i..<length xs div 2]"

lemma ends_step: "i < length xs div 2 \<Longrightarrow> ends xs i = [xs ! i, xs ! (length xs - 1 - i)] # ends xs (Suc i)"
  by (simp add: ends_def upt_conv_Cons)

lemma ends_done: "length xs div 2 \<le> i \<Longrightarrow> ends xs i = []"
  by (simp add: ends_def)

lemma nat_mirror: "i < n \<Longrightarrow> nat (int n - 1 - int i) = n - 1 - i"
  by simp

lemma cross_loop_eq:
  assumes d: "distinct cur" and n: "n = length cur" and g: "length g \<noteq> 1"
  shows "\<exists>g'. cross_loop w cur (int i) (int n - 1 - int i) g gs = (g', gs @ map (entries w) (ends cur i)) \<and>
    (if odd n \<and> i \<le> n div 2 then g' = entries w [cur ! (n div 2)] else length g' \<noteq> 1)"
  using g
proof (induction "n - i" arbitrary: i g gs rule: less_induct)
  case less
  show ?case
  proof (cases "2 * i + 1 \<le> n")
    case False
    then have "\<not> int n - 1 - int i \<ge> int i" by linarith
    moreover have "ends cur i = []" using False n by (intro ends_done) linarith
    moreover have "\<not> (odd n \<and> i \<le> n div 2)" using False by presburger
    ultimately show ?thesis using less.prems by (subst cross_loop.simps) auto
  next
    case True
    let ?g = "mk_group w [cur ! i, cur ! (n - 1 - i)]"
    let ?gs = "if length ?g = 2 then gs @ [?g] else gs"
    have step: "cross_loop w cur (int i) (int n - 1 - int i) g gs =
        cross_loop w cur (int (Suc i)) (int n - 1 - int (Suc i)) ?g ?gs"
      using True nat_mirror [of i n] by (subst cross_loop.simps) (simp add: Let_def algebra_simps)
    have less_n: "n - Suc i < n - i" using True by simp
    have eq: "cur ! i = cur ! (n - 1 - i) \<longleftrightarrow> i = n - 1 - i"
      using d n True by (intro nth_eq_iff_index_eq) auto
    show ?thesis
    proof (cases "2 * i + 1 = n")
      case True
      then have i: "i = n - 1 - i" "n div 2 = i" "odd n" by auto
      then have g1: "?g = entries w [cur ! (n div 2)]" using eq by (simp add: mk_group_pair)
      have "\<not> int n - 1 - int (Suc i) \<ge> int (Suc i)" using True by linarith
      then have "cross_loop w cur (int (Suc i)) (int n - 1 - int (Suc i)) ?g ?gs = (?g, gs)"
        using g1 by (subst cross_loop.simps) simp
      then show ?thesis using step g1 i n by (simp add: ends_done)
    next
      case False
      with True have i: "i \<noteq> n - 1 - i" "i < length cur div 2" using n by auto
      then have g1: "?g = entries w [cur ! i, cur ! (n - 1 - i)]" using eq by (simp add: mk_group_pair)
      then obtain g' where g': "cross_loop w cur (int (Suc i)) (int n - 1 - int (Suc i)) ?g ?gs =
          (g', ?gs @ map (entries w) (ends cur (Suc i)))"
        "if odd n \<and> Suc i \<le> n div 2 then g' = entries w [cur ! (n div 2)] else length g' \<noteq> 1"
        using less.hyps [OF less_n, of ?g ?gs] by auto
      then show ?thesis using step g1 i n by (simp add: ends_step)
    qed
  qed
qed

lemma diag_loop_eq:
  assumes d: "distinct cur" and n: "n = length cur" and i: "i \<le> n div 2"
  shows "diag_loop w cur (int i) (int n - 1 - int i) gs =
    (int (n div 2), int n - 1 - int (n div 2), gs @ map (entries w) (ends cur i))"
  using i
proof (induction "n - i" arbitrary: i gs rule: less_induct)
  case less
  show ?case
  proof (cases "i < n div 2")
    case False
    then have "i = n div 2" using less.prems by simp
    then show ?thesis using n by (subst diag_loop.simps) (auto simp: ends_done)
  next
    case True
    have eq: "cur ! i = cur ! (n - 1 - i) \<longleftrightarrow> i = n - 1 - i"
      using d n True by (intro nth_eq_iff_index_eq) auto
    have g: "mk_group w [cur ! i, cur ! (n - 1 - i)] = entries w [cur ! i, cur ! (n - 1 - i)]"
      using True eq by (auto simp: mk_group_pair)
    have "diag_loop w cur (int i) (int n - 1 - int i) gs =
        diag_loop w cur (int (Suc i)) (int n - 1 - int (Suc i)) (gs @ [mk_group w [cur ! i, cur ! (n - 1 - i)]])"
    proof -
      have "int i < int n - 1 - int i" "nat (int n - 1 - int i) = n - 1 - i" using True by linarith+
      then show ?thesis by (subst diag_loop.simps) (simp add: algebra_simps)
    qed
    also have "\<dots> = (int (n div 2), int n - 1 - int (n div 2), gs @ map (entries w) (ends cur i))"
      using less.hyps [of "Suc i"] True n unfolding g by (simp add: ends_step)
    finally show ?thesis .
  qed
qed

lemma mset_concat_pairs:
  "mset (concat (map (\<lambda>j. [f j, h j]) js)) = image_mset f (mset js) + image_mset h (mset js)"
  by (induction js) auto

lemma mirror_upt: "map (\<lambda>j. n - 1 - j) [0..<k] = rev [n - k..<n]" if "k \<le> n" for n k :: nat
  using that
proof (induction k)
  case (Suc k)
  then have "[n - Suc k..<n] = (n - Suc k) # [n - k..<n]"
    by (metis Suc_diff_Suc Suc_le_lessD upt_conv_Cons diff_less zero_less_Suc less_le_trans)
  then show ?case using Suc by simp
qed simp

lemma ends_mset:
  "mset (concat (ends xs 0)) + (if odd (length xs) then {#xs ! (length xs div 2)#} else {#}) = mset xs"
proof -
  let ?n = "length xs" and ?h = "length xs div 2"
  have "image_mset (\<lambda>j. xs ! (?n - 1 - j)) (mset [0..<?h]) = mset (map ((!) xs) (map (\<lambda>j. ?n - 1 - j) [0..<?h]))"
    by (simp add: image_mset.compositionality o_def)
  also have "\<dots> = mset (map ((!) xs) [?n - ?h..<?n])" by (subst mirror_upt) (simp_all add: rev_map)
  finally have "mset (concat (ends xs 0)) = mset (map ((!) xs) ([0..<?h] @ [?n - ?h..<?n]))"
    unfolding ends_def mset_concat_pairs by (simp only: mset_append map_append mset_map)
  moreover have "mset ([0..<?h] @ [?n - ?h..<?n]) + (if odd ?n then {#?h#} else {#}) = mset [0..<?n]"
  proof (cases "odd ?n")
    case True
    then have "?n - ?h = Suc ?h" "?h < ?n" by presburger+
    then have "[0..<?n] = [0..<?h] @ ?h # [?n - ?h..<?n]"
      by (metis le_add_same_cancel1 less_imp_le upt_add_eq_append upt_conv_Cons le_add_diff_inverse zero_le)
    then show ?thesis using True by simp
  next
    case False
    then have "?n - ?h = ?h" "?h \<le> ?n" by presburger+
    then have "[0..<?n] = [0..<?h] @ [?n - ?h..<?n]"
      by (metis upt_add_eq_append le_add_diff_inverse zero_le)
    then show ?thesis using False by simp
  qed
  from arg_cong [OF this, of "image_mset ((!) xs)"]
  have "mset (map ((!) xs) ([0..<?h] @ [?n - ?h..<?n])) + (if odd ?n then {#xs ! ?h#} else {#}) =
      mset (map ((!) xs) [0..<?n])"
    by (cases "odd ?n") (simp_all only: mset_map image_mset_union image_mset_single image_mset_empty if_True if_False not_False_eq_True)
  ultimately show ?thesis by (simp add: map_nth)
qed

lemma ends_facts:
  "length (ends xs 0) = length xs div 2" "\<forall>g\<in>set (ends xs 0). length g = 2"
  "i < length xs div 2 \<Longrightarrow> ends xs 0 ! i = [xs ! i, xs ! (length xs - 1 - i)]"
  by (auto simp: ends_def)

lemma concat_entries: "concat (map (entries w) rss) = entries w (concat rss)"
  by (induction rss) auto

lemma tiles_entries: "tiles w (concat rss) (map (entries w) rss)"
  by (simp add: tiles_def concat_entries)

text \<open>Both ends of the list paired up, the middle of an odd list with the last pair.\<close>

definition cross :: "'a list \<Rightarrow> 'a list list" where
  "cross xs = (if odd (length xs) then put_last [xs ! (length xs div 2)] (ends xs 0) else ends xs 0)"

lemma cross_tiles_onto:
  assumes t: "tiles w rs gs" and d: "distinct (rs @ cur)"
  defines "h \<equiv> length cur div 2"
  shows "tiles w (rs @ cur)
    (if odd (length cur) then merge_group (entries w [cur ! h]) (gs @ map (entries w) (ends cur 0))
     else gs @ map (entries w) (ends cur 0))"
proof -
  let ?e = "concat (ends cur 0)"
  have t1: "tiles w (rs @ ?e) (gs @ map (entries w) (ends cur 0))"
    by (rule tiles_append [OF t tiles_entries])
  have m: "mset ?e + (if odd (length cur) then {#cur ! h#} else {#}) = mset cur"
    unfolding h_def by (rule ends_mset)
  show ?thesis
  proof (cases "odd (length cur)")
    case False
    then have "mset (rs @ ?e) = mset (rs @ cur)" using m by simp
    then show ?thesis using tiles_mset [OF t1] False by simp
  next
    case True
    then have m': "mset ((rs @ ?e) @ [cur ! h]) = mset (rs @ cur)" using m by simp
    then have "distinct ((rs @ ?e) @ [cur ! h])" using d by (metis mset_eq_imp_distinct_iff)
    then have "set (rs @ ?e) \<inter> set [cur ! h] = {}" by auto
    from tiles_mset [OF merge_group_new(2) [OF t1 _ this] m'] True show ?thesis by simp
  qed
qed

lemma group_cross_eq:
  fixes w :: world
  assumes "wf_dict elapsed"
  defines "cur \<equiv> timed_nodes elapsed w"
  shows "group_cross elapsed w = map (entries w) (cross cur)" and "tiles w cur (group_cross elapsed w)"
    and "distinct cur" and "set cur = {r. dict_has elapsed r \<and> dict_has w r}"
proof -
  let ?n = "length cur"
  have "mset (map fst (sort_key snd elapsed)) = mset (map fst elapsed)" by simp
  then have "distinct (map fst (sort_key snd elapsed))"
    using assms(1) mset_eq_imp_distinct_iff unfolding wf_dict_def by blast
  then show d: "distinct cur" by (simp add: cur_def timed_nodes_def)
  show "set cur = {r. dict_has elapsed r \<and> dict_has w r}"
    by (auto simp: cur_def timed_nodes_def dict_has_iff)
  obtain g' where g': "cross_loop w cur 0 (int ?n - 1) [] [] = (g', map (entries w) (ends cur 0))"
    "if odd ?n then g' = entries w [cur ! (?n div 2)] else length g' \<noteq> 1"
    using cross_loop_eq [OF d refl, of "[]" w 0 "[]"] by auto
  have eq: "group_cross elapsed w = (if odd ?n
      then merge_group (entries w [cur ! (?n div 2)]) (map (entries w) (ends cur 0))
      else map (entries w) (ends cur 0))"
    using g' unfolding group_cross_def Let_def cur_def [symmetric] by (cases "odd ?n") auto
  then show "tiles w cur (group_cross elapsed w)"
    using cross_tiles_onto [OF tiles_Nil, of cur w] d by (simp only: append_Nil)
  have "distinct (concat (ends cur 0) @ [cur ! (?n div 2)])" if "odd ?n"
  proof -
    have "mset (concat (ends cur 0) @ [cur ! (?n div 2)]) = mset cur" using ends_mset [of cur] that by simp
    then show ?thesis using d by (metis mset_eq_imp_distinct_iff)
  qed
  then have "merge_group (entries w [cur ! (?n div 2)]) (map (entries w) (ends cur 0)) =
      put_last (entries w [cur ! (?n div 2)]) (map (entries w) (ends cur 0))" if "odd ?n"
    using that by (intro merge_group_put_last [OF tiles_entries]) auto
  then show "group_cross elapsed w = map (entries w) (cross cur)"
    unfolding eq cross_def by (auto simp: put_last_def map_butlast last_map)
qed

section \<open>Pairings by node group\<close>

lemma mset_by_time [simp]: "mset (by_time elapsed ranks) = mset ranks"
  by (simp add: by_time_def)

lemma length_by_time [simp]: "length (by_time elapsed ranks) = length ranks"
  by (simp add: by_time_def)

lemma concat_adj_pairs: "concat (adj_pairs ranks) = ranks"
  by (induction ranks rule: adj_pairs.induct) auto

lemma distinct_in_concat: "distinct (concat xss) \<Longrightarrow> xs \<in> set xss \<Longrightarrow> distinct xs"
  by (induction xss) auto

lemma mk_groups_eq: "distinct (concat rss) \<Longrightarrow> map (mk_group w) rss = map (entries w) rss"
  using distinct_in_concat [of rss] mk_group_eq by auto

lemma intra_initial_tiles:
  assumes "distinct (concat (map snd gm))"
  shows "tiles w (concat (map snd gm)) (group_intra_initial w gm)"
  using assms
proof (induction gm)
  case (Cons p gm)
  obtain g ranks where p: "p = (g, ranks)" by fastforce
  have "map (mk_group w) (adj_pairs ranks) = map (entries w) (adj_pairs ranks)"
    using Cons.prems p by (intro mk_groups_eq) (simp add: concat_adj_pairs)
  then have "tiles w ranks (map (mk_group w) (adj_pairs ranks))"
    using tiles_entries [of w "adj_pairs ranks"] by (simp only: concat_adj_pairs)
  with Cons p show ?case by (auto simp: group_intra_initial_def intro: tiles_append)
qed (simp add: group_intra_initial_def)

lemma diag_group_tiles:
  assumes t: "tiles w rs gs" and d: "distinct (rs @ ranks)"
  shows "tiles w (rs @ ranks) (diag_group w elapsed ranks gs)"
proof -
  let ?cur = "by_time elapsed ranks" and ?h = "length (by_time elapsed ranks) div 2"
  have m: "mset (rs @ ?cur) = mset (rs @ ranks)" by simp
  then have d': "distinct (rs @ ?cur)" using d by (metis mset_eq_imp_distinct_iff)
  have l: "diag_loop w ?cur 0 (int (length ?cur) - 1) gs =
      (int ?h, int (length ?cur) - 1 - int ?h, gs @ map (entries w) (ends ?cur 0))"
    using diag_loop_eq [of ?cur "length ?cur" 0 w gs] d' by simp
  have o: "int ?h = int (length ?cur) - 1 - int ?h \<longleftrightarrow> odd (length ?cur)" by presburger
  have "diag_group w elapsed ranks gs =
     (if odd (length ?cur) then merge_group (entries w [?cur ! ?h]) (gs @ map (entries w) (ends ?cur 0))
      else gs @ map (entries w) (ends ?cur 0))"
    unfolding diag_group_def Let_def l using o by (simp add: mk_group_eq)
  then show ?thesis using tiles_mset [OF cross_tiles_onto [OF t d'] m] by simp
qed

lemma intra_diagnostic_tiles:
  assumes "distinct (concat (map snd gm))"
  shows "tiles w (concat (map snd gm)) (group_intra_diagnostic w elapsed gm)"
proof -
  have "tiles w (rs @ concat (map snd gm)) (fold (\<lambda>(g, ranks). diag_group w elapsed ranks) gm gs)"
    if "tiles w rs gs" "distinct (rs @ concat (map snd gm))" for rs gs
    using that
  proof (induction gm arbitrary: rs gs)
    case (Cons p gm)
    obtain g ranks where p: "p = (g, ranks)" by fastforce
    have "tiles w (rs @ ranks) (diag_group w elapsed ranks gs)"
      using Cons.prems p by (intro diag_group_tiles) auto
    from Cons.IH [OF this] Cons.prems p show ?case by simp
  qed simp
  from this [OF tiles_Nil] assms show ?thesis by (simp add: group_intra_diagnostic_def)
qed

lemma add_column_tiles:
  assumes t: "tiles w rs gs" and d: "distinct (rs @ ranks)"
  shows "tiles w (rs @ ranks) (add_column w ranks gs)"
proof -
  have "mk_group w ranks = entries w ranks" using d by (simp add: mk_group_eq)
  then have "add_column w ranks gs =
      (if 1 < length ranks then gs @ [entries w ranks]
       else if ranks \<noteq> [] then merge_group (entries w ranks) gs else gs)"
    by (auto simp: add_column_def Let_def entries_def)
  then show ?thesis
    using t tiles_add [OF t, of ranks] merge_group_new(2) [OF t, of ranks] d by auto
qed

lemma add_columns_tiles:
  assumes "tiles w rs gs" and "distinct (rs @ concat (map (column rows) ps))"
  shows "tiles w (rs @ concat (map (column rows) ps)) (fold (\<lambda>pos. add_column w (column rows pos)) ps gs)"
  using assms
proof (induction ps arbitrary: rs gs)
  case (Cons pos ps)
  have "tiles w (rs @ column rows pos) (add_column w (column rows pos) gs)"
    using Cons.prems by (intro add_column_tiles) auto
  from Cons.IH [OF this] Cons.prems show ?case by simp
qed simp

lemma concat_map_append_mset:
  "mset (concat (map (\<lambda>p. f p @ h p) ps)) = mset (concat (map f ps)) + mset (concat (map h ps))"
  by (induction ps) (auto simp: ac_simps)

lemma concat_positions:
  "length ranks \<le> n \<Longrightarrow> concat (map (\<lambda>p. if p < length ranks then [ranks ! p] else []) [0..<n]) = ranks"
proof -
  have take: "concat (map (\<lambda>p. if p < length ranks then [ranks ! p] else []) [0..<n]) = take n ranks"
    by (induction n) (auto simp: take_Suc_conv_app_nth)
  assume "length ranks \<le> n"
  then show ?thesis by (simp add: take)
qed

lemma columns_mset:
  assumes "\<forall>ranks\<in>set rows. length ranks \<le> n"
  shows "mset (concat (map (column rows) [0..<n])) = mset (concat rows)"
  using assms
proof (induction rows)
  case (Cons ranks rows)
  have "column (ranks # rows) = (\<lambda>p. (if p < length ranks then [ranks ! p] else []) @ column rows p)"
    by (rule ext) (simp add: column_def)
  then show ?case using Cons concat_positions [of ranks n] by (simp add: concat_map_append_mset)
qed (simp add: column_def)

lemma group_columns_tiles:
  assumes "distinct (concat rows)" and "\<forall>ranks\<in>set rows. length ranks \<le> n"
  shows "tiles w (concat rows) (group_columns w rows n)"
proof -
  note m = columns_mset [OF assms(2)]
  then have "distinct (concat (map (column rows) [0..<n]))"
    using assms(1) by (metis mset_eq_imp_distinct_iff)
  then have "tiles w (concat (map (column rows) [0..<n])) (group_columns w rows n)"
    using add_columns_tiles [OF tiles_Nil, of rows "[0..<n]" w] by (simp add: group_columns_def)
  then show ?thesis using m by (rule tiles_mset)
qed

lemma group_lists_mset:
  assumes "wf_dict gm"
  shows "mset (concat (group_lists gm)) = mset (concat (map snd gm))"
proof -
  have "map (\<lambda>g. dict_get gm g []) (map fst gm) = map snd gm"
  proof -
    have "dict_get gm g [] = ranks" if "(g, ranks) \<in> set gm" for g ranks
      using that assms by (simp add: wf_dict_mem_map_of dict_get_def)
    then show ?thesis by auto
  qed
  moreover have "mset (group_lists gm) = mset (map (\<lambda>g. dict_get gm g []) (map fst gm))"
    unfolding group_lists_def mset_map by simp
  ultimately show ?thesis by (metis mset_concat mset_map sum_mset_sum_list)
qed

lemma mset_shift_ranks [simp]: "mset (shift_ranks i ranks) = mset ranks"
proof -
  have "mset (drop k ranks @ take k ranks) = mset ranks" for k
    by (metis append_take_drop_id mset_append union_commute)
  then show ?thesis unfolding shift_ranks_def Let_def .
qed

lemma length_shift_ranks [simp]: "length (shift_ranks i ranks) = length ranks"
  by (metis mset_shift_ranks size_mset)

lemma shifted_lists_mset:
  "mset (concat (shifted_lists elapsed gm)) = mset (concat (group_lists gm))"
  "length ` set (shifted_lists elapsed gm) = length ` set (group_lists gm)"
proof -
  have "mset (concat (map (\<lambda>(i, ranks). shift_ranks i (by_time elapsed ranks)) (enumerate k rows))) =
      mset (concat rows)" for k rows
    by (induction rows arbitrary: k) auto
  then show "mset (concat (shifted_lists elapsed gm)) = mset (concat (group_lists gm))"
    by (simp add: shifted_lists_def)
  have "length ` set (map (\<lambda>(i, ranks). shift_ranks i (by_time elapsed ranks)) (enumerate k rows)) =
      length ` set rows" for k rows
    by (induction rows arbitrary: k) auto
  then show "length ` set (shifted_lists elapsed gm) = length ` set (group_lists gm)"
    by (simp add: shifted_lists_def)
qed

lemma max_group_size_ge: "ranks \<in> set (group_lists gm) \<Longrightarrow> length ranks \<le> max_group_size gm"
  by (simp add: max_group_size_def)

lemma inter_tiles:
  assumes "wf_dict gm" and "distinct (concat (map snd gm))"
  shows "tiles w (concat (map snd gm)) (group_inter_initial w gm)"
    and "tiles w (concat (map snd gm)) (group_inter_diagnostic w elapsed gm)"
proof -
  note m = group_lists_mset [OF assms(1)]
  have d: "distinct (concat (group_lists gm))" using m assms(2) by (metis mset_eq_imp_distinct_iff)
  have "tiles w (concat (group_lists gm)) (group_columns w (group_lists gm) (max_group_size gm))"
    using d max_group_size_ge by (intro group_columns_tiles) auto
  then show "tiles w (concat (map snd gm)) (group_inter_initial w gm)"
    using tiles_mset [OF _ m] by (simp add: group_inter_initial_def)
  note sh = shifted_lists_mset [of elapsed gm]
  have "distinct (concat (shifted_lists elapsed gm))" using d sh(1) by (metis mset_eq_imp_distinct_iff)
  moreover have "length ranks \<le> max_group_size gm" if "ranks \<in> set (shifted_lists elapsed gm)" for ranks
    using that sh(2) max_group_size_ge by (metis image_iff)
  ultimately have "tiles w (concat (shifted_lists elapsed gm))
      (group_columns w (shifted_lists elapsed gm) (max_group_size gm))"
    by (intro group_columns_tiles) auto
  then show "tiles w (concat (map snd gm)) (group_inter_diagnostic w elapsed gm)"
    using tiles_mset [OF _ trans [OF sh(1) m]] by (simp add: group_inter_diagnostic_def)
qed

text \<open>The map of node groups holds the ranks that have one, each once.\<close>

definition grouped_ranks :: "world \<Rightarrow> int list" where
  "grouped_ranks w = map fst (filter (\<lambda>(r, m). 0 \<le> nt_node_group m) w)"

lemma append_under_key:
  assumes "wf_dict d"
  shows "mset (concat (map snd (AList.update g (dict_get d g [] @ [r]) d))) =
    add_mset r (mset (concat (map snd d)))"
  using assms
proof (induction d)
  case (Cons p d)
  show ?case
  proof (cases "fst p = g")
    case True
    then show ?thesis by (cases p) (simp add: dict_get_def)
  next
    case False
    then have "dict_get (p # d) g [] = dict_get d g []" by (cases p) (simp add: dict_get_def)
    then show ?thesis using Cons False by (cases p) (auto simp: wf_dict_def)
  qed
qed (simp add: dict_get_def)

lemma update_setdefault: "AList.update k v (dict_setdefault k u d) = AList.update k v d"
  by (simp add: dict_setdefault_def split: option.splits)

lemma dict_get_setdefault: "dict_get (dict_setdefault k [] d) k [] = dict_get d k []"
  by (simp add: dict_setdefault_def dict_get_def update_conv' split: option.splits)

lemma note_group_facts:
  assumes "wf_dict d"
  shows "wf_dict (note_group (r, m) d)"
    and "mset (concat (map snd (note_group (r, m) d))) =
      (if nt_node_group m < 0 then mset (concat (map snd d)) else add_mset r (mset (concat (map snd d))))"
    and "note_group (r, m) d = [] \<longleftrightarrow> nt_node_group m < 0 \<and> d = []"
proof -
  let ?d = "AList.update (nt_node_group m) (dict_get d (nt_node_group m) [] @ [r]) d"
  have n: "note_group (r, m) d = (if nt_node_group m < 0 then d else ?d)"
    by (simp add: note_group_def Let_def update_setdefault dict_get_setdefault)
  show "wf_dict (note_group (r, m) d)" unfolding n using assms wf_dict_update by simp
  show "mset (concat (map snd (note_group (r, m) d))) =
      (if nt_node_group m < 0 then mset (concat (map snd d)) else add_mset r (mset (concat (map snd d))))"
    unfolding n using append_under_key [OF assms] by simp
  have "dict_has ?d (nt_node_group m)" by simp
  then have "?d \<noteq> []" by (auto simp: dict_has_def)
  then show "note_group (r, m) d = [] \<longleftrightarrow> nt_node_group m < 0 \<and> d = []" unfolding n by simp
qed

lemma note_groups_facts:
  assumes "wf_dict d"
  shows "wf_dict (fold note_group w d)"
    and "mset (concat (map snd (fold note_group w d))) = mset (concat (map snd d)) + mset (grouped_ranks w)"
    and "fold note_group w d = [] \<longleftrightarrow> d = [] \<and> grouped_ranks w = []"
proof -
  have "wf_dict (fold note_group w d) \<and>
    mset (concat (map snd (fold note_group w d))) = mset (concat (map snd d)) + mset (grouped_ranks w) \<and>
    (fold note_group w d = [] \<longleftrightarrow> d = [] \<and> grouped_ranks w = [])"
    using assms
  proof (induction w arbitrary: d)
    case (Cons p w)
    obtain r m where p: "p = (r, m)" by fastforce
    have "grouped_ranks (p # w) = (if nt_node_group m < 0 then [] else [r]) @ grouped_ranks w"
      by (auto simp: grouped_ranks_def p)
    moreover note n = note_group_facts [OF Cons.prems, of r m]
    ultimately show ?case using Cons.IH [OF n(1)] n(2,3) unfolding p fold_simps by (simp add: p)
  qed (simp add: grouped_ranks_def)
  then show "wf_dict (fold note_group w d)"
    "mset (concat (map snd (fold note_group w d))) = mset (concat (map snd d)) + mset (grouped_ranks w)"
    "fold note_group w d = [] \<longleftrightarrow> d = [] \<and> grouped_ranks w = []" by simp_all
qed

lemma build_node_group_map_facts:
  shows "wf_dict (build_node_group_map w)"
    and "mset (concat (map snd (build_node_group_map w))) = mset (grouped_ranks w)"
    and "build_node_group_map w = [] \<longleftrightarrow> grouped_ranks w = []"
proof -
  note f = note_groups_facts [OF wf_dict_Nil, of w]
  have "mset (concat (map snd (map (\<lambda>(g, ranks). (g, sort ranks)) d))) = mset (concat (map snd d))"
    for d :: "(int, int list) dict"
    by (induction d) auto
  then show "mset (concat (map snd (build_node_group_map w))) = mset (grouped_ranks w)"
    using f(2) unfolding build_node_group_map_def by simp
  have "map fst (build_node_group_map w) = map fst (fold note_group w [])"
    unfolding build_node_group_map_def by (simp add: o_def split_def)
  then show "wf_dict (build_node_group_map w)" using f(1) unfolding wf_dict_def by metis
  show "build_node_group_map w = [] \<longleftrightarrow> grouped_ranks w = []"
    using f(3) unfolding build_node_group_map_def by simp
qed

lemma grouped_ranks_distinct: "wf_dict w \<Longrightarrow> distinct (grouped_ranks w)"
  by (simp add: grouped_ranks_def wf_dict_def distinct_map_filter)

text \<open>Each of the four pairings puts every node that belongs to a node group into exactly one group.\<close>

lemma group_pairings_tile:
  assumes "wf_dict w"
  defines "gm \<equiv> build_node_group_map w"
  shows "tiles w (grouped_ranks w) (group_intra_initial w gm)"
    and "tiles w (grouped_ranks w) (group_intra_diagnostic w elapsed gm)"
    and "tiles w (grouped_ranks w) (group_inter_initial w gm)"
    and "tiles w (grouped_ranks w) (group_inter_diagnostic w elapsed gm)"
proof -
  note b = build_node_group_map_facts [of w, folded gm_def]
  have d: "distinct (concat (map snd gm))"
    using b(2) grouped_ranks_distinct [OF assms(1)] by (metis mset_eq_imp_distinct_iff)
  show "tiles w (grouped_ranks w) (group_intra_initial w gm)"
    "tiles w (grouped_ranks w) (group_intra_diagnostic w elapsed gm)"
    "tiles w (grouped_ranks w) (group_inter_initial w gm)"
    "tiles w (grouped_ranks w) (group_inter_diagnostic w elapsed gm)"
    using tiles_mset [OF _ b(2)] intra_initial_tiles [OF d] intra_diagnostic_tiles [OF d]
      inter_tiles [OF b(1) d] by blast+
qed

end
