(* ===== verification/Node_Model.thy ===== *)
theory Node_Model
  imports Job_Constants
begin

text \<open>
  \<open>dlrover/python/common/node.py\<close>: resources, the \<open>Node\<close> object and its methods. Nodes are values:
  the code deep-copies a node whenever it stores one in the job context. A priority string is kept
  by what the code makes of it: empty, high, low, a number (\<open>_is_float_str\<close>), or anything else.
\<close>

section \<open>Resources\<close>

datatype node_priority = PR_NONE | PR_HIGH | PR_LOW | PR_FRACTION rat | PR_OTHER string

record gpu_stats =
  gpu_index :: int
  gpu_total_memory_mb :: int
  gpu_used_memory_mb :: int
  gpu_utilization :: rat

record node_resource =
  nr_cpu :: rat
  nr_memory :: rat
  nr_gpu_type :: string
  nr_gpu_num :: int
  nr_gpu_stats :: "gpu_stats list"
  nr_image :: string
  nr_priority :: node_priority

definition new_node_resource :: "rat \<Rightarrow> rat \<Rightarrow> node_resource" where
  "new_node_resource cpu mem =
     \<lparr>nr_cpu = cpu, nr_memory = mem, nr_gpu_type = '''', nr_gpu_num = 0, nr_gpu_stats = [],
      nr_image = '''', nr_priority = PR_NONE\<rparr>"

record node_group_resource =
  ngr_count :: int
  ngr_node_resource :: node_resource

definition ngr_update :: "int \<Rightarrow> rat \<Rightarrow> rat \<Rightarrow> node_group_resource \<Rightarrow> node_group_resource" where
  "ngr_update cnt cpu mem g =
     (let g1 = (if cnt > 0 then g\<lparr>ngr_count := cnt\<rparr> else g);
          g2 = (if cpu > 0 then g1\<lparr>ngr_node_resource := (ngr_node_resource g1)\<lparr>nr_cpu := cpu\<rparr>\<rparr> else g1)
      in if mem > 0 then g2\<lparr>ngr_node_resource := (ngr_node_resource g2)\<lparr>nr_memory := mem\<rparr>\<rparr> else g2)"

definition ngr_new_empty :: node_group_resource where
  "ngr_new_empty = \<lparr>ngr_count = 0, ngr_node_resource = new_node_resource 0 0\<rparr>"

section \<open>Parallel configuration (common/comm.py)\<close>

record dataloader_config =
  dlc_version :: int
  dlc_name :: string
  dlc_last_batch_size :: int
  dlc_batch_size :: int
  dlc_num_workers :: int
  dlc_pin_memory :: int

record optimizer_config =
  opc_version :: int
  opc_name :: string
  opc_learning_rate :: rat
  opc_weight_decay :: rat

record parallel_config =
  pc_dataloader :: dataloader_config
  pc_optimizer :: optimizer_config
  pc_restart :: bool

definition default_parallel_config :: parallel_config where
  "default_parallel_config =
     \<lparr>pc_dataloader = \<lparr>dlc_version = 0, dlc_name = '''', dlc_last_batch_size = 0, dlc_batch_size = 0,
                       dlc_num_workers = 0, dlc_pin_memory = 0\<rparr>,
      pc_optimizer = \<lparr>opc_version = 0, opc_name = '''', opc_learning_rate = 0, opc_weight_decay = 0\<rparr>,
      pc_restart = False\<rparr>"

section \<open>Nodes\<close>

datatype failure_msg = FM_NONE | FM_EXHAUSTED int | FM_FATAL | FM_OOM | FM_CRITICAL | FM_UNKNOWN

record node =
  nd_type :: node_type
  nd_id :: int
  nd_name :: "string option"
  nd_status :: node_status
  nd_start_time :: "rat option"
  nd_rank_index :: int
  nd_relaunch_count :: int
  nd_critical :: bool
  nd_max_relaunch_count :: int
  nd_relaunchable :: bool
  nd_service_addr :: "string option"
  nd_create_time :: "rat option"
  nd_finish_time :: "rat option"
  nd_is_recovered_oom :: bool
  nd_is_released :: bool
  nd_exit_reason :: node_exit_reason
  nd_config_resource :: node_resource
  nd_used_resource :: node_resource
  nd_start_hang_time :: rat
  nd_init_time :: rat
  nd_eval_time :: rat
  nd_host_name :: "string option"
  nd_host_ip :: "string option"
  nd_hang :: bool
  nd_paral_config :: parallel_config
  nd_restart_training :: bool
  nd_migrated :: bool
  nd_unrecoverable_failure_msg :: failure_msg
  nd_heartbeat_time :: rat
  nd_reported_status :: "node_event_type \<times> int"
  nd_group :: "int option"
  nd_group_size :: "int option"
  nd_group_id :: "string option"

text \<open>
  The constructor; the arguments are those the code passes, the rest are the defaults. \<open>rank_index\<close>
  defaults to the id, the relaunch limit to that of the global context.
\<close>

definition new_node ::
    "node_type \<Rightarrow> int \<Rightarrow> node_resource \<Rightarrow> string option \<Rightarrow> node_status \<Rightarrow> int option \<Rightarrow> int \<Rightarrow> bool
     \<Rightarrow> int \<Rightarrow> bool \<Rightarrow> string option \<Rightarrow> rat \<Rightarrow> node" where
  "new_node ty i res name status rank_index relaunch_count critical max_relaunch relaunchable addr now =
     \<lparr>nd_type = ty, nd_id = i, nd_name = name, nd_status = status, nd_start_time = None,
      nd_rank_index = (case rank_index of None \<Rightarrow> i | Some r \<Rightarrow> r),
      nd_relaunch_count = relaunch_count, nd_critical = critical,
      nd_max_relaunch_count = max_relaunch, nd_relaunchable = relaunchable, nd_service_addr = addr,
      nd_create_time = None, nd_finish_time = None, nd_is_recovered_oom = False,
      nd_is_released = False, nd_exit_reason = ER_NONE, nd_config_resource = res,
      nd_used_resource = new_node_resource 0 0, nd_start_hang_time = 0, nd_init_time = now,
      nd_eval_time = 0, nd_host_name = None, nd_host_ip = None, nd_hang = False,
      nd_paral_config = default_parallel_config, nd_restart_training = False, nd_migrated = False,
      nd_unrecoverable_failure_msg = FM_NONE, nd_heartbeat_time = 0,
      nd_reported_status = (EV_NONE, 0), nd_group = None, nd_group_size = None, nd_group_id = None\<rparr>"

definition nd_exited :: "node \<Rightarrow> bool" where
  "nd_exited n \<longleftrightarrow> nd_status n \<in> {ST_FAILED, ST_SUCCEEDED, ST_FINISHED}"

text \<open>A host name or address is taken over only when it is a non-empty string.\<close>

definition truthy_str :: "string option \<Rightarrow> bool" where
  "truthy_str s \<longleftrightarrow> s \<noteq> None \<and> s \<noteq> Some ''''"

definition nd_update_info ::
    "string option \<Rightarrow> rat option \<Rightarrow> rat option \<Rightarrow> string option \<Rightarrow> string option \<Rightarrow> bool \<Rightarrow> int \<Rightarrow> bool
     \<Rightarrow> node \<Rightarrow> node" where
  "nd_update_info name start_time create_time host_name host_ip restart_training relaunch_count is_released n =
     n\<lparr>nd_name := (if name \<noteq> None then name else nd_name n),
       nd_start_time := (if start_time \<noteq> None then start_time else nd_start_time n),
       nd_create_time := (if create_time \<noteq> None then create_time else nd_create_time n),
       nd_host_name := (if truthy_str host_name then host_name else nd_host_name n),
       nd_host_ip := (if truthy_str host_ip then host_ip else nd_host_ip n),
       nd_relaunch_count := max (nd_relaunch_count n) relaunch_count,
       nd_restart_training := restart_training,
       nd_is_released := is_released\<rparr>"

definition nd_update_status :: "node_status option \<Rightarrow> node \<Rightarrow> node" where
  "nd_update_status st n = (case st of None \<Rightarrow> n | Some s \<Rightarrow> n\<lparr>nd_status := s\<rparr>)"

definition nd_update_resource_usage :: "rat \<Rightarrow> rat \<Rightarrow> gpu_stats list \<Rightarrow> node \<Rightarrow> node" where
  "nd_update_resource_usage cpu mem stats n =
     n\<lparr>nd_used_resource := (nd_used_resource n)\<lparr>nr_cpu := py_round_nd 2 cpu, nr_memory := mem,
                                                nr_gpu_stats := stats\<rparr>\<rparr>"

definition nd_update_paral_config :: "parallel_config \<Rightarrow> node \<Rightarrow> node" where
  "nd_update_paral_config pc n = n\<lparr>nd_paral_config := pc\<rparr>"

definition nd_update_service_address :: "string \<Rightarrow> node \<Rightarrow> node" where
  "nd_update_service_address addr n = n\<lparr>nd_service_addr := Some addr\<rparr>"

definition generate_relaunch_node :: "rat \<Rightarrow> int \<Rightarrow> string option \<Rightarrow> node \<Rightarrow> node" where
  "generate_relaunch_node now new_id new_name n =
     n\<lparr>nd_id := new_id, nd_name := new_name, nd_status := ST_INITIAL, nd_host_name := None,
       nd_host_ip := None, nd_start_time := None, nd_create_time := None, nd_finish_time := None,
       nd_heartbeat_time := 0, nd_start_hang_time := 0, nd_hang := False, nd_is_released := False,
       nd_restart_training := False, nd_relaunchable := True, nd_init_time := now,
       nd_reported_status := (EV_NONE, 0)\<rparr>"

definition is_unrecoverable_failure :: "node \<Rightarrow> bool \<times> node" where
  "is_unrecoverable_failure n =
     (let cpu_memory_overload =
            nr_gpu_num (nd_config_resource n) = 0 \<and>
            nr_memory (nd_config_resource n) \<ge> MAX_MEMORY \<and> nd_exit_reason n = ER_OOM
      in if nd_relaunch_count n \<ge> nd_max_relaunch_count n
         then (True, n\<lparr>nd_unrecoverable_failure_msg := FM_EXHAUSTED (nd_max_relaunch_count n)\<rparr>)
         else if nd_exit_reason n = ER_FATAL_ERROR
         then (True, n\<lparr>nd_unrecoverable_failure_msg := FM_FATAL\<rparr>)
         else if cpu_memory_overload
         then (True, n\<lparr>nd_unrecoverable_failure_msg := FM_OOM\<rparr>)
         else (False, n))"

definition nd_set_exit_reason :: "node_exit_reason \<Rightarrow> node \<Rightarrow> node" where
  "nd_set_exit_reason r n = n\<lparr>nd_exit_reason := r\<rparr>"

definition nd_set_priority :: "node_priority \<Rightarrow> node \<Rightarrow> node" where
  "nd_set_priority p n = n\<lparr>nd_config_resource := (nd_config_resource n)\<lparr>nr_priority := p\<rparr>\<rparr>"

definition update_priority :: "int \<Rightarrow> node \<Rightarrow> (node, unit) py_run" where
  "update_priority group_node_num n =
     (case nr_priority (nd_config_resource n) of
        PR_FRACTION f \<Rightarrow>
          if f \<le> 0 \<or> f > 1 then (Inl ValueError, n)
          else let high_count = py_round (of_int group_node_num * f)
               in (Inr (), nd_set_priority (if nd_id n \<le> high_count then PR_HIGH else PR_LOW) n)
      | PR_OTHER _ \<Rightarrow> (Inl ValueError, n)
      | _ \<Rightarrow> (Inr (), n))"

definition nd_timeout :: "rat \<Rightarrow> rat \<Rightarrow> node \<Rightarrow> bool" where
  "nd_timeout now timeout n \<longleftrightarrow> now - nd_init_time n > timeout \<and> nd_status n = ST_INITIAL"

definition is_exited_reported :: "node \<Rightarrow> bool" where
  "is_exited_reported n \<longleftrightarrow>
     fst (nd_reported_status n) = EV_SUCCEEDED_EXITED \<or> fst (nd_reported_status n) = EV_FAILED_EXITED"

definition update_reported_status :: "rat \<Rightarrow> node_event_type \<Rightarrow> node \<Rightarrow> node" where
  "update_reported_status now st n =
     (if is_exited_reported n then n else n\<lparr>nd_reported_status := (st, py_int now)\<rparr>)"

definition is_succeeded_and_exited :: "node \<Rightarrow> bool" where
  "is_succeeded_and_exited n \<longleftrightarrow> fst (nd_reported_status n) = EV_SUCCEEDED_EXITED"

definition is_failed_and_exited :: "node \<Rightarrow> bool" where
  "is_failed_and_exited n \<longleftrightarrow> fst (nd_reported_status n) = EV_FAILED_EXITED"

definition is_node_check_failed :: "node \<Rightarrow> bool" where
  "is_node_check_failed n \<longleftrightarrow> fst (nd_reported_status n) = EV_NODE_CHECK_FAILED"

definition get_unrecoverable_failure_msg :: "node \<Rightarrow> failure_msg" where
  "get_unrecoverable_failure_msg n =
     (if nd_unrecoverable_failure_msg n \<noteq> FM_NONE then nd_unrecoverable_failure_msg n
      else if nd_critical n then FM_CRITICAL else FM_UNKNOWN)"

definition nd_update_from_node :: "node \<Rightarrow> node \<Rightarrow> node" where
  "nd_update_from_node other n = other"

definition nd_has_group :: "node \<Rightarrow> bool" where
  "nd_has_group n \<longleftrightarrow> nd_group n \<noteq> None \<and> nd_group_size n \<noteq> None"

record node_event =
  ne_event_type :: node_event_type
  ne_node :: node

definition is_node_check_event :: "node_event \<Rightarrow> bool" where
  "is_node_check_event e \<longleftrightarrow>
     ne_event_type e = EV_NODE_CHECK_SUCCEEDED \<or> ne_event_type e = EV_NODE_CHECK_FAILED"

definition is_pre_check_event :: "node_event \<Rightarrow> bool" where
  "is_pre_check_event e \<longleftrightarrow> ne_event_type e = EV_WAIT_PRE_CHECK"

section \<open>Properties\<close>

lemma nd_set_priority_simps [simp]:
  "nr_priority (nd_config_resource (nd_set_priority p n)) = p" "nd_id (nd_set_priority p n) = nd_id n"
  by (simp_all add: nd_set_priority_def)

lemma reported_exit_keeps:
  "is_exited_reported n \<Longrightarrow> fold (\<lambda>(now, st). update_reported_status now st) rs n = n"
  by (induction rs) (auto simp: update_reported_status_def)

text \<open>
  The first exit report counts. Whatever a node reports after it has reported a succeeded or a
  failed exit is ignored: over any sequence of reports, the reported status is that of the first exit
  report, when there is one, and otherwise that of the last report.
\<close>

theorem first_exit_report_counts:
  fixes rs :: "(rat \<times> node_event_type) list"
  assumes "\<not> is_exited_reported n"
  defines "exits \<equiv> filter (\<lambda>(now, st). st = EV_SUCCEEDED_EXITED \<or> st = EV_FAILED_EXITED) rs"
  shows "nd_reported_status (fold (\<lambda>(now, st). update_reported_status now st) rs n) =
    (if exits \<noteq> [] then (snd (hd exits), py_int (fst (hd exits)))
     else if rs \<noteq> [] then (snd (last rs), py_int (fst (last rs)))
     else nd_reported_status n)"
  using assms(1) unfolding exits_def
proof (induction rs arbitrary: n)
  case (Cons r rs)
  obtain now st where r: "r = (now, st)" by (cases r)
  let ?n1 = "update_reported_status now st n"
  have n1: "nd_reported_status ?n1 = (st, py_int now)"
    using Cons.prems by (simp add: update_reported_status_def)
  show ?case
  proof (cases "st = EV_SUCCEEDED_EXITED \<or> st = EV_FAILED_EXITED")
    case True
    then have "is_exited_reported ?n1" using n1 by (auto simp: is_exited_reported_def)
    from reported_exit_keeps [OF this, of rs] show ?thesis using True n1 r by simp
  next
    case False
    then have "\<not> is_exited_reported ?n1" using n1 by (simp add: is_exited_reported_def)
    from Cons.IH [OF this] show ?thesis using False r n1 by simp
  qed
qed simp

definition demo_worker :: "int \<Rightarrow> node" where
  "demo_worker i = new_node NT_WORKER i (new_node_resource 4 8192) None ST_INITIAL None 0 False 3 True None 0"

theorem first_exit_report_counts_witness:
  "\<not> is_exited_reported (demo_worker 0) \<and>
   nd_reported_status (fold (\<lambda>(now, st). update_reported_status now st)
     [(1, EV_NODE_CHECK_FAILED), (2, EV_SUCCEEDED_EXITED), (3, EV_FAILED_EXITED)] (demo_worker 0))
   = (EV_SUCCEEDED_EXITED, 2)"
proof -
  have n: "\<not> is_exited_reported (demo_worker 0)"
    by (simp add: is_exited_reported_def demo_worker_def new_node_def)
  show ?thesis
    using first_exit_report_counts [OF n,
        of "[(1, EV_NODE_CHECK_FAILED), (2, EV_SUCCEEDED_EXITED), (3, EV_FAILED_EXITED)]"] n
    by (simp add: py_int_def)
qed

text \<open>
  A fractional priority raises one node too many. With a fraction \<open>f\<close> and \<open>n\<close> nodes of ids 0 to
  \<open>n - 1\<close>, the ids that become high priority are those up to and including \<open>round (n * f)\<close>, so one
  more than \<open>round (n * f)\<close> nodes (at most all of them).
\<close>

theorem fraction_priority_counts:
  assumes "0 < f" and "f \<le> 1" and "0 \<le> n"
  shows "card {i. 0 \<le> i \<and> i < n \<and>
      nr_priority (nd_config_resource (snd (update_priority n
        (nd_set_priority (PR_FRACTION f) (nd\<lparr>nd_id := i\<rparr>))))) = PR_HIGH} =
    nat (min n (py_round (of_int n * f) + 1))"
proof -
  have "{i. 0 \<le> i \<and> i < n \<and>
      nr_priority (nd_config_resource (snd (update_priority n
        (nd_set_priority (PR_FRACTION f) (nd\<lparr>nd_id := i\<rparr>))))) = PR_HIGH} =
    {0..<min n (py_round (of_int n * f) + 1)}"
    using assms by (auto simp: update_priority_def Let_def)
  then show ?thesis by simp
qed

theorem fraction_priority_counts_witness:
  "card {i. 0 \<le> i \<and> i < (10::int) \<and>
      nr_priority (nd_config_resource (snd (update_priority 10
        (nd_set_priority (PR_FRACTION (1 / 2)) ((demo_worker 0)\<lparr>nd_id := i\<rparr>))))) = PR_HIGH} = 6"
proof -
  have "py_round (of_int 10 * (1 / 2)) = 5" by (simp add: py_round_def)
  then show ?thesis using fraction_priority_counts [of "1 / 2" 10 "demo_worker 0"] by simp
qed

end
