(* ===== verification/Diagnosis_Action.thy ===== *)
theory Diagnosis_Action
  imports Job_Constants
begin

text \<open>
  \<open>dlrover/python/diagnosis/common/diagnosis_action.py\<close> and \<open>has_expired\<close> of \<open>util/time_util.py\<close>: the
  actions a diagnosis asks for and the queue of actions per instance. One reading \<open>now\<close> of the clock
  serves a whole call.
\<close>

section \<open>Actions\<close>

datatype action_type =
    AT_NONE | AT_ANY | AT_LOG | AT_JOB_ABORT | AT_JOB_RESTART | AT_MASTER_RELAUNCH_WORKER | AT_EVENT
  | AT_RESTART_WORKER | AT_RELAUNCH_WORKER | AT_COLLECT_METRIC | AT_RESTART_JOB | AT_ABORT_JOB

definition MASTER_INSTANCE :: int where "MASTER_INSTANCE = - 1"
definition ANY_WORKER_INSTANCE :: int where "ANY_WORKER_INSTANCE = - 2"
definition LOCAL_INSTANCE :: int where "LOCAL_INSTANCE = - 3"
definition ACTION_EXPIRED_TIME_PERIOD_DEFAULT :: int where "ACTION_EXPIRED_TIME_PERIOD_DEFAULT = 300"
definition MAX_ACTION_QUEUE_SIZE :: nat where "MAX_ACTION_QUEUE_SIZE = 1000"

text \<open>The class of an action with the attributes of its own.\<close>

datatype action_kind =
    PlainAction
  | EventAction (ev_type: string) (ev_instance: string) (ev_action: string) (ev_msg: string)
      (ev_labels: "(string, string) dict option")
  | NodeAction (na_node_id: int) (na_node_type: node_type) (na_node_status: string) (na_reason: string)
  | JobAction (ja_reason: string) (ja_msg: string)

record diagnosis_action =
  da_type :: action_type
  da_instance :: int
  da_timestamp :: int
  da_expired_time_period :: int
  da_executable_time_period :: int
  da_kind :: action_kind

definition new_action :: "rat \<Rightarrow> action_type \<Rightarrow> int \<Rightarrow> int \<Rightarrow> int \<Rightarrow> int \<Rightarrow> action_kind \<Rightarrow> diagnosis_action" where
  "new_action now ty inst ts expired_period executable_period kind =
     \<lparr>da_type = ty, da_instance = inst,
      da_timestamp = (if ts = 0 then py_int now else ts),
      da_expired_time_period =
        (if expired_period = 0 then ACTION_EXPIRED_TIME_PERIOD_DEFAULT else expired_period),
      da_executable_time_period = executable_period, da_kind = kind\<rparr>"

text \<open>\<open>NoAction()\<close> takes the defaults of the base class: an expiry period of \<open>60 * 1000\<close>.\<close>

definition no_action :: "rat \<Rightarrow> diagnosis_action" where
  "no_action now = new_action now AT_NONE LOCAL_INSTANCE 0 60000 0 PlainAction"

definition event_action ::
    "rat \<Rightarrow> string \<Rightarrow> string \<Rightarrow> string \<Rightarrow> string \<Rightarrow> (string, string) dict option \<Rightarrow> int \<Rightarrow> int \<Rightarrow> int \<Rightarrow> int
     \<Rightarrow> diagnosis_action" where
  "event_action now ty inst act msg labels ts expired_period executable_period instance_id =
     new_action now AT_EVENT instance_id ts expired_period executable_period
       (EventAction ty inst act msg labels)"

definition node_action ::
    "rat \<Rightarrow> int \<Rightarrow> node_type \<Rightarrow> string \<Rightarrow> string \<Rightarrow> int \<Rightarrow> action_type \<Rightarrow> int \<Rightarrow> int \<Rightarrow> diagnosis_action" where
  "node_action now nid nty status reason inst ty ts expired_period =
     new_action now ty inst ts expired_period 0 (NodeAction nid nty status reason)"

definition job_action :: "rat \<Rightarrow> action_type \<Rightarrow> string \<Rightarrow> string \<Rightarrow> diagnosis_action" where
  "job_action now ty reason msg = new_action now ty MASTER_INSTANCE 0 0 0 (JobAction reason msg)"

definition job_abortion_action :: "rat \<Rightarrow> string \<Rightarrow> string \<Rightarrow> diagnosis_action" where
  "job_abortion_action now reason msg = job_action now AT_JOB_ABORT reason msg"

definition job_restart_action :: "rat \<Rightarrow> string \<Rightarrow> string \<Rightarrow> diagnosis_action" where
  "job_restart_action now reason msg = job_action now AT_JOB_RESTART reason msg"

definition has_expired :: "rat \<Rightarrow> int \<Rightarrow> int \<Rightarrow> bool" where
  "has_expired now ts period \<longleftrightarrow> of_int (ts + period) \<le> now"

definition is_expired :: "rat \<Rightarrow> diagnosis_action \<Rightarrow> bool" where
  "is_expired now a = has_expired now (da_timestamp a) (da_expired_time_period a)"

definition is_executable :: "rat \<Rightarrow> diagnosis_action \<Rightarrow> bool" where
  "is_executable now a = has_expired now (da_timestamp a) (da_executable_time_period a)"

definition is_needed :: "rat \<Rightarrow> diagnosis_action \<Rightarrow> bool" where
  "is_needed now a \<longleftrightarrow> \<not> is_expired now a \<and> da_type a \<noteq> AT_NONE"

definition update_timestamp :: "rat \<Rightarrow> int \<Rightarrow> int \<Rightarrow> diagnosis_action \<Rightarrow> diagnosis_action" where
  "update_timestamp ts expired_period executable_period a =
     (let a1 = (if ts > 0 then a\<lparr>da_timestamp := py_int ts\<rparr> else a);
          a2 = (if expired_period > 0 then a1\<lparr>da_expired_time_period := expired_period\<rparr> else a1)
      in if executable_period > 0 then a2\<lparr>da_expired_time_period := expired_period\<rparr> else a2)"

definition is_same_action :: "rat \<Rightarrow> diagnosis_action \<Rightarrow> diagnosis_action \<Rightarrow> bool" where
  "is_same_action now a b =
     (case (da_kind a, da_kind b) of
        (EventAction ty1 _ _ msg1 _, EventAction ty2 _ _ msg2 _) \<Rightarrow>
          ty1 = ty2 \<and> da_instance a = da_instance b \<and> da_type a = da_type b \<and> msg1 = msg2 \<and>
          \<not> is_expired now a \<and> \<not> is_expired now b
      | _ \<Rightarrow> False)"

section \<open>The queue\<close>

text \<open>A deque with an optional length limit: a full one drops its oldest item on \<open>append\<close>.\<close>

record action_deque =
  dq_items :: "diagnosis_action list"
  dq_maxlen :: "nat option"

type_synonym action_queue = "(int, action_deque) dict"

definition dq_append :: "diagnosis_action \<Rightarrow> action_deque \<Rightarrow> action_deque" where
  "dq_append a d =
     (let items = dq_items d @ [a]
      in d\<lparr>dq_items := (case dq_maxlen d of
                          None \<Rightarrow> items
                        | Some m \<Rightarrow> drop (length items - m) items)\<rparr>)"

definition add_action :: "rat \<Rightarrow> diagnosis_action \<Rightarrow> action_queue \<Rightarrow> action_queue" where
  "add_action now new q =
     (let inst = da_instance new;
          q1 = dict_setdefault inst \<lparr>dq_items = [], dq_maxlen = Some MAX_ACTION_QUEUE_SIZE\<rparr> q;
          d = dict_get q1 inst \<lparr>dq_items = [], dq_maxlen = None\<rparr>
      in if list_ex (\<lambda>a. is_same_action now new a \<or> \<not> is_needed now a) (dq_items d) then q1
         else AList.update inst (dq_append new d) q1)"

definition queue_len :: "action_queue \<Rightarrow> nat" where
  "queue_len q = sum_list (map (\<lambda>(i, d). length (dq_items d)) q)"

text \<open>
  The loop of \<open>next_action\<close>: expired actions are dropped, waiting ones set aside. When an executable
  action is found the waiting ones go back in front, in their order; otherwise the waiting ones are
  all that is left.
\<close>

fun next_loop ::
    "rat \<Rightarrow> diagnosis_action list \<Rightarrow> diagnosis_action list
     \<Rightarrow> diagnosis_action option \<times> diagnosis_action list" where
  "next_loop now [] waiting = (None, waiting)"
| "next_loop now (a # actions) waiting =
     (if is_expired now a then next_loop now actions waiting
      else if is_executable now a then (Some a, waiting @ actions)
      else next_loop now actions (waiting @ [a]))"

definition next_action :: "rat \<Rightarrow> int \<Rightarrow> action_queue \<Rightarrow> diagnosis_action \<times> action_queue" where
  "next_action now inst q =
     (case map_of q inst of
        None \<Rightarrow> (no_action now, q)
      | Some d \<Rightarrow>
          if dq_items d = [] then (no_action now, q)
          else (case next_loop now (dq_items d) [] of
                  (Some a, items) \<Rightarrow> (a, AList.update inst (d\<lparr>dq_items := items\<rparr>) q)
                | (None, waiting) \<Rightarrow>
                    (no_action now, AList.update inst \<lparr>dq_items = waiting, dq_maxlen = None\<rparr> q)))"

section \<open>Properties\<close>

lemma next_loop_ready:
  "list_all (\<lambda>b. is_expired now b \<or> \<not> is_executable now b) pre \<Longrightarrow> \<not> is_expired now a \<Longrightarrow>
   is_executable now a \<Longrightarrow>
   next_loop now (pre @ a # post) w = (Some a, w @ filter (\<lambda>b. \<not> is_expired now b) pre @ post)"
  by (induction pre arbitrary: w) auto

lemma next_loop_none:
  "list_all (\<lambda>b. is_expired now b \<or> \<not> is_executable now b) xs \<Longrightarrow>
   next_loop now xs w = (None, w @ filter (\<lambda>b. \<not> is_expired now b) xs)"
  by (induction xs arbitrary: w) auto

text \<open>
  The next action. \<open>next_action\<close> returns the first action of the instance's queue that is neither
  expired nor still waiting for its time; the expired actions before it are gone, the waiting ones
  keep their place and order, and what follows it is untouched. Without such an action the answer
  is \<open>NoAction\<close> and exactly the unexpired actions stay.
\<close>

theorem next_action_first_ready:
  assumes "map_of q inst = Some d"
  shows "(\<forall>pre a post. dq_items d = pre @ a # post \<longrightarrow>
        list_all (\<lambda>b. is_expired now b \<or> \<not> is_executable now b) pre \<longrightarrow>
        \<not> is_expired now a \<longrightarrow> is_executable now a \<longrightarrow>
        fst (next_action now inst q) = a \<and>
        map_of (snd (next_action now inst q)) inst =
          Some (d\<lparr>dq_items := filter (\<lambda>b. \<not> is_expired now b) pre @ post\<rparr>)) \<and>
    (list_all (\<lambda>b. is_expired now b \<or> \<not> is_executable now b) (dq_items d) \<longrightarrow>
        fst (next_action now inst q) = no_action now \<and>
        (\<exists>d'. map_of (snd (next_action now inst q)) inst = Some d' \<and>
           dq_items d' = filter (\<lambda>b. \<not> is_expired now b) (dq_items d)))"
proof (intro conjI allI impI)
  fix pre a post
  assume d: "dq_items d = pre @ a # post"
    and pre: "list_all (\<lambda>b. is_expired now b \<or> \<not> is_executable now b) pre"
    and a: "\<not> is_expired now a" "is_executable now a"
  have "next_loop now (dq_items d) [] = (Some a, filter (\<lambda>b. \<not> is_expired now b) pre @ post)"
    using next_loop_ready [OF pre a] by (simp add: d)
  then show "fst (next_action now inst q) = a"
    "map_of (snd (next_action now inst q)) inst =
          Some (d\<lparr>dq_items := filter (\<lambda>b. \<not> is_expired now b) pre @ post\<rparr>)"
    using assms d by (simp_all add: next_action_def update_conv')
next
  assume w: "list_all (\<lambda>b. is_expired now b \<or> \<not> is_executable now b) (dq_items d)"
  then have l: "next_loop now (dq_items d) [] = (None, filter (\<lambda>b. \<not> is_expired now b) (dq_items d))"
    by (simp add: next_loop_none)
  show "fst (next_action now inst q) = no_action now" using assms l by (simp add: next_action_def)
  show "\<exists>d'. map_of (snd (next_action now inst q)) inst = Some d' \<and>
           dq_items d' = filter (\<lambda>b. \<not> is_expired now b) (dq_items d)"
    using assms l by (cases "dq_items d = []") (simp_all add: next_action_def update_conv')
qed

definition demo_action :: "int \<Rightarrow> diagnosis_action" where
  "demo_action ts = node_action 0 1 NT_WORKER '''' '''' 1 AT_RESTART_WORKER ts 100"

theorem next_action_first_ready_witness:
  "let d = \<lparr>dq_items = [demo_action 10, demo_action 300, demo_action 400], dq_maxlen = Some 1000\<rparr>
   in fst (next_action 350 1 [(1, d)]) = demo_action 300 \<and>
      map_of (snd (next_action 350 1 [(1, d)])) 1 = Some (d\<lparr>dq_items := [demo_action 400]\<rparr>)"
proof -
  let ?d = "\<lparr>dq_items = [demo_action 10, demo_action 300, demo_action 400], dq_maxlen = Some 1000\<rparr>"
  have d: "map_of [(1, ?d)] 1 = Some ?d" by simp
  have "is_expired 350 (demo_action 10)" "\<not> is_expired 350 (demo_action 300)"
    "is_executable 350 (demo_action 300)"
    by (simp_all add: demo_action_def node_action_def new_action_def is_expired_def is_executable_def
        has_expired_def)
  with next_action_first_ready [OF d, of 350, THEN conjunct1, rule_format, of "[demo_action 10]" "demo_action 300"]
  show ?thesis by simp
qed

text \<open>
  One expired action blocks the queue. While an instance's queue holds an action that is expired,
  every new action for the instance is thrown away: the queue is the same after \<open>add_action\<close>.
\<close>

theorem expired_action_blocks_queue:
  assumes "map_of q (da_instance new) = Some d" and "a \<in> set (dq_items d)" and "is_expired now a"
  shows "add_action now new q = q"
  using assms
  by (auto simp: add_action_def Let_def dict_setdefault_def dict_get_def list_ex_iff is_needed_def
      split: option.splits)

theorem expired_action_blocks_queue_witness:
  "add_action 350 (demo_action 350) [(1, \<lparr>dq_items = [demo_action 10], dq_maxlen = Some 1000\<rparr>)] =
     [(1, \<lparr>dq_items = [demo_action 10], dq_maxlen = Some 1000\<rparr>)]"
  by (rule expired_action_blocks_queue [where a = "demo_action 10"
        and d = "\<lparr>dq_items = [demo_action 10], dq_maxlen = Some 1000\<rparr>"])
    (simp_all add: demo_action_def node_action_def new_action_def is_expired_def has_expired_def)

lemma dq_append_bound: "dq_maxlen d = Some m \<Longrightarrow> length (dq_items (dq_append a d)) \<le> m"
  by (simp add: dq_append_def Let_def)

lemma add_action_unlimited:
  assumes "map_of q (da_instance a) = Some d" and "dq_maxlen d = None"
    and "list_all (is_needed now) (dq_items d)" and "da_kind a = NodeAction nid nt st rs"
  shows "map_of (add_action now a q) (da_instance a) = Some (d\<lparr>dq_items := dq_items d @ [a]\<rparr>)"
proof -
  have "\<not> list_ex (\<lambda>b. is_same_action now a b \<or> \<not> is_needed now b) (dq_items d)"
    using assms(3,4) by (auto simp: list_ex_iff list_all_iff is_same_action_def)
  then show ?thesis
    using assms(1,2)
    by (simp add: add_action_def Let_def dict_setdefault_def dict_get_def dq_append_def update_conv')
qed

lemma add_actions_unlimited:
  assumes "map_of q (da_instance a) = Some d" and "dq_maxlen d = None"
    and "list_all (is_needed now) (dq_items d)" and "is_needed now a"
    and "da_kind a = NodeAction nid nt st rs"
  shows "map_of ((add_action now a ^^ n) q) (da_instance a) = Some (d\<lparr>dq_items := dq_items d @ replicate n a\<rparr>)"
proof (induction n)
  case (Suc n)
  have "list_all (is_needed now) (dq_items d @ replicate n a)"
    using assms(3,4) by (auto simp: list_all_iff)
  with add_action_unlimited [OF Suc, where now = now] assms(2,5) show ?case
    by (simp add: replicate_append_same)
qed (use assms(1) in simp)

text \<open>
  The limit of the queue is lost. A queue is created with a limit of 1000 actions and append keeps
  it; but when \<open>next_action\<close> finds nothing executable it replaces the queue by an unlimited one, and
  then any number of needed actions that are no repeated events can be added.
\<close>

theorem action_queue_limit_lost:
  assumes d: "map_of q inst = Some d" and "dq_items d \<noteq> []"
    and w: "list_all (\<lambda>b. is_needed now b \<and> \<not> is_executable now b) (dq_items d)"
    and a: "da_instance a = inst" "is_needed now a" "da_kind a = NodeAction nid nt st rs"
  shows "\<exists>d'. map_of ((add_action now a ^^ n) (snd (next_action now inst q))) inst = Some d' \<and>
    length (dq_items d') = length (dq_items d) + n"
proof -
  have f: "filter (\<lambda>b. \<not> is_expired now b) (dq_items d) = dq_items d"
    using w by (simp add: list_all_iff is_needed_def)
  have "next_loop now (dq_items d) [] = (None, [] @ filter (\<lambda>b. \<not> is_expired now b) (dq_items d))"
    using w by (intro next_loop_none) (simp add: list_all_iff)
  then have "next_loop now (dq_items d) [] = (None, dq_items d)" by (simp add: f)
  then have "map_of (snd (next_action now inst q)) inst = Some \<lparr>dq_items = dq_items d, dq_maxlen = None\<rparr>"
    using assms(1,2) by (simp add: next_action_def update_conv')
  then have "map_of (snd (next_action now inst q)) (da_instance a) =
      Some \<lparr>dq_items = dq_items d, dq_maxlen = None\<rparr>" using a(1) by simp
  from add_actions_unlimited [OF this, where n = n] w a show ?thesis by (auto simp: list_all_iff)
qed

theorem action_queue_limit_lost_witness:
  "\<exists>d'. map_of ((add_action 350 (demo_action 340) ^^ 5000) (snd (next_action 350 1
      [(1, \<lparr>dq_items = [demo_action 360], dq_maxlen = Some 1000\<rparr>)]))) 1 = Some d' \<and>
    length (dq_items d') = 5001"
  using action_queue_limit_lost [where q = "[(1, \<lparr>dq_items = [demo_action 360], dq_maxlen = Some 1000\<rparr>)]"
      and inst = 1 and d = "\<lparr>dq_items = [demo_action 360], dq_maxlen = Some 1000\<rparr>" and now = 350
      and a = "demo_action 340" and n = 5000]
  by (simp add: demo_action_def node_action_def new_action_def is_needed_def is_expired_def
      is_executable_def has_expired_def)

text \<open>
  Postponing expires. \<open>update_timestamp\<close> with an execution delay stores the expiry period in place
  of the delay: the delay of the action never changes, and a delay given without an expiry period
  makes the action expired from its own timestamp on.
\<close>

theorem update_timestamp_delay_lost:
  assumes "0 < executable_period"
  shows "da_executable_time_period (update_timestamp ts expired_period executable_period a) =
      da_executable_time_period a \<and>
    (of_int (da_timestamp (update_timestamp ts 0 executable_period a)) \<le> now \<longrightarrow>
      is_expired now (update_timestamp ts 0 executable_period a))"
  using assms by (simp add: update_timestamp_def Let_def is_expired_def has_expired_def)

theorem update_timestamp_delay_lost_witness:
  "is_expired 400 (update_timestamp 400 0 60 (demo_action 10))"
  using update_timestamp_delay_lost [of 60 400 0 "demo_action 10" 400]
  by (simp add: update_timestamp_def py_int_def)

end
