(* ===== verification/Job_Context.thy ===== *)
theory Job_Context
  imports Node_Model Diagnosis_Action
begin

text \<open>
  \<open>dlrover/python/master/node/job_context.py\<close>: the state the components of the master share. Nodes are
  stored as deep copies, so the tables hold values. The job arguments are only handed around and are
  left out; the locks make each operation atomic.
\<close>

section \<open>State and operations\<close>

type_synonym node_table = "(int, node) dict"

record job_context =
  jc_exit_code :: int
  jc_exit_reason :: "string option"
  jc_action_queue :: action_queue
  jc_job_nodes :: "(node_type, node_table) dict"
  jc_job_restart_count :: int
  jc_total_worker_num :: int
  jc_failed_nodes :: "(int, int) dict"
  jc_pre_check_status :: pre_check_status
  jc_job_stage :: job_stage
  jc_job_pre_status :: job_stage
  jc_job_node_groups :: "(int option, node_table) dict"
  jc_max_group_idx :: int

definition new_job_context :: job_context where
  "new_job_context =
     \<lparr>jc_exit_code = 0, jc_exit_reason = None, jc_action_queue = [], jc_job_nodes = [],
      jc_job_restart_count = 0, jc_total_worker_num = 0, jc_failed_nodes = [],
      jc_pre_check_status = PC_CHECKING, jc_job_stage = JOB_INIT, jc_job_pre_status = JOB_INIT,
      jc_job_node_groups = [], jc_max_group_idx = FIRST_GROUP_IDX\<rparr>"

definition next_group_idx :: "job_context \<Rightarrow> int \<times> job_context" where
  "next_group_idx c =
     (let i = jc_max_group_idx c + 1 in (i, c\<lparr>jc_max_group_idx := i\<rparr>))"

definition update_job_stage :: "job_stage \<Rightarrow> job_context \<Rightarrow> job_context" where
  "update_job_stage st c = c\<lparr>jc_job_stage := st\<rparr>"

definition enqueue_diagnosis_action :: "rat \<Rightarrow> diagnosis_action option \<Rightarrow> job_context \<Rightarrow> job_context" where
  "enqueue_diagnosis_action now act c =
     (case act of
        None \<Rightarrow> c
      | Some a \<Rightarrow> if da_type a = AT_NONE then c
                  else c\<lparr>jc_action_queue := add_action now a (jc_action_queue c)\<rparr>)"

definition enqueue_actions :: "rat \<Rightarrow> diagnosis_action option list \<Rightarrow> job_context \<Rightarrow> job_context" where
  "enqueue_actions now acts c = fold (enqueue_diagnosis_action now) acts c"

definition jc_next_action :: "rat \<Rightarrow> int \<Rightarrow> job_context \<Rightarrow> diagnosis_action \<times> job_context" where
  "jc_next_action now inst c =
     (case next_action now inst (jc_action_queue c) of
        (a, q) \<Rightarrow> (a, c\<lparr>jc_action_queue := q\<rparr>))"

definition clear_actions :: "job_context \<Rightarrow> job_context" where
  "clear_actions c = c\<lparr>jc_action_queue := []\<rparr>"

definition get_mutable_job_nodes :: "node_type \<Rightarrow> job_context \<Rightarrow> node_table" where
  "get_mutable_job_nodes ty c = dict_get (jc_job_nodes c) ty []"

definition preprocess :: "node_type \<Rightarrow> job_context \<Rightarrow> node_type" where
  "preprocess ty c = (if ty = NT_CHIEF \<and> \<not> dict_has (jc_job_nodes c) ty then NT_MASTER else ty)"

definition job_nodes_by_type :: "node_type \<Rightarrow> job_context \<Rightarrow> node_table" where
  "job_nodes_by_type ty c = dict_get (jc_job_nodes c) (preprocess ty c) []"

definition job_node :: "node_type \<Rightarrow> int \<Rightarrow> job_context \<Rightarrow> node option" where
  "job_node ty i c =
     (case map_of (jc_job_nodes c) (preprocess ty c) of None \<Rightarrow> None | Some t \<Rightarrow> map_of t i)"

definition job_node_by_rank :: "node_type \<Rightarrow> int \<Rightarrow> job_context \<Rightarrow> node option" where
  "job_node_by_rank ty rank c =
     (case map_of (jc_job_nodes c) (preprocess ty c) of
        None \<Rightarrow> None
      | Some t \<Rightarrow> find (\<lambda>n. nd_rank_index n = rank \<and> nd_status n = ST_RUNNING) (map snd t))"

definition job_node_group :: "int option \<Rightarrow> job_context \<Rightarrow> node_table" where
  "job_node_group g c = dict_get (jc_job_node_groups c) g []"


definition update_job_nodes_by_type :: "node_type \<Rightarrow> node_table \<Rightarrow> job_context \<Rightarrow> job_context" where
  "update_job_nodes_by_type ty t c = c\<lparr>jc_job_nodes := AList.update ty t (jc_job_nodes c)\<rparr>"

definition update_job_nodes :: "(node_type, node_table) dict \<Rightarrow> job_context \<Rightarrow> job_context" where
  "update_job_nodes ts c = c\<lparr>jc_job_nodes := ts\<rparr>"

definition update_job_node :: "node \<Rightarrow> job_context \<Rightarrow> job_context" where
  "update_job_node n c =
     (let ts = dict_setdefault (nd_type n) [] (jc_job_nodes c)
      in c\<lparr>jc_job_nodes := AList.update (nd_type n)
             (AList.update (nd_id n) n (dict_get ts (nd_type n) [])) ts\<rparr>)"

definition clear_job_nodes :: "job_context \<Rightarrow> job_context" where
  "clear_job_nodes c = c\<lparr>jc_job_nodes := []\<rparr>"

definition update_job_node_by_group :: "node \<Rightarrow> job_context \<Rightarrow> job_context" where
  "update_job_node_by_group n c =
     (let gs = dict_setdefault (nd_group n) [] (jc_job_node_groups c)
      in c\<lparr>jc_job_node_groups := AList.update (nd_group n)
             (AList.update (nd_rank_index n) n (dict_get gs (nd_group n) [])) gs\<rparr>)"

definition clear_job_node_groups :: "job_context \<Rightarrow> job_context" where
  "clear_job_node_groups c = c\<lparr>jc_job_node_groups := []\<rparr>"

definition report_failed_node :: "rat \<Rightarrow> int option \<Rightarrow> job_context \<Rightarrow> job_context" where
  "report_failed_node now i c =
     (case i of
        None \<Rightarrow> c
      | Some nid \<Rightarrow> c\<lparr>jc_failed_nodes := dict_setdefault nid (py_int now) (jc_failed_nodes c)\<rparr>)"

definition inc_job_restart_count :: "job_context \<Rightarrow> int \<times> job_context" where
  "inc_job_restart_count c =
     (let k = jc_job_restart_count c + 1 in (k, c\<lparr>jc_job_restart_count := k\<rparr>))"

definition get_failed_node_cnt :: "job_context \<Rightarrow> int" where
  "get_failed_node_cnt c = int (length (jc_failed_nodes c))"

definition running_in :: "node_table \<Rightarrow> int" where
  "running_in t = int (length (filter (\<lambda>(i, n). nd_status n = ST_RUNNING) t))"

definition get_running_node_size :: "job_context \<Rightarrow> int" where
  "get_running_node_size c =
     sum_list (map (\<lambda>ty. running_in (dict_get (jc_job_nodes c) ty []))
                [NT_WORKER, NT_PS, NT_CHIEF, NT_EVALUATOR])"

definition set_pre_check_status :: "pre_check_status \<Rightarrow> job_context \<Rightarrow> job_context" where
  "set_pre_check_status st c = c\<lparr>jc_pre_check_status := st\<rparr>"

definition update_total_worker_num :: "int \<Rightarrow> job_context \<Rightarrow> job_context" where
  "update_total_worker_num n c = c\<lparr>jc_total_worker_num := n\<rparr>"

definition request_stop :: "int \<Rightarrow> string \<Rightarrow> job_context \<Rightarrow> job_context" where
  "request_stop code reason c =
     (let c1 = c\<lparr>jc_job_stage := JOB_STOPPED\<rparr>
      in if code \<ge> 0 then c1\<lparr>jc_exit_code := code, jc_exit_reason := Some reason\<rparr> else c1)"

definition request_restart :: "job_context \<Rightarrow> job_context" where
  "request_restart c = c\<lparr>jc_job_stage := JOB_RESTARTING\<rparr>"

definition request_suspend :: "job_context \<Rightarrow> job_context" where
  "request_suspend c =
     (if jc_job_stage c = JOB_RUNNING \<or> jc_job_stage c = JOB_INIT
      then c\<lparr>jc_job_pre_status := jc_job_stage c, jc_job_stage := JOB_SUSPENDED\<rparr> else c)"

definition request_unsuspend :: "job_context \<Rightarrow> job_context" where
  "request_unsuspend c =
     (if jc_job_stage c = JOB_SUSPENDED then c\<lparr>jc_job_stage := jc_job_pre_status c\<rparr> else c)"

section \<open>The node tables\<close>

text \<open>
  Every table is filed under the type of its nodes and every node under its id; groups are filed by
  the rank of their nodes.
\<close>

definition table_ok :: "node_type \<Rightarrow> node_table \<Rightarrow> bool" where
  "table_ok ty t \<longleftrightarrow> wf_dict t \<and> dict_all (\<lambda>i n. nd_id n = i \<and> nd_type n = ty) t"

definition group_ok :: "int option \<Rightarrow> node_table \<Rightarrow> bool" where
  "group_ok g t \<longleftrightarrow> wf_dict t \<and> dict_all (\<lambda>r n. nd_rank_index n = r \<and> nd_group n = g) t"

definition jc_inv :: "job_context \<Rightarrow> bool" where
  "jc_inv c \<longleftrightarrow>
     wf_dict (jc_job_nodes c) \<and> dict_all table_ok (jc_job_nodes c) \<and>
     wf_dict (jc_failed_nodes c) \<and> wf_dict (jc_job_node_groups c) \<and>
     dict_all group_ok (jc_job_node_groups c) \<and>
     jc_job_pre_status c \<in> {JOB_INIT, JOB_RUNNING}"

datatype jc_op =
    JcNode node
  | JcGroupNode node
  | JcType node_type node_table
  | JcClearNodes
  | JcClearGroups
  | JcFailed rat "int option"
  | JcStage job_stage
  | JcSuspend
  | JcUnsuspend
  | JcStop int string
  | JcRestart
  | JcAction rat "diagnosis_action option"
  | JcNext rat int

text \<open>A table handed to \<open>update_job_nodes_by_type\<close> is one the master built from its nodes.\<close>

fun jc_step :: "jc_op \<Rightarrow> job_context \<Rightarrow> job_context" where
  "jc_step (JcNode n) c = update_job_node n c"
| "jc_step (JcGroupNode n) c = update_job_node_by_group n c"
| "jc_step (JcType ty t) c = (if table_ok ty t then update_job_nodes_by_type ty t c else c)"
| "jc_step JcClearNodes c = clear_job_nodes c"
| "jc_step JcClearGroups c = clear_job_node_groups c"
| "jc_step (JcFailed now i) c = report_failed_node now i c"
| "jc_step (JcStage st) c = update_job_stage st c"
| "jc_step JcSuspend c = request_suspend c"
| "jc_step JcUnsuspend c = request_unsuspend c"
| "jc_step (JcStop code reason) c = request_stop code reason c"
| "jc_step JcRestart c = request_restart c"
| "jc_step (JcAction now a) c = enqueue_diagnosis_action now a c"
| "jc_step (JcNext now inst) c = snd (jc_next_action now inst c)"

lemma jc_inv_new: "jc_inv new_job_context"
  by (simp add: jc_inv_def new_job_context_def)

lemma update_job_node_inv:
  assumes "jc_inv c"
  shows "jc_inv (update_job_node n c)"
proof -
  let ?ts = "dict_setdefault (nd_type n) [] (jc_job_nodes c)"
  have ts: "dict_all table_ok ?ts" using assms by (simp add: jc_inv_def table_ok_def)
  have "table_ok (nd_type n) (dict_get ?ts (nd_type n) [])"
    by (rule dict_all_get [OF ts]) (simp add: table_ok_def)
  then have "table_ok (nd_type n) (AList.update (nd_id n) n (dict_get ?ts (nd_type n) []))"
    by (simp add: table_ok_def)
  with assms ts show ?thesis by (simp add: jc_inv_def update_job_node_def Let_def)
qed

lemma update_job_node_by_group_inv:
  assumes "jc_inv c"
  shows "jc_inv (update_job_node_by_group n c)"
proof -
  let ?gs = "dict_setdefault (nd_group n) [] (jc_job_node_groups c)"
  have gs: "dict_all group_ok ?gs" using assms by (simp add: jc_inv_def group_ok_def)
  have "group_ok (nd_group n) (dict_get ?gs (nd_group n) [])"
    by (rule dict_all_get [OF gs]) (simp add: group_ok_def)
  then have "group_ok (nd_group n) (AList.update (nd_rank_index n) n (dict_get ?gs (nd_group n) []))"
    by (simp add: group_ok_def)
  with assms gs show ?thesis by (simp add: jc_inv_def update_job_node_by_group_def Let_def)
qed

lemma update_job_nodes_by_type_inv:
  "jc_inv c \<Longrightarrow> table_ok ty t \<Longrightarrow> jc_inv (update_job_nodes_by_type ty t c)"
  by (simp add: jc_inv_def update_job_nodes_by_type_def)

lemmas jc_simple_defs = clear_job_nodes_def clear_job_node_groups_def report_failed_node_def
  update_job_stage_def request_suspend_def request_unsuspend_def request_stop_def request_restart_def
  enqueue_diagnosis_action_def jc_next_action_def

lemma jc_step_inv: "jc_inv c \<Longrightarrow> jc_inv (jc_step op c)"
proof (cases op)
  case (JcNode n)
  assume "jc_inv c"
  then show ?thesis using JcNode by (simp add: update_job_node_inv)
next
  case (JcGroupNode n)
  assume "jc_inv c"
  then show ?thesis using JcGroupNode by (simp add: update_job_node_by_group_inv)
next
  case (JcType ty t)
  assume "jc_inv c"
  then show ?thesis using JcType by (simp add: update_job_nodes_by_type_inv)
qed (auto simp: jc_inv_def jc_simple_defs Let_def split: option.splits prod.splits)

interpretation jc_mach: op_machine jc_step jc_inv
  by unfold_locales (rule jc_step_inv)

section \<open>Properties\<close>

lemma update_job_node_lookup:
  "map_of (jc_job_nodes (update_job_node n c)) ty =
     (if ty = nd_type n
      then Some (AList.update (nd_id n) n (dict_get (jc_job_nodes c) ty []))
      else map_of (jc_job_nodes c) ty)"
  by (auto simp: update_job_node_def Let_def dict_setdefault_def dict_get_def update_conv'
      split: option.splits)

text \<open>
  Stored nodes are found. After a node is stored it is what a lookup by its type and id returns;
  the lookup of any other id of the type, and of any id of another type, is unchanged, except that
  storing the first chief ends the rule by which a chief is looked up among the masters.
\<close>

theorem stored_node_is_found:
  "job_node (nd_type n) (nd_id n) (update_job_node n c) = Some n \<and>
   (ty \<noteq> nd_type n \<and> \<not> (ty = NT_CHIEF \<and> preprocess ty c = NT_MASTER \<and> nd_type n = NT_MASTER) \<or>
      i \<noteq> nd_id n \<and> (nd_type n \<noteq> NT_CHIEF \<or> dict_has (jc_job_nodes c) NT_CHIEF) \<longrightarrow>
    job_node ty i (update_job_node n c) = job_node ty i c)"
proof -
  have has: "dict_has (jc_job_nodes (update_job_node n c)) ty' \<longleftrightarrow>
      ty' = nd_type n \<or> dict_has (jc_job_nodes c) ty'" for ty'
    by (simp add: dict_has_def update_job_node_lookup)
  show ?thesis
    by (auto simp: job_node_def preprocess_def has update_job_node_lookup update_conv' dict_get_def
        dict_has_def split: option.splits if_splits)
qed

theorem stored_node_is_found_witness:
  "job_node NT_WORKER 3 (update_job_node (demo_worker 3) new_job_context) = Some (demo_worker 3) \<and>
   job_node NT_WORKER 4 (update_job_node (demo_worker 3) new_job_context) = job_node NT_WORKER 4 new_job_context"
  using stored_node_is_found [of "demo_worker 3" new_job_context NT_WORKER 4]
  by (simp add: demo_worker_def new_node_def)

text \<open>
  Suspending a job and waking it. In every reachable state a job that can be suspended comes back
  to the stage it was in; repeated requests change nothing; a job that is stopping, stopped or
  restarting cannot be suspended, and waking a job that is not suspended has no effect.
\<close>

theorem suspend_unsuspend:
  fixes ops :: "jc_op list"
  defines "c \<equiv> fold jc_step ops new_job_context"
  shows "jc_job_stage (request_unsuspend (request_suspend c)) =
      (if jc_job_stage c = JOB_SUSPENDED then jc_job_pre_status c else jc_job_stage c) \<and>
    request_suspend (request_suspend c) = request_suspend c \<and>
    request_unsuspend (request_unsuspend c) = request_unsuspend c \<and>
    jc_job_stage (request_unsuspend c) \<noteq> JOB_SUSPENDED \<and>
    (jc_job_stage (request_suspend c) = JOB_SUSPENDED \<longleftrightarrow>
       jc_job_stage c \<in> {JOB_INIT, JOB_RUNNING, JOB_SUSPENDED})"
proof -
  have "jc_inv c" unfolding c_def by (intro jc_mach.run_inv jc_inv_new)
  then have "jc_job_pre_status c \<in> {JOB_INIT, JOB_RUNNING}" by (simp add: jc_inv_def)
  then show ?thesis by (cases "jc_job_stage c") (auto simp: request_suspend_def request_unsuspend_def)
qed




end
