(* ===== verification/Py_Strings.thy ===== *)
theory Py_Strings
  imports Py_Prelude
begin

text \<open>
  Python strings as the modelled code uses them: printing an integer, \<open>split\<close>, \<open>strip\<close>, \<open>join\<close> and
  \<open>int(s)\<close>, with the facts that printed integers parse back and that splitting undoes joining.
\<close>

section \<open>Operations\<close>

fun nat_digits :: "nat \<Rightarrow> string" where
  "nat_digits n =
     (if n < 10 then [char_of (48 + n)] else nat_digits (n div 10) @ [char_of (48 + n mod 10)])"

declare nat_digits.simps [simp del]

definition py_str_int :: "int \<Rightarrow> string" where
  "py_str_int i = (if i < 0 then ''-'' @ nat_digits (nat (- i)) else nat_digits (nat i))"

fun py_split :: "char \<Rightarrow> string \<Rightarrow> string list" where
  "py_split c [] = [[]]"
| "py_split c (x # xs) =
     (if x = c then [] # py_split c xs
      else case py_split c xs of [] \<Rightarrow> [[x]] | w # ws \<Rightarrow> (x # w) # ws)"

fun py_join :: "char \<Rightarrow> string list \<Rightarrow> string" where
  "py_join c [] = []"
| "py_join c [w] = w"
| "py_join c (w # ws) = w @ c # py_join c ws"

text \<open>The white space of \<open>str.strip\<close> among the characters up to 255.\<close>

definition py_space :: "char \<Rightarrow> bool" where
  "py_space c \<longleftrightarrow> of_char c \<in> ({9, 10, 11, 12, 13, 28, 29, 30, 31, 32, 133, 160} :: nat set)"

definition py_strip :: "string \<Rightarrow> string" where
  "py_strip s = rev (dropWhile py_space (rev (dropWhile py_space s)))"

definition py_digit :: "char \<Rightarrow> bool" where
  "py_digit c \<longleftrightarrow> 48 \<le> (of_char c :: nat) \<and> (of_char c :: nat) \<le> 57"

text \<open>\<open>int(s)\<close>: surrounding white space, an optional sign, digits with single underscores between them.\<close>

fun parse_digits :: "nat \<Rightarrow> string \<Rightarrow> nat option" where
  "parse_digits acc [] = Some acc"
| "parse_digits acc (c # cs) =
     (if py_digit c then parse_digits (10 * acc + (of_char c - 48)) cs
      else if c = CHR ''_'' \<and> cs \<noteq> [] \<and> py_digit (hd cs) then parse_digits acc cs
      else None)"

definition parse_nat :: "string \<Rightarrow> nat option" where
  "parse_nat s = (if s \<noteq> [] \<and> py_digit (hd s) then parse_digits 0 s else None)"

definition py_int_str :: "string \<Rightarrow> int py_result" where
  "py_int_str s =
     (let t = py_strip s;
          r = (case t of
                 [] \<Rightarrow> None
               | c # cs \<Rightarrow> if c = CHR ''-'' then map_option (\<lambda>n. - int n) (parse_nat cs)
                           else if c = CHR ''+'' then map_option int (parse_nat cs)
                           else map_option int (parse_nat t))
      in case r of None \<Rightarrow> Inl ValueError | Some i \<Rightarrow> Inr i)"

section \<open>Printed integers parse back\<close>

lemma digit_char: "d < 10 \<Longrightarrow> py_digit (char_of (48 + d)) \<and> (of_char (char_of (48 + d) :: char) :: nat) = 48 + d" for d :: nat
  by (simp add: py_digit_def)

lemma nat_digits_digits: "list_all py_digit (nat_digits n)" and nat_digits_ne: "nat_digits n \<noteq> []"
proof -
  show "list_all py_digit (nat_digits n)"
  proof (induction n rule: nat_digits.induct)
    case (1 n)
    then show ?case using digit_char [of n] digit_char [of "n mod 10"] by (subst nat_digits.simps) auto
  qed
  show "nat_digits n \<noteq> []" by (subst nat_digits.simps) simp
qed

lemma parse_digits_append:
  "list_all py_digit xs \<Longrightarrow> parse_digits acc (xs @ [c]) =
     (if py_digit c then map_option (\<lambda>n. 10 * n + (of_char c - 48)) (parse_digits acc xs) else None)"
  by (induction xs arbitrary: acc) auto

lemma parse_nat_digits: "parse_digits 0 (nat_digits n) = Some n"
proof (induction n rule: nat_digits.induct)
  case (1 n)
  show ?case
  proof (cases "n < 10")
    case True
    then show ?thesis using digit_char [OF True] by (subst nat_digits.simps) simp
  next
    case False
    have d: "n mod 10 < 10" by simp
    have "parse_digits 0 (nat_digits n) = parse_digits 0 (nat_digits (n div 10) @ [char_of (48 + n mod 10)])"
      using False by (subst nat_digits.simps) simp
    also have "\<dots> = Some (10 * (n div 10) + n mod 10)"
      using 1 [OF False] digit_char [OF d] nat_digits_digits by (simp add: parse_digits_append)
    finally show ?thesis by simp
  qed
qed

lemma parse_nat_printed: "parse_nat (nat_digits n) = Some n"
  using nat_digits_digits [of n] nat_digits_ne [of n] parse_nat_digits [of n]
  by (cases "nat_digits n") (auto simp: parse_nat_def)

lemma digit_no_space: "py_digit c \<Longrightarrow> \<not> py_space c"
  by (auto simp: py_digit_def py_space_def)

lemma strip_none: "s \<noteq> [] \<Longrightarrow> \<not> py_space (hd s) \<Longrightarrow> \<not> py_space (last s) \<Longrightarrow> py_strip s = s"
proof -
  assume s: "s \<noteq> []" "\<not> py_space (hd s)" "\<not> py_space (last s)"
  then have "dropWhile py_space s = s" by (cases s) auto
  moreover have "dropWhile py_space (rev s) = rev s" using s by (cases "rev s") (auto simp: last_rev [symmetric] hd_rev)
  ultimately show ?thesis by (simp add: py_strip_def)
qed

lemma printed_ends:
  "py_str_int i \<noteq> []" "\<not> py_space (hd (py_str_int i))" "\<not> py_space (last (py_str_int i))"
proof -
  have d: "py_digit (hd (nat_digits n))" "py_digit (last (nat_digits n))" for n
    using nat_digits_digits [of n] nat_digits_ne [of n] by (auto simp: list_all_iff)
  show "py_str_int i \<noteq> []" using nat_digits_ne by (simp add: py_str_int_def)
  show "\<not> py_space (hd (py_str_int i))"
    using d(1) digit_no_space by (auto simp: py_str_int_def py_space_def)
  show "\<not> py_space (last (py_str_int i))"
    using d(2) digit_no_space nat_digits_ne by (auto simp: py_str_int_def)
qed

lemma int_of_printed: "py_int_str (py_str_int i) = Inr i"
proof -
  have s: "py_strip (py_str_int i) = py_str_int i" by (rule strip_none) (rule printed_ends)+
  show ?thesis
  proof (cases "i < 0")
    case True
    then show ?thesis using s parse_nat_printed [of "nat (- i)"]
      by (simp add: py_int_str_def py_str_int_def)
  next
    case False
    have p: "py_str_int i = nat_digits (nat i)" using False by (simp add: py_str_int_def)
    obtain c cs where c: "nat_digits (nat i) = c # cs" "py_digit c"
      using nat_digits_ne [of "nat i"] nat_digits_digits [of "nat i"] by (cases "nat_digits (nat i)") auto
    then have "c \<noteq> CHR ''-''" "c \<noteq> CHR ''+''" by (auto simp: py_digit_def)
    then show ?thesis using s p c parse_nat_printed [of "nat i"] False by (simp add: py_int_str_def)
  qed
qed

lemma printed_chars: "c \<in> set (py_str_int i) \<Longrightarrow> py_digit c \<or> c = CHR ''-''"
  using nat_digits_digits by (auto simp: py_str_int_def list_all_iff split: if_splits)

section \<open>Splitting what was joined\<close>

lemma split_none: "c \<notin> set w \<Longrightarrow> py_split c w = [w]"
  by (induction w) auto

lemma split_ne: "py_split c s \<noteq> []"
  by (induction s) (auto split: list.splits)

lemma split_append: "c \<notin> set w \<Longrightarrow> py_split c (w @ c # s) = w # py_split c s"
  by (induction w) auto

lemma split_join: "ws \<noteq> [] \<Longrightarrow> \<forall>w\<in>set ws. c \<notin> set w \<Longrightarrow> py_split c (py_join c ws) = ws"
  by (induction c ws rule: py_join.induct) (auto simp: split_none split_append)

end
