(* ===== verification/Rdzv_Manager.thy ===== *)
theory Rdzv_Manager
  imports Net_Topology Job_Context Py_Strings
begin

text \<open>
  \<open>RendezvousManager\<close>, \<open>ElasticTrainingRendezvousManager\<close> and \<open>UcpRdzvManager\<close> of
  \<open>dlrover/python/master/elastic_training/rdzv_manager.py\<close>. Nodes join a waiting list; a query for the
  communication world completes a round when enough nodes wait. The job context the manager reads
  is an argument. Events, log lines and the completion callbacks are output: a query that completes
  a round returns what the callbacks are told. Of the rendezvous events only the rounds that have
  one are state.
\<close>

section \<open>State\<close>

record rdzv =
  rz_alive_nodes :: "int set"
  rz_waiting_nodes :: world
  rz_rdzv_nodes :: world
  rz_lastcall_time :: rat
  rz_min_nodes :: int
  rz_max_nodes :: int
  rz_waiting_timeout :: rat
  rz_rdzv_round :: int
  rz_node_unit :: int
  rz_latest_rdzv_nodes :: "int list"
  rz_start_rdzv_ts :: rat
  rz_node_rdzv_times :: "(int, rat) dict"
  rz_latest_log_nodes_time :: rat
  rz_save_ckpt_nodes :: "(int, int) dict"
  rz_event_rounds :: "int set"
  rz_blocked :: bool
  rz_block_reason :: string

definition new_rdzv :: rdzv where
  "new_rdzv =
     \<lparr>rz_alive_nodes = {}, rz_waiting_nodes = [], rz_rdzv_nodes = [], rz_lastcall_time = 0,
      rz_min_nodes = 0, rz_max_nodes = 0, rz_waiting_timeout = 30, rz_rdzv_round = 0,
      rz_node_unit = 1, rz_latest_rdzv_nodes = [], rz_start_rdzv_ts = 0, rz_node_rdzv_times = [],
      rz_latest_log_nodes_time = 0, rz_save_ckpt_nodes = [], rz_event_rounds = {},
      rz_blocked = False, rz_block_reason = ''''\<rparr>"

section \<open>Operations of the base class\<close>

definition set_rdzv_blocked :: "bool \<Rightarrow> string option \<Rightarrow> 'a rdzv_scheme \<Rightarrow> 'a rdzv_scheme" where
  "set_rdzv_blocked blocked reason s =
     s\<lparr>rz_blocked := blocked,
       rz_block_reason := (if blocked then (case reason of None \<Rightarrow> '''' | Some r \<Rightarrow> r) else '''')\<rparr>"

definition is_rdzv_blocked :: "'a rdzv_scheme \<Rightarrow> bool \<times> string option" where
  "is_rdzv_blocked s =
     (if \<not> rz_blocked s then (False, None)
      else (True, if rz_block_reason s = '''' then None else Some (rz_block_reason s)))"

definition clear_waiting_nodes :: "'a rdzv_scheme \<Rightarrow> 'a rdzv_scheme" where
  "clear_waiting_nodes s = s\<lparr>rz_waiting_nodes := []\<rparr>"

definition add_alive_node :: "int \<Rightarrow> 'a rdzv_scheme \<Rightarrow> 'a rdzv_scheme" where
  "add_alive_node i s = s\<lparr>rz_alive_nodes := insert i (rz_alive_nodes s)\<rparr>"

definition remove_alive_node :: "int \<Rightarrow> 'a rdzv_scheme \<Rightarrow> 'a rdzv_scheme" where
  "remove_alive_node i s =
     (let s1 = s\<lparr>rz_alive_nodes := rz_alive_nodes s - {i}\<rparr>;
          remove_rank = (case find (\<lambda>(r, m). nt_node_id m = i) (rz_waiting_nodes s1) of
                           None \<Rightarrow> - 1 | Some (r, m) \<Rightarrow> r)
      in if remove_rank \<ge> 0
         then s1\<lparr>rz_waiting_nodes := AList.delete remove_rank (rz_waiting_nodes s1)\<rparr> else s1)"

definition update_rdzv_params :: "int \<Rightarrow> int \<Rightarrow> rat \<Rightarrow> int \<Rightarrow> 'a rdzv_scheme \<Rightarrow> 'a rdzv_scheme" where
  "update_rdzv_params min_nodes max_nodes waiting_timeout node_unit s =
     (if rz_max_nodes s = 0
      then s\<lparr>rz_min_nodes := min_nodes, rz_max_nodes := max_nodes,
             rz_waiting_timeout := waiting_timeout, rz_node_unit := node_unit\<rparr>
      else s)"

text \<open>The first loop of \<open>_check_rdzv_completed\<close>: waiting nodes that reported a failed exit leave.\<close>

definition drop_exited_nodes :: "job_context \<Rightarrow> 'a rdzv_scheme \<Rightarrow> 'a rdzv_scheme" where
  "drop_exited_nodes ctx s =
     fold (\<lambda>i s. case job_node NT_WORKER i ctx of
              None \<Rightarrow> s
            | Some n \<Rightarrow> if is_failed_and_exited n then remove_alive_node (nd_id n) s else s)
       (map (nt_node_id \<circ> snd) (rz_waiting_nodes s)) s"

definition log_rendezvous_info :: "'a rdzv_scheme \<Rightarrow> 'a rdzv_scheme" where
  "log_rendezvous_info s = s\<lparr>rz_node_rdzv_times := [], rz_start_rdzv_ts := 0\<rparr>"

text \<open>What completing a round with the first \<open>n\<close> waiting ranks writes.\<close>

definition complete_round :: "int \<Rightarrow> 'a rdzv_scheme \<Rightarrow> 'a rdzv_scheme" where
  "complete_round n s =
     (let node_ids = take (nat n) (sort (map fst (rz_waiting_nodes s)));
          nodes = map (\<lambda>r. (r, the (map_of (rz_waiting_nodes s) r))) node_ids;
          extra = filter (\<lambda>(r, m). r \<notin> set (map fst nodes)) (rz_waiting_nodes s)
      in log_rendezvous_info
           (s\<lparr>rz_rdzv_nodes := nodes, rz_latest_rdzv_nodes := map fst nodes,
              rz_waiting_nodes := extra, rz_lastcall_time := 0\<rparr>))"

definition check_rdzv_completed :: "rat \<Rightarrow> job_context \<Rightarrow> 'a rdzv_scheme \<Rightarrow> ('a rdzv_scheme, bool) py_run" where
  "check_rdzv_completed now ctx s0 =
     (let s = drop_exited_nodes ctx s0
      in if fst (is_rdzv_blocked s) then (Inr False, s)
         else
           let waiting_num = int (length (rz_waiting_nodes s))
           in if waiting_num = rz_max_nodes s then (Inr True, complete_round waiting_num s)
              else if waiting_num \<ge> rz_min_nodes s \<and> now - rz_lastcall_time s \<ge> rz_waiting_timeout s
              then if rz_node_unit s = 0 then (Inl ZeroDivisionError, s)
                   else (Inr True,
                         complete_round (waiting_num div rz_node_unit s * rz_node_unit s) s)
              else (Inr False,
                    if now - rz_latest_log_nodes_time s > 60
                    then s\<lparr>rz_latest_log_nodes_time := now\<rparr> else s))"

definition get_lacking_ranks :: "'a rdzv_scheme \<Rightarrow> int list" where
  "get_lacking_ranks s =
     (if rz_min_nodes s \<le> 0 \<or> rz_max_nodes s \<le> 0 then []
      else if rz_max_nodes s > int (length (rz_waiting_nodes s))
      then filter (\<lambda>r. r \<notin> fst ` set (rz_waiting_nodes s)) [0..rz_max_nodes s - 1] else [])"

definition not_joined_rdzv_nodes :: "'a rdzv_scheme \<Rightarrow> int set" where
  "not_joined_rdzv_nodes s =
     (if rz_rdzv_nodes s \<noteq> []
      then rz_alive_nodes s - (nt_node_id \<circ> snd) ` set (rz_rdzv_nodes s) else {})"

definition query_node_group :: "job_context \<Rightarrow> int \<Rightarrow> int \<times> int \<times> string option" where
  "query_node_group ctx i =
     (case job_node NT_WORKER i ctx of
        None \<Rightarrow> (- 1, 0, Some '''')
      | Some n \<Rightarrow> (case (nd_group n, nd_group_size n) of
                     (Some g, Some k) \<Rightarrow> (g, k, nd_group_id n)
                   | _ \<Rightarrow> (- 1, 0, Some '''')))"

definition join_rendezvous ::
    "rat \<Rightarrow> job_context \<Rightarrow> int \<Rightarrow> int \<Rightarrow> int \<Rightarrow> string \<Rightarrow> 'a rdzv_scheme \<Rightarrow> int \<times> 'a rdzv_scheme" where
  "join_rendezvous now ctx node_id node_rank local_world_size node_ip s =
     (let s1 = (if rz_waiting_nodes s = [] then s\<lparr>rz_start_rdzv_ts := now\<rparr> else s)
      in if dict_has (rz_waiting_nodes s1) node_rank then (rz_rdzv_round s1, s1)
         else
           let (asw, psw) = default_query node_ip;
               (g, gs, gid) = query_node_group ctx node_id;
               meta = \<lparr>nt_node_id = node_id, nt_node_rank = node_rank,
                       nt_process_num = local_world_size, nt_node_ip = node_ip, nt_asw = asw,
                       nt_psw = psw, nt_node_group = g, nt_node_group_size = gs,
                       nt_node_group_id = gid\<rparr>;
               s2 = s1\<lparr>rz_waiting_nodes := AList.update node_rank meta (rz_waiting_nodes s1),
                       rz_rdzv_nodes := [], rz_lastcall_time := now,
                       rz_node_rdzv_times := AList.update node_rank
                         (py_round_nd 2 (now - rz_start_rdzv_ts s1)) (rz_node_rdzv_times s1),
                       rz_event_rounds := insert (rz_rdzv_round s1) (rz_event_rounds s1)\<rparr>
           in (rz_rdzv_round s2, s2))"

definition has_node_restart :: "'a rdzv_scheme \<Rightarrow> bool" where
  "has_node_restart s \<longleftrightarrow>
     list_ex (\<lambda>r. r \<in> set (rz_latest_rdzv_nodes s)) (map fst (rz_waiting_nodes s))"

definition num_nodes_waiting :: "'a rdzv_scheme \<Rightarrow> int" where
  "num_nodes_waiting s =
     (if has_node_restart s then int (length (rz_waiting_nodes s))
      else if int (length (rz_waiting_nodes s)) \<ge> rz_node_unit s
      then int (length (rz_waiting_nodes s)) else 0)"

definition sync_ckpt_nodes :: "int \<Rightarrow> int \<Rightarrow> 'a rdzv_scheme \<Rightarrow> bool \<times> 'a rdzv_scheme" where
  "sync_ckpt_nodes node_id step s =
     (let s1 = s\<lparr>rz_save_ckpt_nodes := AList.update node_id step (rz_save_ckpt_nodes s)\<rparr>;
          steps = snd ` set (rz_save_ckpt_nodes s1)
      in if card steps > 1 then (False, s1)
         else (length (rz_save_ckpt_nodes s1) = length (rz_latest_rdzv_nodes s1), s1))"

section \<open>The training rendezvous\<close>

text \<open>
  The answer of \<open>get_comm_world\<close>: the round, the group, the world; and, when the query completed a
  round, the round and node ids the completion callbacks get.
\<close>

record comm_world =
  cw_round :: int
  cw_group :: int
  cw_world :: world
  cw_notify :: "(int \<times> int list) option"

definition et_get_comm_world ::
    "rat \<Rightarrow> job_context \<Rightarrow> int \<Rightarrow> 'a rdzv_scheme \<Rightarrow> ('a rdzv_scheme, comm_world) py_run" where
  "et_get_comm_world now ctx node_rank s =
     (if rz_rdzv_nodes s = []
      then case check_rdzv_completed now ctx s of
             (Inl e, s1) \<Rightarrow> (Inl e, s1)
           | (Inr False, s1) \<Rightarrow>
               (Inr \<lparr>cw_round = rz_rdzv_round s1, cw_group = 0, cw_world = rz_rdzv_nodes s1,
                     cw_notify = None\<rparr>, s1)
           | (Inr True, s1) \<Rightarrow>
               let finished_round = rz_rdzv_round s1;
                   s2 = s1\<lparr>rz_rdzv_round := finished_round + 1\<rparr>
               in (case dp_topology_sort (rz_rdzv_nodes s2) of
                     Inl e \<Rightarrow> (Inl e, s2)
                   | Inr w \<Rightarrow>
                       let s3 = s2\<lparr>rz_rdzv_nodes := w\<rparr>
                       in (Inr \<lparr>cw_round = rz_rdzv_round s3, cw_group = 0, cw_world = w,
                                cw_notify = Some (finished_round, map (nt_node_id \<circ> snd) w)\<rparr>, s3))
      else (Inr \<lparr>cw_round = rz_rdzv_round s, cw_group = 0, cw_world = rz_rdzv_nodes s,
                 cw_notify = None\<rparr>, s))"

text \<open>\<open>UcpRdzvManager.set_rdzv_blocked\<close>: a block without a reason gets the standard one.\<close>

definition ucp_set_rdzv_blocked :: "bool \<Rightarrow> string option \<Rightarrow> 'a rdzv_scheme \<Rightarrow> 'a rdzv_scheme" where
  "ucp_set_rdzv_blocked blocked reason s =
     set_rdzv_blocked blocked
       (if blocked \<and> (reason = None \<or> reason = Some '''')
        then Some (''Previous rendezvous round ('' @ py_str_int (rz_rdzv_round s) @
                   '') not finished yet. blocked=True. Waiting for previous round completion.'')
        else reason) s"

section \<open>Leaving the waiting list\<close>

text \<open>
  Dropping exited nodes only removes entries from the waiting list and ids from the alive set.
\<close>

definition only_drops :: "'a rdzv_scheme \<Rightarrow> 'a rdzv_scheme \<Rightarrow> bool" where
  "only_drops s s' \<longleftrightarrow>
     (\<exists>P al. s' = s\<lparr>rz_alive_nodes := al, rz_waiting_nodes := filter P (rz_waiting_nodes s)\<rparr>)"

lemma only_drops_refl: "only_drops s s"
  unfolding only_drops_def by (intro exI [of _ "\<lambda>_. True"] exI [of _ "rz_alive_nodes s"]) simp

lemma only_drops_trans: "only_drops s s1 \<Longrightarrow> only_drops s1 s2 \<Longrightarrow> only_drops s s2"
  unfolding only_drops_def by fastforce

lemma remove_alive_node_drops: "only_drops s (remove_alive_node i s)"
proof -
  have "AList.delete k d = filter (\<lambda>p. fst p \<noteq> k) d" for k :: int and d :: world
    by (simp add: AList.delete_eq split_def eq_commute [of k])
  then show ?thesis
    unfolding only_drops_def remove_alive_node_def Let_def
    by (cases "find (\<lambda>(r, m). nt_node_id m = i) (rz_waiting_nodes s)")
      (fastforce intro: exI [of _ "\<lambda>_. True"])+
qed

lemma fold_drops:
  "(\<And>i s. only_drops s (f i s)) \<Longrightarrow> only_drops s (fold f xs s)"
  by (induction xs arbitrary: s) (auto intro: only_drops_refl only_drops_trans)

lemma drop_exited_drops: "only_drops s (drop_exited_nodes ctx s)"
  unfolding drop_exited_nodes_def
  by (rule fold_drops) (auto simp: remove_alive_node_drops only_drops_refl split: option.splits)

lemma fold_id: "(\<And>i. i \<in> set xs \<Longrightarrow> f i s = s) \<Longrightarrow> fold f xs s = s"
  by (induction xs) auto

lemma drop_exited_none:
  assumes "\<forall>(r, m)\<in>set (rz_waiting_nodes s).
    case job_node NT_WORKER (nt_node_id m) ctx of None \<Rightarrow> True | Some n \<Rightarrow> \<not> is_failed_and_exited n"
  shows "drop_exited_nodes ctx s = s"
  unfolding drop_exited_nodes_def
  by (rule fold_id) (use assms in \<open>fastforce split: option.splits\<close>)

section \<open>Completing a round\<close>

lemma mset_filter_partition: "mset (filter P xs) + mset (filter (\<lambda>x. \<not> P x) xs) = mset xs"
  by (induction xs) auto

definition first_ranks :: "int \<Rightarrow> world \<Rightarrow> int list" where
  "first_ranks n w = take (nat n) (sort (map fst w))"

lemma first_ranks_facts:
  assumes "wf_dict w"
  shows "distinct (first_ranks n w)" and "set (first_ranks n w) \<subseteq> fst ` set w"
    and "length (first_ranks n w) = min (nat n) (length w)"
    and "a \<in> set (first_ranks n w) \<Longrightarrow> b \<in> fst ` set w - set (first_ranks n w) \<Longrightarrow> a < b"
proof -
  let ?s = "sort (map fst w)"
  have d: "distinct ?s" using assms by (simp add: wf_dict_def)
  then show "distinct (first_ranks n w)" by (simp add: first_ranks_def)
  show "set (first_ranks n w) \<subseteq> fst ` set w"
    using set_take_subset [of "nat n" ?s] by (simp add: first_ranks_def)
  show "length (first_ranks n w) = min (nat n) (length w)" by (simp add: first_ranks_def)
  assume a: "a \<in> set (first_ranks n w)" and b: "b \<in> fst ` set w - set (first_ranks n w)"
  have split: "?s = take (nat n) ?s @ drop (nat n) ?s" by simp
  have "set ?s = set (take (nat n) ?s) \<union> set (drop (nat n) ?s)" by (metis split set_append)
  then have b': "b \<in> set (drop (nat n) ?s)" using b by (auto simp: first_ranks_def)
  have "sorted (take (nat n) ?s @ drop (nat n) ?s)" by simp
  then have "a \<le> b" using a b' unfolding sorted_append first_ranks_def by blast
  moreover have "a \<noteq> b" using a b by auto
  ultimately show "a < b" by simp
qed

lemma complete_round_eq:
  assumes "world_ok (rz_waiting_nodes s)"
  defines "w \<equiv> rz_waiting_nodes s"
  shows "\<exists>nodes. complete_round n s =
      s\<lparr>rz_rdzv_nodes := nodes, rz_latest_rdzv_nodes := first_ranks n w,
        rz_waiting_nodes := filter (\<lambda>(r, m). r \<notin> set (first_ranks n w)) w,
        rz_lastcall_time := 0, rz_node_rdzv_times := [], rz_start_rdzv_ts := 0\<rparr> \<and>
    map fst nodes = first_ranks n w \<and>
    mset nodes = mset (filter (\<lambda>(r, m). r \<in> set (first_ranks n w)) w)"
proof -
  let ?ids = "first_ranks n w"
  let ?nodes = "map (\<lambda>r. (r, the (map_of w r))) ?ids"
  have wf: "wf_dict w" using assms by (simp add: world_ok_def)
  note f = first_ranks_facts [OF wf, of n]
  have k: "map fst ?nodes = ?ids" by (simp add: o_def)
  have "distinct ?nodes" using f(1) k by (metis distinct_map)
  moreover have "distinct (filter (\<lambda>(r, m). r \<in> set ?ids) w)"
    using wf by (auto simp: wf_dict_def distinct_map intro: distinct_filter)
  moreover have "set ?nodes = set (filter (\<lambda>(r, m). r \<in> set ?ids) w)"
  proof -
    have "(r, m) \<in> set w \<longleftrightarrow> map_of w r = Some m" for r m using wf by (rule wf_dict_mem_map_of)
    moreover have "map_of w r \<noteq> None" if "r \<in> set ?ids" for r
      using f(2) that by (auto simp: map_of_eq_None_iff)
    ultimately show ?thesis by fastforce
  qed
  ultimately have m: "mset ?nodes = mset (filter (\<lambda>(r, m). r \<in> set ?ids) w)"
    using set_eq_iff_mset_eq_distinct by blast
  have "complete_round n s = s\<lparr>rz_rdzv_nodes := ?nodes, rz_latest_rdzv_nodes := ?ids,
        rz_waiting_nodes := filter (\<lambda>(r, m). r \<notin> set ?ids) w,
        rz_lastcall_time := 0, rz_node_rdzv_times := [], rz_start_rdzv_ts := 0\<rparr>"
    unfolding complete_round_def Let_def first_ranks_def [symmetric] w_def [symmetric] log_rendezvous_info_def
    by (simp add: o_def)
  with k m show ?thesis by blast
qed

section \<open>The invariant\<close>

text \<open>
  Waiting nodes and members of the world are filed under their own rank, and nobody who is in the
  current world is waiting.
\<close>

definition rz_inv :: "'a rdzv_scheme \<Rightarrow> bool" where
  "rz_inv s \<longleftrightarrow> world_ok (rz_waiting_nodes s) \<and> world_ok (rz_rdzv_nodes s) \<and>
     fst ` set (rz_waiting_nodes s) \<inter> fst ` set (rz_rdzv_nodes s) = {}"

lemma world_ok_simps [simp]: "world_ok []"
  by (simp add: world_ok_def)

lemma world_ok_filter [simp]: "world_ok w \<Longrightarrow> world_ok (filter P w)"
  by (simp add: world_ok_def)

lemma world_ok_update: "world_ok w \<Longrightarrow> nt_node_rank m = r \<Longrightarrow> world_ok (AList.update r m w)"
  by (simp add: world_ok_def)

lemma world_ok_single [simp]: "world_ok [(r, m)] \<longleftrightarrow> nt_node_rank m = r"
  by (simp add: world_ok_def wf_dict_def dict_all_def)

lemma world_ok_mset: "world_ok w \<Longrightarrow> mset v = mset w \<Longrightarrow> world_ok v"
proof -
  assume w: "world_ok w" and m: "mset v = mset w"
  then have "set v = set w" by (metis set_mset_mset)
  moreover have "mset (map fst v) = mset (map fst w)" using m by (simp only: mset_map)
  ultimately show "world_ok v"
    using w mset_eq_imp_distinct_iff [of "map fst v" "map fst w"]
    by (simp add: world_ok_def wf_dict_def dict_all_iff)
qed

lemma rz_inv_new: "rz_inv new_rdzv"
  by (simp add: rz_inv_def new_rdzv_def)

lemma only_drops_inv:
  assumes "rz_inv s" and "only_drops s s'"
  shows "rz_inv s'"
proof -
  obtain P al where s': "s' = s\<lparr>rz_alive_nodes := al, rz_waiting_nodes := filter P (rz_waiting_nodes s)\<rparr>"
    using assms(2) by (auto simp: only_drops_def)
  have "fst ` set (filter P (rz_waiting_nodes s)) \<subseteq> fst ` set (rz_waiting_nodes s)" by auto
  with assms(1) show ?thesis unfolding s' rz_inv_def by auto
qed

lemma only_drops_fields:
  assumes "only_drops s s'"
  shows "rz_rdzv_nodes s' = rz_rdzv_nodes s" "rz_rdzv_round s' = rz_rdzv_round s"
    "rz_blocked s' = rz_blocked s" "rz_max_nodes s' = rz_max_nodes s" "rz_min_nodes s' = rz_min_nodes s"
    "rz_node_unit s' = rz_node_unit s" "rz_waiting_timeout s' = rz_waiting_timeout s"
    "rz_lastcall_time s' = rz_lastcall_time s" "set (rz_waiting_nodes s') \<subseteq> set (rz_waiting_nodes s)"
  using assms by (auto simp: only_drops_def)

lemma complete_round_inv:
  assumes "rz_inv s"
  shows "rz_inv (complete_round n s)"
proof -
  let ?w = "rz_waiting_nodes s"
  have w: "world_ok ?w" using assms by (simp add: rz_inv_def)
  obtain nodes where c: "complete_round n s =
      s\<lparr>rz_rdzv_nodes := nodes, rz_latest_rdzv_nodes := first_ranks n ?w,
        rz_waiting_nodes := filter (\<lambda>(r, m). r \<notin> set (first_ranks n ?w)) ?w,
        rz_lastcall_time := 0, rz_node_rdzv_times := [], rz_start_rdzv_ts := 0\<rparr>"
    and k: "map fst nodes = first_ranks n ?w"
    and m: "mset nodes = mset (filter (\<lambda>(r, m). r \<in> set (first_ranks n ?w)) ?w)"
    using complete_round_eq [OF w] by blast
  have "fst ` set nodes = set (first_ranks n ?w)" using k by (metis list.set_map)
  moreover have "world_ok nodes" by (rule world_ok_mset [OF world_ok_filter [OF w] m])
  ultimately show ?thesis using w unfolding c rz_inv_def by auto
qed

lemma check_rdzv_completed_inv:
  assumes "rz_inv s"
  shows "rz_inv (snd (check_rdzv_completed now ctx s))"
proof -
  have d: "rz_inv (drop_exited_nodes ctx s)" by (rule only_drops_inv [OF assms drop_exited_drops])
  then have "rz_inv ((drop_exited_nodes ctx s)\<lparr>rz_latest_log_nodes_time := now\<rparr>)"
    by (simp add: rz_inv_def)
  with d complete_round_inv [OF d] show ?thesis by (simp add: check_rdzv_completed_def Let_def)
qed

lemma et_get_comm_world_inv:
  assumes "rz_inv s"
  shows "rz_inv (snd (et_get_comm_world now ctx r s))"
proof -
  obtain res s1 where c: "check_rdzv_completed now ctx s = (res, s1)" by fastforce
  have s1: "rz_inv s1" using check_rdzv_completed_inv [OF assms, of now ctx] c by simp
  have sorted: "rz_inv (s1\<lparr>rz_rdzv_round := k, rz_rdzv_nodes := v\<rparr>)"
    if "dp_topology_sort (rz_rdzv_nodes s1) = Inr v" for v k
  proof -
    have w: "world_ok (rz_rdzv_nodes s1)" using s1 by (simp add: rz_inv_def)
    note p = dp_topology_sort_perm [OF w that]
    then have "set v = set (rz_rdzv_nodes s1)" by (metis set_mset_mset)
    with p(2) s1 show ?thesis by (simp add: rz_inv_def)
  qed
  have "rz_inv (s1\<lparr>rz_rdzv_round := k\<rparr>)" for k using s1 by (simp add: rz_inv_def)
  with assms s1 sorted c show ?thesis
    by (auto simp: et_get_comm_world_def Let_def split: sum.splits bool.splits)
qed

lemma join_rendezvous_inv:
  assumes "rz_inv s"
  shows "rz_inv (snd (join_rendezvous now ctx i r lws ip s))"
  using assms
  by (auto simp: join_rendezvous_def Let_def rz_inv_def world_ok_update split: prod.splits)

datatype rz_op =
    RzJoin rat job_context int int int string
  | RzWorld rat job_context int
  | RzAlive int
  | RzGone int
  | RzParams int int rat int
  | RzClear
  | RzBlock bool "string option"
  | RzSync int int

fun rz_step :: "rz_op \<Rightarrow> rdzv \<Rightarrow> rdzv" where
  "rz_step (RzJoin now ctx i r lws ip) s = snd (join_rendezvous now ctx i r lws ip s)"
| "rz_step (RzWorld now ctx r) s = snd (et_get_comm_world now ctx r s)"
| "rz_step (RzAlive i) s = add_alive_node i s"
| "rz_step (RzGone i) s = remove_alive_node i s"
| "rz_step (RzParams a b t u) s = update_rdzv_params a b t u s"
| "rz_step RzClear s = clear_waiting_nodes s"
| "rz_step (RzBlock b reason) s = ucp_set_rdzv_blocked b reason s"
| "rz_step (RzSync i step) s = snd (sync_ckpt_nodes i step s)"

lemmas rz_simple_defs = add_alive_node_def update_rdzv_params_def clear_waiting_nodes_def
  ucp_set_rdzv_blocked_def set_rdzv_blocked_def sync_ckpt_nodes_def

declare rz_simple_defs [machine_defs]

lemma rz_step_inv: "rz_inv s \<Longrightarrow> rz_inv (rz_step op s)"
proof (cases op)
  case (RzJoin now ctx i r lws ip)
  assume "rz_inv s"
  then show ?thesis using RzJoin by (simp add: join_rendezvous_inv)
next
  case (RzWorld now ctx r)
  assume "rz_inv s"
  then show ?thesis using RzWorld by (simp add: et_get_comm_world_inv)
next
  case (RzGone i)
  assume "rz_inv s"
  then show ?thesis using RzGone only_drops_inv [OF _ remove_alive_node_drops] by simp
qed (auto simp: rz_inv_def rz_simple_defs Let_def)

lemma complete_round_round: "rz_rdzv_round (complete_round n s) = rz_rdzv_round s"
  by (simp add: complete_round_def Let_def log_rendezvous_info_def)

lemma check_rdzv_completed_round:
  "rz_rdzv_round (snd (check_rdzv_completed now ctx s)) = rz_rdzv_round s"
  using only_drops_fields(2) [OF drop_exited_drops [of s ctx]]
  by (simp add: check_rdzv_completed_def Let_def complete_round_round)

lemma et_get_comm_world_round:
  "rz_rdzv_round s \<le> rz_rdzv_round (snd (et_get_comm_world now ctx r s))"
  using check_rdzv_completed_round [of now ctx s]
  by (auto simp: et_get_comm_world_def Let_def split: sum.splits prod.splits bool.splits)

lemma rz_step_round: "rz_rdzv_round s \<le> rz_rdzv_round (rz_step op s)"
proof (cases op)
  case (RzWorld now ctx r)
  then show ?thesis by (simp add: et_get_comm_world_round)
next
  case (RzGone i)
  then show ?thesis using only_drops_fields(2) [OF remove_alive_node_drops [of s i]] by simp
qed (auto simp: rz_simple_defs join_rendezvous_def Let_def split: prod.splits)

interpretation rz_mach: counting_machine rz_step rz_inv rz_rdzv_round
  by unfold_locales (rule rz_step_inv, assumption, rule rz_step_round)

section \<open>Properties of the training rendezvous\<close>

lemma complete_round_spec:
  assumes w: "world_ok (rz_waiting_nodes s)" and n: "0 \<le> n" "n \<le> int (length (rz_waiting_nodes s))"
  shows "\<exists>nodes. rz_rdzv_nodes (complete_round n s) = nodes \<and> world_ok nodes \<and> int (length nodes) = n \<and>
    mset nodes + mset (rz_waiting_nodes (complete_round n s)) = mset (rz_waiting_nodes s) \<and>
    (\<forall>a\<in>fst ` set nodes. \<forall>b\<in>fst ` set (rz_waiting_nodes (complete_round n s)). a < b)"
proof -
  let ?w = "rz_waiting_nodes s" and ?ids = "first_ranks n (rz_waiting_nodes s)"
  have wf: "wf_dict ?w" using w by (simp add: world_ok_def)
  note f = first_ranks_facts [OF wf, of n]
  obtain nodes where c: "complete_round n s =
      s\<lparr>rz_rdzv_nodes := nodes, rz_latest_rdzv_nodes := ?ids,
        rz_waiting_nodes := filter (\<lambda>(r, m). r \<notin> set ?ids) ?w,
        rz_lastcall_time := 0, rz_node_rdzv_times := [], rz_start_rdzv_ts := 0\<rparr>"
    and k: "map fst nodes = ?ids"
    and m: "mset nodes = mset (filter (\<lambda>(r, m). r \<in> set ?ids) ?w)"
    using complete_round_eq [OF w] by blast
  have keys: "fst ` set nodes = set ?ids" using k by (metis list.set_map)
  have len: "int (length nodes) = n" using f(3) n arg_cong [OF k, of length] by simp
  have split: "mset nodes + mset (filter (\<lambda>(r, m). r \<notin> set ?ids) ?w) = mset ?w"
    unfolding m using mset_filter_partition [of "\<lambda>(r, m). r \<in> set ?ids" ?w] by (simp add: split_def)
  have less: "a < b" if "a \<in> fst ` set nodes" "b \<in> fst ` set (filter (\<lambda>(r, m). r \<notin> set ?ids) ?w)" for a b
  proof -
    have "b \<in> fst ` set ?w" "b \<notin> set ?ids" using that(2) by force+
    then show ?thesis using first_ranks_facts(4) [OF wf, where n = n and a = a and b = b] that(1) keys by auto
  qed
  have "world_ok nodes" by (rule world_ok_mset [OF world_ok_filter [OF w] m])
  moreover have "rz_rdzv_nodes (complete_round n s) = nodes"
    "rz_waiting_nodes (complete_round n s) = filter (\<lambda>(r, m). r \<notin> set ?ids) ?w"
    unfolding c by simp_all
  ultimately show ?thesis using len split less by metis
qed

text \<open>Why a round is complete, and with how many nodes.\<close>

definition round_size :: "rat \<Rightarrow> 'a rdzv_scheme \<Rightarrow> int option" where
  "round_size now s =
     (let n = int (length (rz_waiting_nodes s))
      in if rz_blocked s then None
         else if n = rz_max_nodes s then Some n
         else if n \<ge> rz_min_nodes s \<and> now - rz_lastcall_time s \<ge> rz_waiting_timeout s
         then Some (n div rz_node_unit s * rz_node_unit s) else None)"

lemma round_size_le:
  assumes "0 < rz_node_unit s" and "round_size now s = Some n"
  shows "0 \<le> n" and "n \<le> int (length (rz_waiting_nodes s))"
proof -
  have "int (length (rz_waiting_nodes s)) div rz_node_unit s * rz_node_unit s \<le> int (length (rz_waiting_nodes s))"
    using pos_mod_sign [OF assms(1), of "int (length (rz_waiting_nodes s))"]
    by (simp flip: minus_mod_eq_div_mult)
  then show "0 \<le> n" "n \<le> int (length (rz_waiting_nodes s))"
    using assms by (auto simp: round_size_def Let_def pos_imp_zdiv_nonneg_iff split: if_splits)
qed

lemma check_rdzv_completed_eq:
  fixes ctx :: job_context
  assumes "0 < rz_node_unit s"
  defines "s1 \<equiv> drop_exited_nodes ctx s"
  shows "check_rdzv_completed now ctx s =
    (case round_size now s1 of
       Some n \<Rightarrow> (Inr True, complete_round n s1)
     | None \<Rightarrow> (Inr False, if \<not> rz_blocked s1 \<and> now - rz_latest_log_nodes_time s1 > 60
                           then s1\<lparr>rz_latest_log_nodes_time := now\<rparr> else s1))"
proof -
  have "rz_node_unit s1 \<noteq> 0"
    using assms only_drops_fields(6) [OF drop_exited_drops [of s ctx]] by simp
  then show ?thesis
    unfolding check_rdzv_completed_def Let_def s1_def [symmetric]
    by (auto simp: round_size_def Let_def is_rdzv_blocked_def)
qed

text \<open>
  C2. A completed round. When a query completes a round of the training rendezvous, the round number
  grows by one and the world it returns consists of waiting nodes: all of them when they are exactly
  the maximum, otherwise, once the minimum is there and the timeout over, the largest number that is
  a multiple of the node unit. The smallest ranks are taken, every other waiting node stays in the
  list, no node is lost or doubled, and the callbacks get the finished round with the node ids.
\<close>

theorem completed_round_world:
  fixes ctx :: job_context
  assumes inv: "rz_inv s" and open_round: "rz_rdzv_nodes s = []" and unit: "0 < rz_node_unit s"
    and q: "et_get_comm_world now ctx r s = (Inr cw, s')" and n: "cw_notify cw \<noteq> None"
  defines "w \<equiv> rz_waiting_nodes (drop_exited_nodes ctx s)"
  shows "rz_rdzv_round s' = rz_rdzv_round s + 1 \<and> cw_round cw = rz_rdzv_round s' \<and>
    cw_world cw \<noteq> [] \<and> rz_rdzv_nodes s' = cw_world cw \<and> \<not> rz_blocked s \<and>
    set w \<subseteq> set (rz_waiting_nodes s) \<and>
    mset (cw_world cw) + mset (rz_waiting_nodes s') = mset w \<and>
    (int (length w) = rz_max_nodes s \<and> rz_waiting_nodes s' = [] \<or>
     rz_min_nodes s \<le> int (length w) \<and> rz_waiting_timeout s \<le> now - rz_lastcall_time s \<and>
     rz_node_unit s dvd int (length (cw_world cw)) \<and>
     int (length (rz_waiting_nodes s')) < rz_node_unit s) \<and>
    (\<forall>a\<in>fst ` set (cw_world cw). \<forall>b\<in>fst ` set (rz_waiting_nodes s'). a < b) \<and>
    cw_notify cw = Some (rz_rdzv_round s, map (nt_node_id \<circ> snd) (cw_world cw))"
proof -
  let ?s1 = "drop_exited_nodes ctx s"
  note f = only_drops_fields [OF drop_exited_drops [of s ctx]]
  have w: "world_ok w"
    using only_drops_inv [OF inv drop_exited_drops [of s ctx]] by (simp add: rz_inv_def w_def)
  obtain k where k: "round_size now ?s1 = Some k"
  proof (cases "round_size now ?s1")
    case None
    then have "cw_notify cw = None"
      using q open_round unfolding et_get_comm_world_def check_rdzv_completed_eq [OF unit] by auto
    with n show ?thesis by simp
  qed
  note le = round_size_le [OF _ k, unfolded f(6), OF unit]
  obtain nodes where nodes: "rz_rdzv_nodes (complete_round k ?s1) = nodes" "world_ok nodes"
    "int (length nodes) = k"
    "mset nodes + mset (rz_waiting_nodes (complete_round k ?s1)) = mset w"
    "\<forall>a\<in>fst ` set nodes. \<forall>b\<in>fst ` set (rz_waiting_nodes (complete_round k ?s1)). a < b"
    using complete_round_spec [OF w [unfolded w_def] le] unfolding w_def by blast
  have chk: "check_rdzv_completed now ctx s = (Inr True, complete_round k ?s1)"
    using check_rdzv_completed_eq [OF unit, of now ctx] k by simp
  obtain v where v: "dp_topology_sort nodes = Inr v"
    using q open_round chk nodes(1) by (cases "dp_topology_sort nodes") (simp_all add: et_get_comm_world_def Let_def)
  have cw: "cw = \<lparr>cw_round = rz_rdzv_round s + 1, cw_group = 0, cw_world = v,
        cw_notify = Some (rz_rdzv_round s, map (nt_node_id \<circ> snd) v)\<rparr>"
    and s': "s' = (complete_round k ?s1)\<lparr>rz_rdzv_round := rz_rdzv_round s + 1, rz_rdzv_nodes := v\<rparr>"
    using q open_round chk nodes(1) v f(2)
    by (simp_all add: et_get_comm_world_def Let_def complete_round_round)
  note p = dp_topology_sort_perm [OF nodes(2) v]
  have len: "int (length v) = k" using p(1) nodes(3) by (metis size_mset)
  have sv: "set v = set nodes" using p(1) by (metis set_mset_mset)
  have tot: "mset v + mset (rz_waiting_nodes s') = mset w" using p(1) nodes(4) s' by simp
  have total: "length v + length (rz_waiting_nodes s') = length w"
    using arg_cong [OF tot, of size] by simp
  have size: "int (length w) = rz_max_nodes s \<and> rz_waiting_nodes s' = [] \<or>
     rz_min_nodes s \<le> int (length w) \<and> rz_waiting_timeout s \<le> now - rz_lastcall_time s \<and>
     rz_node_unit s dvd int (length v) \<and> int (length (rz_waiting_nodes s')) < rz_node_unit s"
  proof (cases "int (length w) = rz_max_nodes s")
    case True
    then have "k = int (length w)" using k f by (auto simp: round_size_def Let_def w_def split: if_splits)
    then have "length (rz_waiting_nodes s') = 0" using total len by simp
    then show ?thesis using True by simp
  next
    case False
    then have "rz_min_nodes s \<le> int (length w)" "rz_waiting_timeout s \<le> now - rz_lastcall_time s"
      "k = int (length w) div rz_node_unit s * rz_node_unit s"
      using k f by (auto simp: round_size_def Let_def w_def split: if_splits)
    moreover have "int (length w) - k < rz_node_unit s"
      unfolding calculation(3) minus_div_mult_eq_mod using unit by simp
    ultimately show ?thesis using total len by auto
  qed
  have "\<not> rz_blocked s" using k f(3) by (auto simp: round_size_def Let_def split: if_splits)
  then show ?thesis
    using size tot p(3) nodes(5) sv f(9) by (simp add: cw s' w_def)
qed

definition demo_ready :: rdzv where
  "demo_ready = fold rz_step
     [RzParams 2 4 30 2, RzJoin 1 new_job_context 10 0 8 '''', RzJoin 2 new_job_context 12 2 8 '''',
      RzJoin 3 new_job_context 11 1 8 ''''] new_rdzv"

lemma demo_ready_facts:
  "rz_inv demo_ready" "rz_rdzv_nodes demo_ready = []" "rz_node_unit demo_ready = 2"
  "rz_rdzv_round demo_ready = 0" "map fst (rz_waiting_nodes demo_ready) = [0, 2, 1]"
proof -
  show "rz_inv demo_ready" unfolding demo_ready_def by (intro rz_mach.run_inv rz_inv_new)
  show "rz_rdzv_nodes demo_ready = []" "rz_node_unit demo_ready = 2" "rz_rdzv_round demo_ready = 0"
    "map fst (rz_waiting_nodes demo_ready) = [0, 2, 1]"
    unfolding demo_ready_def by code_simp+
qed

theorem completed_round_world_witness:
  "\<exists>cw s'. et_get_comm_world 40 new_job_context 0 demo_ready = (Inr cw, s') \<and>
     cw_round cw = 1 \<and> map fst (cw_world cw) = [0, 1] \<and> map fst (rz_waiting_nodes s') = [2] \<and>
     mset (cw_world cw) + mset (rz_waiting_nodes s') =
       mset (rz_waiting_nodes (drop_exited_nodes new_job_context demo_ready))"
proof -
  obtain res s' where q: "et_get_comm_world 40 new_job_context 0 demo_ready = (res, s')" by fastforce
  have c: "map_sum id (\<lambda>cw. (cw_notify cw, map fst (cw_world cw))) (fst
      (et_get_comm_world 40 new_job_context 0 demo_ready)) = Inr (Some (0, [10, 11]), [0, 1])"
    "map fst (rz_waiting_nodes (snd (et_get_comm_world 40 new_job_context 0 demo_ready))) = [2]"
    unfolding demo_ready_def by code_simp+
  obtain cw where cw: "res = Inr cw" "cw_notify cw = Some (0, [10, 11])" "map fst (cw_world cw) = [0, 1]"
    using c(1) q by (cases res) auto
  have "cw_notify cw \<noteq> None" using cw by simp
  from completed_round_world [OF demo_ready_facts(1,2) _ q [unfolded cw(1)] this] q cw c(2) demo_ready_facts(3,4)
  show ?thesis by auto
qed

text \<open>
  C11. Reachable states. Whatever joins, queries, exits, parameter updates, blocks and checkpoint reports
  happen, the round number never decreases, waiting nodes and members of the world are filed under
  their own rank, and no rank is both in the current world and waiting.
\<close>

theorem rendezvous_invariant:
  fixes ops more :: "rz_op list"
  defines "s \<equiv> fold rz_step ops new_rdzv"
  shows "rz_rdzv_round s \<le> rz_rdzv_round (fold rz_step more s) \<and>
    distinct (map fst (rz_waiting_nodes s)) \<and> distinct (map fst (rz_rdzv_nodes s)) \<and>
    list_all (\<lambda>(r, m). nt_node_rank m = r) (rz_waiting_nodes s @ rz_rdzv_nodes s) \<and>
    set (map fst (rz_waiting_nodes s)) \<inter> set (map fst (rz_rdzv_nodes s)) = {}"
proof -
  have inv: "rz_inv s" unfolding s_def by (intro rz_mach.run_inv rz_inv_new)
  then show ?thesis
    using rz_mach.run_counter [OF inv, of more]
    by (simp add: rz_inv_def world_ok_def wf_dict_def dict_all_def)
qed



text \<open>
  C26. A full house completes. When exactly the maximum number of nodes waits, none of them has
  reported a failed exit and completion is not blocked, the next query of any node returns the world
  of all of them, at any time, and leaves nobody waiting.
\<close>

theorem full_house_completes:
  assumes inv: "rz_inv s" and open_round: "rz_rdzv_nodes s = []" and unit: "0 < rz_node_unit s"
    and full: "int (length (rz_waiting_nodes s)) = rz_max_nodes s" "rz_waiting_nodes s \<noteq> []"
    and live: "\<forall>(r, m)\<in>set (rz_waiting_nodes s).
      case job_node NT_WORKER (nt_node_id m) ctx of None \<Rightarrow> True | Some n \<Rightarrow> \<not> is_failed_and_exited n"
    and nb: "\<not> rz_blocked s"
  shows "\<exists>cw s'. et_get_comm_world now ctx r s = (Inr cw, s') \<and>
    mset (cw_world cw) = mset (rz_waiting_nodes s) \<and> rz_waiting_nodes s' = [] \<and>
    cw_round cw = rz_rdzv_round s + 1"
proof -
  have d: "drop_exited_nodes ctx s = s" by (rule drop_exited_none [OF live])
  let ?k = "rz_max_nodes s"
  have k: "round_size now s = Some ?k" using full(1) nb by (simp add: round_size_def)
  have w: "world_ok (rz_waiting_nodes s)" using inv by (simp add: rz_inv_def)
  obtain nodes where nodes: "rz_rdzv_nodes (complete_round ?k s) = nodes" "world_ok nodes"
    "int (length nodes) = ?k"
    "mset nodes + mset (rz_waiting_nodes (complete_round ?k s)) = mset (rz_waiting_nodes s)"
    using complete_round_spec [OF w round_size_le [OF unit k]] by blast
  have "nodes \<noteq> []" using nodes(3) full by auto
  then obtain v where v: "dp_topology_sort nodes = Inr v"
    using dp_topology_sort_eq [OF nodes(2)] by blast
  have "length nodes + length (rz_waiting_nodes (complete_round ?k s)) = length (rz_waiting_nodes s)"
    using arg_cong [OF nodes(4), of size] by simp
  then have "rz_waiting_nodes (complete_round ?k s) = []"
    using nodes(3) full(1) by (simp flip: length_0_conv)
  moreover have "check_rdzv_completed now ctx s = (Inr True, complete_round ?k s)"
    using check_rdzv_completed_eq [OF unit, of now ctx] k d by simp
  ultimately show ?thesis
    using open_round nodes(1,4) v dp_topology_sort_perm(1) [OF nodes(2) v]
    by (simp add: et_get_comm_world_def Let_def complete_round_round)
qed

theorem full_house_completes_witness:
  "\<exists>(s :: rdzv) cw s'. et_get_comm_world 3 new_job_context 0 s = (Inr cw, s') \<and> rz_waiting_nodes s' = [] \<and>
     length (rz_waiting_nodes s) = 2 \<and> mset (cw_world cw) = mset (rz_waiting_nodes s)"
proof -
  define s where "s = fold rz_step
     [RzParams 2 2 30 1, RzJoin 1 new_job_context 10 0 8 '''', RzJoin 2 new_job_context 12 1 8 ''''] new_rdzv"
  have s: "rz_inv s" "rz_rdzv_nodes s = []" "rz_node_unit s = 1" "rz_max_nodes s = 2" "\<not> rz_blocked s"
    "map fst (rz_waiting_nodes s) = [0, 1]"
    unfolding s_def by (intro rz_mach.run_inv rz_inv_new, code_simp+)
  have l: "length (rz_waiting_nodes s) = 2" using arg_cong [OF s(6), of length] by simp
  have j: "job_node NT_WORKER i new_job_context = None" for i
    by (simp add: job_node_def new_job_context_def)
  have "\<exists>cw s'. et_get_comm_world 3 new_job_context 0 s = (Inr cw, s') \<and>
    mset (cw_world cw) = mset (rz_waiting_nodes s) \<and> rz_waiting_nodes s' = [] \<and>
    cw_round cw = rz_rdzv_round s + 1"
    by (rule full_house_completes [OF s(1,2) _ _ _ _ s(5)]) (use s l j in auto)
  then show ?thesis using l by (intro exI [of _ s]) blast
qed

lemma complete_round_zero:
  "complete_round 0 s = s\<lparr>rz_rdzv_nodes := [], rz_latest_rdzv_nodes := [], rz_lastcall_time := 0,
     rz_node_rdzv_times := [], rz_start_rdzv_ts := 0\<rparr>"
  by (simp add: complete_round_def Let_def log_rendezvous_info_def split_def)

lemma empty_round_step:
  assumes "rz_rdzv_nodes s = []" "\<not> rz_blocked s"
    and "int (length (rz_waiting_nodes s)) \<noteq> rz_max_nodes s"
    and "rz_min_nodes s \<le> int (length (rz_waiting_nodes s))"
    and "int (length (rz_waiting_nodes s)) < rz_node_unit s"
    and "rz_waiting_timeout s \<le> now - rz_lastcall_time s"
    and "\<forall>(r, m)\<in>set (rz_waiting_nodes s).
      case job_node NT_WORKER (nt_node_id m) ctx of None \<Rightarrow> True | Some n \<Rightarrow> \<not> is_failed_and_exited n"
  shows "et_get_comm_world now ctx r s =
    (Inl StopIteration, s\<lparr>rz_rdzv_round := rz_rdzv_round s + 1, rz_latest_rdzv_nodes := [],
       rz_lastcall_time := 0, rz_node_rdzv_times := [], rz_start_rdzv_ts := 0\<rparr>)"
proof -
  have unit: "0 < rz_node_unit s" using assms(5) by linarith
  have "round_size now s = Some 0" using assms(2-6) by (simp add: round_size_def)
  then have "check_rdzv_completed now ctx s = (Inr True, complete_round 0 s)"
    using check_rdzv_completed_eq [OF unit, of now ctx] drop_exited_none [OF assms(7)] by simp
  then show ?thesis
    using assms(1) by (simp add: et_get_comm_world_def complete_round_zero dp_topology_sort_def)
qed

text \<open>
  Rounds without nodes. With fewer waiting nodes than the node unit, but at least the minimum, a
  query after the timeout completes a round with an empty world: the round number grows, the topology
  sorter raises \<open>StopIteration\<close>, nobody leaves the waiting list, and each later query repeats this.
\<close>

theorem rounds_without_nodes:
  assumes "rz_rdzv_nodes s = []" "\<not> rz_blocked s"
    and "int (length (rz_waiting_nodes s)) \<noteq> rz_max_nodes s"
    and "rz_min_nodes s \<le> int (length (rz_waiting_nodes s))"
    and "int (length (rz_waiting_nodes s)) < rz_node_unit s"
    and "rz_waiting_timeout s \<le> now" and "rz_waiting_timeout s \<le> now - rz_lastcall_time s"
    and "\<forall>(r, m)\<in>set (rz_waiting_nodes s).
      case job_node NT_WORKER (nt_node_id m) ctx of None \<Rightarrow> True | Some n \<Rightarrow> \<not> is_failed_and_exited n"
  shows "fst (et_get_comm_world now ctx r s) = Inl StopIteration \<and>
    rz_rdzv_round (((\<lambda>s. snd (et_get_comm_world now ctx r s)) ^^ k) s) = rz_rdzv_round s + int k \<and>
    rz_waiting_nodes (((\<lambda>s. snd (et_get_comm_world now ctx r s)) ^^ k) s) = rz_waiting_nodes s"
proof -
  let ?f = "\<lambda>s. snd (et_get_comm_world now ctx r s)"
  have one: "fst (et_get_comm_world now ctx r s) = Inl StopIteration"
    using empty_round_step [OF assms(1-5,7,8)] by simp
  have "rz_rdzv_round ((?f ^^ k) s) = rz_rdzv_round s + int k \<and>
      rz_waiting_nodes ((?f ^^ k) s) = rz_waiting_nodes s"
    using assms
  proof (induction k arbitrary: s)
    case (Suc k)
    let ?s1 = "s\<lparr>rz_rdzv_round := rz_rdzv_round s + 1, rz_latest_rdzv_nodes := [],
       rz_lastcall_time := 0, rz_node_rdzv_times := [], rz_start_rdzv_ts := 0\<rparr>"
    have "?f s = ?s1" using empty_round_step [OF Suc.prems(1-5,7,8)] by simp
    moreover have "rz_rdzv_round ((?f ^^ k) ?s1) = rz_rdzv_round ?s1 + int k \<and>
        rz_waiting_nodes ((?f ^^ k) ?s1) = rz_waiting_nodes ?s1"
      using Suc.prems by (intro Suc.IH) simp_all
    ultimately show ?case by (simp add: funpow_Suc_right del: funpow.simps)
  qed simp
  with one show ?thesis by simp
qed

theorem rounds_without_nodes_witness:
  "\<exists>s :: rdzv. length (rz_waiting_nodes s) = 1 \<and>
     fst (et_get_comm_world 100 new_job_context 0 s) = Inl StopIteration \<and>
     rz_rdzv_round (((\<lambda>s. snd (et_get_comm_world 100 new_job_context 0 s)) ^^ 5) s) = 5"
proof -
  define s where "s = fold rz_step [RzParams 1 4 30 2, RzJoin 1 new_job_context 10 0 8 ''''] new_rdzv"
  have s: "rz_rdzv_nodes s = []" "\<not> rz_blocked s" "rz_node_unit s = 2" "rz_max_nodes s = 4"
    "rz_min_nodes s = 1" "rz_waiting_timeout s = 30" "rz_lastcall_time s = 1" "rz_rdzv_round s = 0"
    "map fst (rz_waiting_nodes s) = [0]"
    unfolding s_def by code_simp+
  have l: "length (rz_waiting_nodes s) = 1" using arg_cong [OF s(9), of length] by simp
  have j: "job_node NT_WORKER i new_job_context = None" for i
    by (simp add: job_node_def new_job_context_def)
  have "fst (et_get_comm_world 100 new_job_context 0 s) = Inl StopIteration \<and>
     rz_rdzv_round (((\<lambda>s. snd (et_get_comm_world 100 new_job_context 0 s)) ^^ 5) s) = rz_rdzv_round s + int 5 \<and>
     rz_waiting_nodes (((\<lambda>s. snd (et_get_comm_world 100 new_job_context 0 s)) ^^ 5) s) = rz_waiting_nodes s"
    by (rule rounds_without_nodes) (use s l j in auto)
  then show ?thesis using l s(8) by (intro exI [of _ s]) simp
qed

end
