(* ===== verification/Network_Check.thy ===== *)
theory Network_Check
  imports Node_Pairing Rdzv_Manager
begin

text \<open>
  \<open>NetworkCheckRendezvousManager\<close> and \<open>GroupNodeNetworkCheckRendezvousManager\<close> of
  \<open>dlrover/python/master/elastic_training/rdzv_manager.py\<close>: nodes are paired up, report whether their
  pair could communicate and how long it took, and the manager concludes which nodes are faulty and
  which are stragglers. The record extends the one of the rendezvous, so the operations of the base
  class apply to it as they are. Elapsed times are exact rationals; log lines and events are output.
  \<open>_check_abnormal_nodes\<close> only logs. Python sets that are returned as lists are sets here: the
  source leaves their order open.
\<close>

section \<open>The plain check\<close>

record net_check = rdzv +
  nc_node_status :: "(int, bool) dict"
  nc_node_times :: "(int, rat) dict"
  nc_reported_nodes :: "int set"
  nc_node_groups :: "world list"
  nc_check_round :: int
  nc_fault_nodes :: "int set"
  nc_straggler_nodes :: "int set"

definition new_net_check :: net_check where
  "new_net_check = rdzv.extend new_rdzv (net_check.fields [] [] {} [] 2 {} {})"

text \<open>The node ids of the groups, for the log; a rank outside the world would raise.\<close>

definition get_print_node_groups :: "'a net_check_scheme \<Rightarrow> int list list py_result" where
  "get_print_node_groups s =
     (if list_all (list_all (\<lambda>(r, m). dict_has (rz_rdzv_nodes s) r)) (nc_node_groups s)
      then Inr (map (map (\<lambda>(r, m). nt_node_id (the (map_of (rz_rdzv_nodes s) r)))) (nc_node_groups s))
      else Inl KeyError)"

definition clear_check_status :: "'a net_check_scheme \<Rightarrow> 'a net_check_scheme" where
  "clear_check_status s = s\<lparr>nc_node_status := [], nc_node_times := []\<rparr>"

definition nc_group_nodes :: "int \<Rightarrow> 'a net_check_scheme \<Rightarrow> world list" where
  "nc_group_nodes rnd s =
     (let rnd = rnd mod nc_check_round s
      in if rnd = 0 then group_adjacent (rz_rdzv_nodes s)
         else if rnd = 1 then group_cross (nc_node_times s) (rz_rdzv_nodes s)
         else [])"

text \<open>The group of the caller and its index; a node in no group gets the whole world.\<close>

definition find_group :: "int \<Rightarrow> 'a net_check_scheme \<Rightarrow> comm_world" where
  "find_group node_rank s =
     (case find (\<lambda>(i, g). dict_has g node_rank) (enumerate 0 (nc_node_groups s)) of
        Some (i, g) \<Rightarrow> \<lparr>cw_round = rz_rdzv_round s, cw_group = int i, cw_world = g, cw_notify = None\<rparr>
      | None \<Rightarrow> \<lparr>cw_round = rz_rdzv_round s, cw_group = 0, cw_world = rz_rdzv_nodes s, cw_notify = None\<rparr>)"

text \<open>What a query does once a round is complete.\<close>

definition nc_begin_round :: "'a net_check_scheme \<Rightarrow> ('a net_check_scheme, unit) py_run" where
  "nc_begin_round s =
     (let s1 = s\<lparr>nc_fault_nodes := {}, nc_straggler_nodes := {}\<rparr>;
          s2 = s1\<lparr>nc_node_groups := nc_group_nodes (rz_rdzv_round s1) s1\<rparr>
      in case get_print_node_groups s2 of
           Inl e \<Rightarrow> (Inl e, s2)
         | Inr ids \<Rightarrow>
             let s3 = (if rz_rdzv_round s2 mod 2 = 0 then clear_check_status s2 else s2)
             in (Inr (), s3\<lparr>nc_reported_nodes := {}, rz_rdzv_round := rz_rdzv_round s3 + 1\<rparr>))"

definition nc_get_comm_world ::
    "rat \<Rightarrow> job_context \<Rightarrow> int \<Rightarrow> 'a net_check_scheme \<Rightarrow> ('a net_check_scheme, comm_world) py_run" where
  "nc_get_comm_world now ctx node_rank s =
     (if nc_node_groups s = []
      then case check_rdzv_completed now ctx s of
             (Inl e, s1) \<Rightarrow> (Inl e, s1)
           | (Inr False, s1) \<Rightarrow> (Inr (find_group node_rank s1), s1)
           | (Inr True, s1) \<Rightarrow>
               (case nc_begin_round s1 of
                  (Inl e, s2) \<Rightarrow> (Inl e, s2)
                | (Inr _, s2) \<Rightarrow> (Inr (find_group node_rank s2), s2))
      else (Inr (find_group node_rank s), s))"

definition nc_report_network_check_result ::
    "int \<Rightarrow> bool \<Rightarrow> rat \<Rightarrow> 'a net_check_scheme \<Rightarrow> ('a net_check_scheme, unit) py_run" where
  "nc_report_network_check_result node_rank succeed elapsed_time s =
     (let status = dict_setdefault node_rank succeed (nc_node_status s);
          elapsed = dict_setdefault node_rank elapsed_time (nc_node_times s);
          s1 = s\<lparr>nc_reported_nodes := insert node_rank (nc_reported_nodes s),
                 nc_node_status := AList.update node_rank
                   (dict_get status node_rank False \<or> succeed) status,
                 nc_node_times := AList.update node_rank
                   (py_round_nd 3 (min (dict_get elapsed node_rank 0) elapsed_time)) elapsed\<rparr>
      in if card (nc_reported_nodes s1) = length (rz_rdzv_nodes s1)
         then (map_sum id (\<lambda>_. ()) (get_print_node_groups s1), s1)
         else (Inr (), s1))"

definition nc_join_rendezvous ::
    "rat \<Rightarrow> job_context \<Rightarrow> int \<Rightarrow> int \<Rightarrow> int \<Rightarrow> string \<Rightarrow> 'a net_check_scheme \<Rightarrow> int \<times> 'a net_check_scheme" where
  "nc_join_rendezvous now ctx node_id node_rank local_world_size node_ip s =
     join_rendezvous now ctx node_id node_rank local_world_size node_ip (s\<lparr>nc_node_groups := []\<rparr>)"

definition median_time :: "rat list \<Rightarrow> rat" where
  "median_time ts =
     (let i = length ts div 2
      in if length ts mod 2 = 0 then (ts ! i + ts ! (i - 1)) / 2 else ts ! i)"

definition detect_stragglers :: "'a net_check_scheme \<Rightarrow> (int, rat) dict" where
  "detect_stragglers s =
     (let ts = sort (map snd (nc_node_times s))
      in if ts = [] then []
         else filter (\<lambda>(r, t). t > median_time ts * 2) (nc_node_times s))"

text \<open>
  The fault nodes are collected once per round; looking up the node id of a fault node that is not in
  the world raises after the fault nodes are stored.
\<close>

definition collect_fault_nodes :: "'a net_check_scheme \<Rightarrow> ('a net_check_scheme, unit) py_run" where
  "collect_fault_nodes s =
     (let s1 = s\<lparr>nc_fault_nodes := nc_fault_nodes s \<union> fst ` set (filter (\<lambda>(r, st). \<not> st) (nc_node_status s))\<rparr>
      in (if nc_fault_nodes s1 \<subseteq> fst ` set (rz_rdzv_nodes s1) then Inr () else Inl KeyError, s1))"

definition jump_round :: "'a net_check_scheme \<Rightarrow> 'a net_check_scheme" where
  "jump_round s = s\<lparr>rz_rdzv_round := ceil_div (rz_rdzv_round s) (nc_check_round s) * nc_check_round s\<rparr>"

definition fault_answer :: "'a net_check_scheme \<Rightarrow> int set \<times> network_failure_reason" where
  "fault_answer s = (nc_fault_nodes s, if nc_fault_nodes s \<noteq> {} then NODE_FAILURE else NF_NONE)"

definition nc_check_fault_node ::
    "'a net_check_scheme \<Rightarrow> ('a net_check_scheme, int set \<times> network_failure_reason) py_run" where
  "nc_check_fault_node s =
     (if rz_rdzv_nodes s = [] then (Inr ({}, NO_INIT), s)
      else if \<not> card (nc_reported_nodes s) \<ge> length (rz_rdzv_nodes s)
      then (Inr (nc_fault_nodes s, WAITING_NODE), s)
      else if nc_fault_nodes s = {}
      then case collect_fault_nodes s of
             (Inl e, s1) \<Rightarrow> (Inl e, s1)
           | (Inr _, s1) \<Rightarrow>
               let s2 = (if nc_fault_nodes s1 = {} \<and> detect_stragglers s1 = [] then jump_round s1 else s1)
               in (Inr (fault_answer s2), s2)
      else (Inr (fault_answer s), s))"

definition get_straggler :: "'a net_check_scheme \<Rightarrow> (int set \<times> network_failure_reason) \<times> 'a net_check_scheme" where
  "get_straggler s =
     (if card (nc_reported_nodes s) < length (rz_rdzv_nodes s)
      then ((nc_straggler_nodes s, WAITING_NODE), s)
      else
        let s1 = (if nc_straggler_nodes s = {}
                  then s\<lparr>nc_straggler_nodes := nc_straggler_nodes s \<union> fst ` set (detect_stragglers s)\<rparr>
                  else s)
        in ((nc_straggler_nodes s1, NF_NONE), s1))"

section \<open>The check with node groups\<close>

record group_check = net_check +
  gc_current_phase :: group_node_check_phase
  gc_node_group_map :: "(int, int list) dict"
  gc_intra_passed :: bool


definition has_intra_failures :: "'a net_check_scheme \<Rightarrow> bool" where
  "has_intra_failures s \<longleftrightarrow> list_ex (\<lambda>(r, st). \<not> st) (nc_node_status s)"

definition gc_group_nodes :: "int \<Rightarrow> group_check \<Rightarrow> world list \<times> group_check" where
  "gc_group_nodes rnd s0 =
     (let s = s0\<lparr>gc_node_group_map := build_node_group_map (rz_rdzv_nodes s0)\<rparr>;
          gm = gc_node_group_map s; w = rz_rdzv_nodes s
      in if gm = [] then (nc_group_nodes rnd s, s)
         else
           let round_in_cycle = rnd mod nc_check_round s
           in if round_in_cycle = 0
              then (group_intra_initial w gm, s\<lparr>gc_current_phase := INTRA_INITIAL, gc_intra_passed := False\<rparr>)
              else if round_in_cycle = 1
              then if has_intra_failures s
                   then (group_intra_diagnostic w (nc_node_times s) gm,
                         s\<lparr>gc_current_phase := INTRA_DIAGNOSTIC\<rparr>)
                   else (group_inter_initial w gm,
                         s\<lparr>gc_intra_passed := True, gc_current_phase := INTER_INITIAL\<rparr>)
              else if round_in_cycle = 2
              then (group_inter_diagnostic w (nc_node_times s) gm,
                    s\<lparr>gc_current_phase := INTER_DIAGNOSTIC\<rparr>)
              else ([], s))"

definition gc_begin_round :: "group_check \<Rightarrow> (group_check, unit) py_run" where
  "gc_begin_round s =
     (let s1 = s\<lparr>nc_fault_nodes := {}, nc_straggler_nodes := {}\<rparr>;
          (groups, s1') = gc_group_nodes (rz_rdzv_round s1) s1;
          s2 = s1'\<lparr>nc_node_groups := groups\<rparr>
      in case get_print_node_groups s2 of
           Inl e \<Rightarrow> (Inl e, s2)
         | Inr ids \<Rightarrow>
             let round_in_cycle = rz_rdzv_round s2 mod nc_check_round s2;
                 s3 = (if round_in_cycle = 0 \<or> (round_in_cycle = 1 \<and> gc_intra_passed s2)
                       then clear_check_status s2 else s2)
             in (Inr (), s3\<lparr>nc_reported_nodes := {}, rz_rdzv_round := rz_rdzv_round s3 + 1\<rparr>))"

definition gc_get_comm_world ::
    "rat \<Rightarrow> job_context \<Rightarrow> int \<Rightarrow> group_check \<Rightarrow> (group_check, comm_world) py_run" where
  "gc_get_comm_world now ctx node_rank s =
     (if nc_node_groups s = []
      then case check_rdzv_completed now ctx s of
             (Inl e, s1) \<Rightarrow> (Inl e, s1)
           | (Inr False, s1) \<Rightarrow> (Inr (find_group node_rank s1), s1)
           | (Inr True, s1) \<Rightarrow>
               (case gc_begin_round s1 of
                  (Inl e, s2) \<Rightarrow> (Inl e, s2)
                | (Inr _, s2) \<Rightarrow> (Inr (find_group node_rank s2), s2))
      else (Inr (find_group node_rank s), s))"


section \<open>The invariant of the plain check\<close>

definition groups_in :: "world list \<Rightarrow> world \<Rightarrow> bool" where
  "groups_in gs w \<longleftrightarrow> list_all (\<lambda>g. fst ` set g \<subseteq> fst ` set w) gs"

definition nc_inv :: "'a net_check_scheme \<Rightarrow> bool" where
  "nc_inv s \<longleftrightarrow> rz_inv s \<and> wf_dict (nc_node_status s) \<and> wf_dict (nc_node_times s) \<and>
     fst ` set (nc_node_status s) = fst ` set (nc_node_times s) \<and>
     groups_in (nc_node_groups s) (rz_rdzv_nodes s)"

lemma tiles_groups_in: "tiles w rs gs \<Longrightarrow> set rs \<subseteq> fst ` set w \<Longrightarrow> groups_in gs w"
  using tiles_keys by (fastforce simp: groups_in_def list_all_iff)

lemma get_print_node_groups_ok:
  "groups_in (nc_node_groups s) (rz_rdzv_nodes s) \<Longrightarrow> \<exists>ids. get_print_node_groups s = Inr ids"
proof -
  assume "groups_in (nc_node_groups s) (rz_rdzv_nodes s)"
  then have "dict_has (rz_rdzv_nodes s) (fst p)" if "g \<in> set (nc_node_groups s)" "p \<in> set g" for g p
    using that by (auto simp: groups_in_def list_all_iff dict_has_iff)
  then show ?thesis by (auto simp: get_print_node_groups_def list_all_iff)
qed

lemma nc_group_nodes_in:
  assumes "wf_dict (rz_rdzv_nodes s)" and "wf_dict (nc_node_times s)"
  shows "groups_in (nc_group_nodes rnd s) (rz_rdzv_nodes s)"
proof -
  have "groups_in (group_adjacent (rz_rdzv_nodes s)) (rz_rdzv_nodes s)"
    using group_adjacent_eq(2) [OF assms(1)] by (rule tiles_groups_in) simp
  moreover have "groups_in (group_cross (nc_node_times s) (rz_rdzv_nodes s)) (rz_rdzv_nodes s)"
    using group_cross_eq(2) [OF assms(2)]
    by (rule tiles_groups_in) (auto simp: group_cross_eq(4) [OF assms(2)] dict_has_iff)
  moreover have "groups_in [] w" for w by (simp add: groups_in_def)
  ultimately show ?thesis by (simp add: nc_group_nodes_def Let_def)
qed

lemma nc_begin_round_eq:
  assumes "nc_inv s"
  shows "nc_begin_round s =
    (Inr (), s\<lparr>nc_fault_nodes := {}, nc_straggler_nodes := {},
       nc_node_groups := nc_group_nodes (rz_rdzv_round s) s,
       nc_node_status := (if rz_rdzv_round s mod 2 = 0 then [] else nc_node_status s),
       nc_node_times := (if rz_rdzv_round s mod 2 = 0 then [] else nc_node_times s),
       nc_reported_nodes := {}, rz_rdzv_round := rz_rdzv_round s + 1\<rparr>)"
proof -
  let ?s1 = "s\<lparr>nc_fault_nodes := {}, nc_straggler_nodes := {}\<rparr>"
  have g: "nc_group_nodes (rz_rdzv_round s) ?s1 = nc_group_nodes (rz_rdzv_round s) s"
    by (simp add: nc_group_nodes_def Let_def)
  let ?s2 = "?s1\<lparr>nc_node_groups := nc_group_nodes (rz_rdzv_round s) s\<rparr>"
  have "groups_in (nc_group_nodes (rz_rdzv_round s) s) (rz_rdzv_nodes s)"
    using assms by (intro nc_group_nodes_in) (simp_all add: nc_inv_def rz_inv_def world_ok_def)
  then have "groups_in (nc_node_groups ?s2) (rz_rdzv_nodes ?s2)" by simp
  from get_print_node_groups_ok [OF this] obtain ids where p: "get_print_node_groups ?s2 = Inr ids" by blast
  then have p': "get_print_node_groups
      (?s1\<lparr>nc_node_groups := nc_group_nodes (rz_rdzv_round ?s1) ?s1\<rparr>) = Inr ids"
    using g by simp
  show ?thesis unfolding nc_begin_round_def Let_def p' sum.case by (simp add: g clear_check_status_def)
qed

lemma nc_begin_round_inv:
  assumes "nc_inv s"
  shows "nc_inv (snd (nc_begin_round s))"
proof -
  have "groups_in (nc_group_nodes (rz_rdzv_round s) s) (rz_rdzv_nodes s)"
    using assms by (intro nc_group_nodes_in) (simp_all add: nc_inv_def rz_inv_def world_ok_def)
  then show ?thesis using assms unfolding nc_begin_round_eq [OF assms] by (simp add: nc_inv_def rz_inv_def)
qed

text \<open>What the operations of the base class leave alone.\<close>

definition same_check :: "'a net_check_scheme \<Rightarrow> 'a net_check_scheme \<Rightarrow> bool" where
  "same_check s s' \<longleftrightarrow> rdzv.more s' = rdzv.more s"

lemma same_check_fields:
  assumes "same_check s s'"
  shows "nc_node_status s' = nc_node_status s" "nc_node_times s' = nc_node_times s"
    "nc_reported_nodes s' = nc_reported_nodes s" "nc_node_groups s' = nc_node_groups s"
    "nc_check_round s' = nc_check_round s" "nc_fault_nodes s' = nc_fault_nodes s"
    "nc_straggler_nodes s' = nc_straggler_nodes s" "net_check.more s' = net_check.more s"
  using assms by (cases s; cases s'; simp add: same_check_def)+

lemma only_drops_same: "only_drops s s' \<Longrightarrow> same_check s s'"
  by (auto simp: only_drops_def same_check_def)

lemma complete_round_same: "same_check s (complete_round n s)"
  by (simp add: same_check_def complete_round_def Let_def log_rendezvous_info_def)

lemma same_check_trans: "same_check s s1 \<Longrightarrow> same_check s1 s2 \<Longrightarrow> same_check s s2"
  by (simp add: same_check_def)

lemma check_rdzv_completed_same: "same_check s (snd (check_rdzv_completed now ctx s))"
proof -
  have d: "same_check s (drop_exited_nodes ctx s)" by (rule only_drops_same [OF drop_exited_drops])
  have "same_check s ((drop_exited_nodes ctx s)\<lparr>rz_latest_log_nodes_time := now\<rparr>)"
    using d by (simp add: same_check_def)
  with d same_check_trans [OF d complete_round_same] show ?thesis
    by (simp add: check_rdzv_completed_def Let_def)
qed

lemma join_rendezvous_same: "same_check s (snd (join_rendezvous now ctx i r lws ip s))"
  by (auto simp: same_check_def join_rendezvous_def Let_def split: prod.splits)

lemma same_check_inv:
  "nc_inv s \<Longrightarrow> same_check s s' \<Longrightarrow> rz_inv s' \<Longrightarrow>
   rz_rdzv_nodes s' = rz_rdzv_nodes s \<or> nc_node_groups s = [] \<Longrightarrow> nc_inv s'"
  by (auto simp: nc_inv_def same_check_fields groups_in_def)

lemma nc_get_comm_world_cases:
  assumes "nc_inv s"
  shows "nc_get_comm_world now ctx r s = (Inr (find_group r s), s) \<and> nc_node_groups s \<noteq> [] \<or>
    nc_node_groups s = [] \<and> (\<exists>res s1. check_rdzv_completed now ctx s = (res, s1) \<and> nc_inv s1 \<and> same_check s s1 \<and>
      rz_rdzv_round s1 = rz_rdzv_round s \<and>
      (res = Inr False \<and> nc_get_comm_world now ctx r s = (Inr (find_group r s1), s1) \<or>
       res = Inr True \<and> nc_get_comm_world now ctx r s =
         (Inr (find_group r (snd (nc_begin_round s1))), snd (nc_begin_round s1)) \<or>
       (\<exists>e. res = Inl e \<and> nc_get_comm_world now ctx r s = (Inl e, s1))))"
proof (cases "nc_node_groups s = []")
  case True
  obtain res s1 where c: "check_rdzv_completed now ctx s = (res, s1)" by fastforce
  have same: "same_check s s1" using check_rdzv_completed_same [of s now ctx] c by simp
  have "rz_inv s1" using assms check_rdzv_completed_inv [of s now ctx] c by (simp add: nc_inv_def)
  then have inv: "nc_inv s1" using same_check_inv [OF assms same] True by simp
  have rnd: "rz_rdzv_round s1 = rz_rdzv_round s" using check_rdzv_completed_round [of now ctx s] c by simp
  have b: "nc_begin_round s1 = (Inr (), snd (nc_begin_round s1))" using nc_begin_round_eq [OF inv] by simp
  show ?thesis
  proof (cases res)
    case (Inl e)
    then show ?thesis using True c inv same rnd by (auto simp: nc_get_comm_world_def)
  next
    case (Inr fin)
    then show ?thesis
      using True c inv same rnd b by (cases fin) (auto simp: nc_get_comm_world_def split: prod.splits)
  qed
qed (simp add: nc_get_comm_world_def)

lemma nc_get_comm_world_inv: "nc_inv s \<Longrightarrow> nc_inv (snd (nc_get_comm_world now ctx r s))"
  using nc_get_comm_world_cases [of s now ctx r] nc_begin_round_inv by auto

lemma nc_report_state:
  "snd (nc_report_network_check_result r ok t s) =
    s\<lparr>nc_reported_nodes := insert r (nc_reported_nodes s),
      nc_node_status := AList.update r (dict_get (nc_node_status s) r False \<or> ok) (nc_node_status s),
      nc_node_times := AList.update r
        (py_round_nd 3 (case map_of (nc_node_times s) r of None \<Rightarrow> t | Some t0 \<Rightarrow> min t0 t)) (nc_node_times s)\<rparr>"
proof -
  have "dict_get (dict_setdefault r ok d) r False \<or> ok \<longleftrightarrow> dict_get d r False \<or> ok" for d
    by (auto simp: dict_setdefault_def dict_get_def update_conv' split: option.splits)
  moreover have "min (dict_get (dict_setdefault r t d) r 0) t =
      (case map_of d r of None \<Rightarrow> t | Some t0 \<Rightarrow> min t0 t)" for d
    by (auto simp: dict_setdefault_def dict_get_def update_conv' split: option.splits)
  ultimately show ?thesis
    by (simp add: nc_report_network_check_result_def Let_def update_setdefault)
qed

lemma nc_report_inv:
  assumes "nc_inv s"
  shows "nc_inv (snd (nc_report_network_check_result r ok t s))"
    and "fst (nc_report_network_check_result r ok t s) = Inr ()"
proof -
  show i: "nc_inv (snd (nc_report_network_check_result r ok t s))"
    using assms unfolding nc_report_state by (simp add: nc_inv_def rz_inv_def dom_update)
  then obtain ids where "get_print_node_groups (snd (nc_report_network_check_result r ok t s)) = Inr ids"
    using get_print_node_groups_ok [of "snd (nc_report_network_check_result r ok t s)"] by (auto simp: nc_inv_def)
  then show "fst (nc_report_network_check_result r ok t s) = Inr ()"
    by (auto simp: nc_report_network_check_result_def Let_def split: if_splits)
qed

lemma nc_join_inv:
  assumes "nc_inv s"
  shows "nc_inv (snd (nc_join_rendezvous now ctx i r lws ip s))"
proof -
  let ?s = "s\<lparr>nc_node_groups := []\<rparr>"
  have i: "nc_inv ?s" using assms by (simp add: nc_inv_def groups_in_def rz_inv_def)
  have r: "rz_inv (snd (join_rendezvous now ctx i r lws ip ?s))"
    using i by (intro join_rendezvous_inv) (simp add: nc_inv_def)
  show ?thesis unfolding nc_join_rendezvous_def by (rule same_check_inv [OF i join_rendezvous_same r]) simp
qed

lemma collect_fault_nodes_state:
  "snd (collect_fault_nodes s) =
     s\<lparr>nc_fault_nodes := nc_fault_nodes s \<union> fst ` set (filter (\<lambda>(r, st). \<not> st) (nc_node_status s))\<rparr>"
  by (simp add: collect_fault_nodes_def Let_def)

lemma nc_check_fault_node_state:
  "\<exists>f k. snd (nc_check_fault_node s) = s\<lparr>nc_fault_nodes := f, rz_rdzv_round := k\<rparr>"
proof -
  obtain f where c: "snd (collect_fault_nodes s) = s\<lparr>nc_fault_nodes := f\<rparr>"
    using collect_fault_nodes_state by blast
  then have "snd (nc_check_fault_node s) \<in>
      {s, s\<lparr>nc_fault_nodes := f\<rparr>, jump_round (s\<lparr>nc_fault_nodes := f\<rparr>)}"
    by (cases "collect_fault_nodes s") (auto simp: nc_check_fault_node_def Let_def split: sum.splits)
  then consider "snd (nc_check_fault_node s) = s" | "snd (nc_check_fault_node s) = s\<lparr>nc_fault_nodes := f\<rparr>"
    | "snd (nc_check_fault_node s) = jump_round (s\<lparr>nc_fault_nodes := f\<rparr>)" by blast
  then show ?thesis
  proof cases
    case 1
    then show ?thesis by (intro exI [of _ "nc_fault_nodes s"] exI [of _ "rz_rdzv_round s"]) simp
  next
    case 2
    then show ?thesis by (intro exI [of _ f] exI [of _ "rz_rdzv_round s"]) simp
  next
    case 3
    then show ?thesis unfolding jump_round_def by blast
  qed
qed

lemma get_straggler_state: "\<exists>g. snd (get_straggler s) = s\<lparr>nc_straggler_nodes := g\<rparr>"
proof -
  have "\<exists>g. s = s\<lparr>nc_straggler_nodes := g\<rparr>" by (intro exI [of _ "nc_straggler_nodes s"]) simp
  then show ?thesis by (auto simp: get_straggler_def Let_def)
qed

section \<open>Runs of the plain check\<close>

datatype nc_op =
    NcJoin rat job_context int int int string
  | NcWorld rat job_context int
  | NcReport int bool rat
  | NcFault
  | NcStraggler
  | NcAlive int
  | NcGone int
  | NcParams int int rat int
  | NcBlock bool "string option"

fun nc_step :: "nc_op \<Rightarrow> net_check \<Rightarrow> net_check" where
  "nc_step (NcJoin now ctx i r lws ip) s = snd (nc_join_rendezvous now ctx i r lws ip s)"
| "nc_step (NcWorld now ctx r) s = snd (nc_get_comm_world now ctx r s)"
| "nc_step (NcReport r ok t) s = snd (nc_report_network_check_result r ok t s)"
| "nc_step NcFault s = snd (nc_check_fault_node s)"
| "nc_step NcStraggler s = snd (get_straggler s)"
| "nc_step (NcAlive i) s = add_alive_node i s"
| "nc_step (NcGone i) s = remove_alive_node i s"
| "nc_step (NcParams a b t u) s = update_rdzv_params a b t u s"
| "nc_step (NcBlock b reason) s = set_rdzv_blocked b reason s"

lemma nc_inv_new: "nc_inv new_net_check"
  by (simp add: nc_inv_def rz_inv_def new_net_check_def new_rdzv_def rdzv.extend_def net_check.fields_def
      groups_in_def)

lemma nc_step_inv: "nc_inv s \<Longrightarrow> nc_inv (nc_step op s)"
proof (cases op)
  case NcFault
  assume "nc_inv s"
  moreover obtain f k where "snd (nc_check_fault_node s) = s\<lparr>nc_fault_nodes := f, rz_rdzv_round := k\<rparr>"
    using nc_check_fault_node_state by blast
  ultimately show ?thesis using NcFault by (simp add: nc_inv_def rz_inv_def)
next
  case NcStraggler
  assume "nc_inv s"
  moreover obtain g where "snd (get_straggler s) = s\<lparr>nc_straggler_nodes := g\<rparr>"
    using get_straggler_state by blast
  ultimately show ?thesis using NcStraggler by (simp add: nc_inv_def rz_inv_def)
next
  case (NcGone i)
  assume s: "nc_inv s"
  note d = remove_alive_node_drops [of s i]
  have "rz_inv (remove_alive_node i s)" using only_drops_inv [OF _ d] s by (simp add: nc_inv_def)
  then show ?thesis
    using NcGone same_check_inv [OF s only_drops_same [OF d]] only_drops_fields(1) [OF d] by simp
qed (simp_all add: nc_join_inv nc_get_comm_world_inv nc_report_inv,
    simp_all add: nc_inv_def rz_inv_def rz_simple_defs)

lemma nc_step_check_round:
  assumes "nc_inv s"
  shows "nc_check_round (nc_step op s) = nc_check_round s"
proof (cases op)
  case (NcJoin now ctx i r lws ip)
  then show ?thesis
    using same_check_fields(5) [OF join_rendezvous_same, of now ctx i r lws ip "s\<lparr>nc_node_groups := []\<rparr>"]
    by (simp add: nc_join_rendezvous_def)
next
  case (NcWorld now ctx r)
  then show ?thesis
    using nc_get_comm_world_cases [OF assms, of now ctx r] by (auto simp: nc_begin_round_eq same_check_fields)
next
  case NcFault
  then show ?thesis using nc_check_fault_node_state [of s] by auto
next
  case NcStraggler
  then show ?thesis using get_straggler_state [of s] by auto
next
  case (NcGone i)
  then show ?thesis using same_check_fields(5) [OF only_drops_same [OF remove_alive_node_drops [of s i]]] by simp
qed (simp_all add: nc_report_state rz_simple_defs)


text \<open>
  The reports that count for a verdict: those since the last even round began, which is when the
  results are cleared.
\<close>

definition nc_track :: "nc_op \<Rightarrow> net_check \<times> (int \<times> bool \<times> rat) list \<Rightarrow> net_check \<times> (int \<times> bool \<times> rat) list" where
  "nc_track op = (\<lambda>(s, hist). (nc_step op s,
     case op of
       NcReport r ok t \<Rightarrow> hist @ [(r, ok, t)]
     | NcWorld now ctx r \<Rightarrow>
         if even (rz_rdzv_round s) \<and> rz_rdzv_round (nc_step op s) \<noteq> rz_rdzv_round s then [] else hist
     | _ \<Rightarrow> hist))"

definition status_of :: "(int \<times> bool \<times> rat) list \<Rightarrow> int \<Rightarrow> bool option" where
  "status_of hist r =
     (if r \<in> fst ` set hist then Some (\<exists>t. (r, True, t) \<in> set hist) else None)"

lemma status_of_snoc:
  "status_of (hist @ [(r, ok, t)]) r' =
     (if r' = r then Some (status_of hist r = Some True \<or> ok) else status_of hist r')"
  by (force simp: status_of_def)

definition nc_tracked :: "net_check \<times> (int \<times> bool \<times> rat) list \<Rightarrow> bool" where
  "nc_tracked p \<longleftrightarrow> nc_inv (fst p) \<and> nc_check_round (fst p) = 2 \<and> map_of (nc_node_status (fst p)) = status_of (snd p)"

lemma nc_tracked_same:
  assumes "nc_tracked (s, hist)" and "nc_node_status (nc_step op s) = nc_node_status s"
    and "snd (nc_track op (s, hist)) = hist"
  shows "nc_tracked (nc_track op (s, hist))"
  using assms nc_step_inv [of s op] nc_step_check_round [of s op] by (auto simp: nc_tracked_def nc_track_def)

lemma base_status_kept:
  "nc_node_status (nc_step (NcJoin now ctx i r lws ip) s) = nc_node_status s"
  "nc_node_status (nc_step (NcGone i) s) = nc_node_status s"
  "nc_node_status (nc_step NcFault s) = nc_node_status s"
  "nc_node_status (nc_step NcStraggler s) = nc_node_status s"
  "nc_node_status (nc_step (NcAlive i) s) = nc_node_status s"
  "nc_node_status (nc_step (NcParams a b t u) s) = nc_node_status s"
  "nc_node_status (nc_step (NcBlock x reason) s) = nc_node_status s"
proof -
  show "nc_node_status (nc_step (NcJoin now ctx i r lws ip) s) = nc_node_status s"
    using same_check_fields(1) [OF join_rendezvous_same, of now ctx i r lws ip "s\<lparr>nc_node_groups := []\<rparr>"]
    by (simp add: nc_join_rendezvous_def)
  show "nc_node_status (nc_step (NcGone i) s) = nc_node_status s"
    using same_check_fields(1) [OF only_drops_same [OF remove_alive_node_drops [of s i]]] by simp
  show "nc_node_status (nc_step NcFault s) = nc_node_status s"
    using nc_check_fault_node_state [of s] by auto
  show "nc_node_status (nc_step NcStraggler s) = nc_node_status s"
    using get_straggler_state [of s] by auto
qed (simp_all add: rz_simple_defs)

lemma nc_track_step: "nc_tracked p \<Longrightarrow> nc_tracked (nc_track op p)"
proof -
  assume t: "nc_tracked p"
  obtain s hist where p: "p = (s, hist)" by fastforce
  have inv: "nc_inv s" and m: "map_of (nc_node_status s) = status_of hist"
    using t by (auto simp: nc_tracked_def p)
  have kept: "nc_inv (nc_step op s)" "nc_check_round (nc_step op s) = 2"
    using t nc_step_inv [OF inv] nc_step_check_round [OF inv] by (auto simp: nc_tracked_def p)
  show ?thesis
  proof (cases op)
    case (NcReport r ok t)
    have "dict_get (nc_node_status s) r False \<longleftrightarrow> status_of hist r = Some True"
      by (auto simp: dict_get_def m split: option.splits)
    then have "map_of (nc_node_status (nc_step op s)) = status_of (hist @ [(r, ok, t)])"
      by (auto simp: NcReport nc_report_state update_conv' m status_of_snoc fun_eq_iff)
    then show ?thesis using kept by (simp add: p nc_tracked_def nc_track_def NcReport)
  next
    case (NcWorld now ctx r)
    have "status_of [] = Map.empty" by (simp add: status_of_def fun_eq_iff)
    then have "map_of (nc_node_status (nc_step op s)) = status_of (snd (nc_track op (s, hist)))"
      using nc_get_comm_world_cases [OF inv, of now ctx r] m
      by (auto simp: NcWorld nc_track_def nc_begin_round_eq same_check_fields even_iff_mod_2_eq_zero)
    then show ?thesis using kept by (simp add: p nc_tracked_def nc_track_def)
  qed (unfold p, (rule nc_tracked_same [OF t [unfolded p]];
      simp add: base_status_kept nc_track_def del: nc_step.simps)+)
qed

interpretation nc_tracking: op_machine nc_track nc_tracked
  by unfold_locales (rule nc_track_step)

section \<open>Properties of the plain check\<close>




lemma above_nth_few:
  assumes "sorted ts" and "i < length ts"
  shows "length (filter (\<lambda>t. t > ts ! i) ts) \<le> length ts - 1 - i"
proof -
  have le: "t \<le> ts ! i" if mem: "t \<in> set (take (Suc i) ts)" for t
  proof -
    obtain j where "j < length (take (Suc i) ts)" "t = take (Suc i) ts ! j"
      using mem unfolding in_set_conv_nth by blast
    then have j: "j \<le> i" and t: "t = ts ! j" by simp_all
    show ?thesis unfolding t by (rule sorted_nth_mono [OF assms(1) j assms(2)])
  qed
  have "filter (\<lambda>t. t > ts ! i) (take (Suc i) ts) = []"
    by (rule filter_False) (intro ballI, drule le, simp only: not_less)
  then have "filter (\<lambda>t. t > ts ! i) (take (Suc i) ts @ drop (Suc i) ts) =
      filter (\<lambda>t. t > ts ! i) (drop (Suc i) ts)"
    by (simp only: filter_append append_Nil)
  then have "filter (\<lambda>t. t > ts ! i) ts = filter (\<lambda>t. t > ts ! i) (drop (Suc i) ts)"
    by (simp only: append_take_drop_id)
  then show ?thesis using length_filter_le [of "\<lambda>t. t > ts ! i" "drop (Suc i) ts"] by simp
qed

lemma length_filter_mono: "(\<And>x. P x \<Longrightarrow> Q x) \<Longrightarrow> length (filter P xs) \<le> length (filter Q xs)"
  by (induction xs) auto

lemma twice_median:
  assumes "sorted ts" and "ts \<noteq> []" and "list_all ((\<le>) 0) ts"
  shows "ts ! (length ts div 2) \<le> median_time ts * 2"
proof -
  let ?i = "length ts div 2"
  have i: "?i < length ts" using assms(2) by (cases ts) auto
  then have "0 \<le> ts ! ?i" "0 \<le> ts ! (?i - 1)" using assms(3) by (auto simp: list_all_length)
  then show ?thesis by (simp add: median_time_def Let_def)
qed

text \<open>
  C38. Stragglers are few. With non-negative elapsed times fewer than half of the timed nodes are
  stragglers; of one or two nodes none is.
\<close>

theorem few_stragglers:
  assumes "list_all (\<lambda>(r, t). 0 \<le> t) (nc_node_times s)"
  shows "length (detect_stragglers s) \<le> (length (nc_node_times s) - 1) div 2"
proof (cases "nc_node_times s = []")
  case False
  let ?ts = "sort (map snd (nc_node_times s))" and ?n = "length (nc_node_times s)"
  have ne: "?ts \<noteq> []" using False by (metis length_map length_sort length_0_conv)
  have nn: "list_all ((\<le>) 0) ?ts" using assms by (auto simp: list_all_iff)
  have m: "?ts ! (?n div 2) \<le> median_time ?ts * 2" using twice_median [OF _ ne nn] by simp
  have "length (detect_stragglers s) = length (filter (\<lambda>t. t > median_time ?ts * 2) (map snd (nc_node_times s)))"
    using ne by (simp add: detect_stragglers_def Let_def filter_map o_def split_def)
  also have "\<dots> = length (filter (\<lambda>t. t > median_time ?ts * 2) ?ts)"
    by (metis mset_filter mset_sort size_mset)
  also have "\<dots> \<le> length (filter (\<lambda>t. t > ?ts ! (?n div 2)) ?ts)"
    using m by (intro length_filter_mono) auto
  also have "\<dots> \<le> ?n - 1 - ?n div 2"
    using above_nth_few [of ?ts "?n div 2"] False by simp
  finally show ?thesis using False by linarith
qed (simp add: detect_stragglers_def)

theorem few_stragglers_witness:
  "map fst (detect_stragglers (new_net_check\<lparr>nc_node_times := [(0, 1), (1, 2), (2, 9)]\<rparr>)) = [2] \<and>
   length (detect_stragglers (new_net_check\<lparr>nc_node_times := [(0, 1), (1, 2), (2, 9)]\<rparr>)) \<le> 1"
proof -
  let ?s = "new_net_check\<lparr>nc_node_times := [(0, 1), (1, 2), (2, 9)]\<rparr>"
  have "sort [1, 2, 9 :: rat] = [1, 2, 9]" by simp
  then have "map fst (detect_stragglers ?s) = [2]"
    by (simp add: detect_stragglers_def Let_def median_time_def)
  moreover have "length (detect_stragglers ?s) \<le> (length (nc_node_times ?s) - 1) div 2"
    by (rule few_stragglers) simp
  ultimately show ?thesis by simp
qed

lemma collect_faults:
  assumes "nc_tracked (s, hist)" and "nc_fault_nodes s = {}"
  shows "nc_fault_nodes (snd (collect_fault_nodes s)) =
    {r. (\<exists>ok t. (r, ok, t) \<in> set hist) \<and> (\<forall>t. (r, True, t) \<notin> set hist)}"
proof -
  have wf: "wf_dict (nc_node_status s)" and m: "map_of (nc_node_status s) = status_of hist"
    using assms(1) by (auto simp: nc_tracked_def nc_inv_def)
  have "r \<in> fst ` set (filter (\<lambda>(r, st). \<not> st) (nc_node_status s)) \<longleftrightarrow> status_of hist r = Some False" for r
    unfolding m [symmetric] wf_dict_mem_map_of [OF wf, symmetric] by force
  moreover have "status_of hist r = Some False \<longleftrightarrow>
      (\<exists>ok t. (r, ok, t) \<in> set hist) \<and> (\<forall>t. (r, True, t) \<notin> set hist)" for r
    unfolding status_of_def by (auto simp: image_iff) blast
  ultimately have "fst ` set (filter (\<lambda>(r, st). \<not> st) (nc_node_status s)) =
      {r. (\<exists>ok t. (r, ok, t) \<in> set hist) \<and> (\<forall>t. (r, True, t) \<notin> set hist)}"
    by (intro set_eqI) (simp only: mem_Collect_eq)
  then show ?thesis using assms(2) unfolding collect_fault_nodes_state by (simp del: set_filter)
qed

text \<open>
  C4. The verdict. Over any run, once every node of the world has reported and no verdict is stored,
  the nodes that \<open>check_fault_node\<close> returns are exactly those that reported since the check began
  without a single success in either round; a check with no fault and no straggler puts the round on
  an even number, where the next check starts.
\<close>

theorem network_check_verdict:
  fixes ops :: "nc_op list"
  defines "p \<equiv> fold nc_track ops (new_net_check, [])"
  assumes "rz_rdzv_nodes (fst p) \<noteq> []" and "length (rz_rdzv_nodes (fst p)) \<le> card (nc_reported_nodes (fst p))"
    and "nc_fault_nodes (fst p) = {}"
    and q: "nc_check_fault_node (fst p) = (Inr (faults, reason), s')"
  shows "faults = {r. (\<exists>ok t. (r, ok, t) \<in> set (snd p)) \<and> (\<forall>t. (r, True, t) \<notin> set (snd p))} \<and>
    reason = (if faults = {} then NF_NONE else NODE_FAILURE) \<and>
    (faults = {} \<and> detect_stragglers (fst p) = [] \<longrightarrow> even (rz_rdzv_round s'))"
proof -
  have "nc_tracked (new_net_check, [])"
    using nc_inv_new
    by (simp add: nc_tracked_def status_of_def fun_eq_iff new_net_check_def rdzv.extend_def net_check.fields_def)
  then have t: "nc_tracked (fst p, snd p)" unfolding p_def by (simp add: nc_tracking.run_inv)
  note f = collect_faults [OF t assms(4)]
  let ?s1 = "snd (collect_fault_nodes (fst p))"
  have two: "nc_check_round (fst p) = 2" using t by (simp add: nc_tracked_def)
  have c: "nc_check_fault_node (fst p) = (let s2 = (if nc_fault_nodes ?s1 = {} \<and> detect_stragglers ?s1 = []
        then jump_round ?s1 else ?s1) in (Inr (fault_answer s2), s2))"
  proof -
    obtain res s1 where col: "collect_fault_nodes (fst p) = (res, s1)" by fastforce
    have "res = Inr ()"
      using q assms(2-4) col by (cases res) (simp_all add: nc_check_fault_node_def)
    then show ?thesis using assms(2-4) col by (simp add: nc_check_fault_node_def)
  qed
  have d: "detect_stragglers ?s1 = detect_stragglers (fst p)"
    by (simp add: collect_fault_nodes_state detect_stragglers_def Let_def)
  have r: "nc_check_round ?s1 = 2" using two by (simp add: collect_fault_nodes_state)
  have "faults = nc_fault_nodes ?s1" using q c by (auto simp: fault_answer_def jump_round_def Let_def split: if_splits)
  moreover have "reason = (if faults = {} then NF_NONE else NODE_FAILURE)"
    using q c by (auto simp: fault_answer_def jump_round_def Let_def split: if_splits)
  moreover have "even (rz_rdzv_round s')" if "faults = {}" "detect_stragglers (fst p) = []"
    using q c that d r by (auto simp: fault_answer_def jump_round_def Let_def split: if_splits)
  ultimately show ?thesis using f by simp
qed

lemma check_stored_faults:
  "rz_rdzv_nodes s \<noteq> [] \<Longrightarrow> length (rz_rdzv_nodes s) \<le> card (nc_reported_nodes s) \<Longrightarrow>
   nc_fault_nodes s \<noteq> {} \<Longrightarrow> fst (nc_check_fault_node s) = Inr (nc_fault_nodes s, NODE_FAILURE)"
  by (simp add: nc_check_fault_node_def fault_answer_def)

text \<open>
  A node that left after a failed report. When a node without a success is no longer in the world,
  the first \<open>check_fault_node\<close> after the last report raises \<open>KeyError\<close>, but has already stored the
  verdict: the next call returns it.
\<close>

theorem departed_fault_node_raises:
  assumes "rz_rdzv_nodes s \<noteq> []" and "length (rz_rdzv_nodes s) \<le> card (nc_reported_nodes s)"
    and "nc_fault_nodes s = {}" and "(r, False) \<in> set (nc_node_status s)"
    and "\<not> dict_has (rz_rdzv_nodes s) r"
  shows "fst (nc_check_fault_node s) = Inl KeyError \<and>
    fst (nc_check_fault_node (snd (nc_check_fault_node s))) =
      Inr (fst ` {p \<in> set (nc_node_status s). \<not> snd p}, NODE_FAILURE)"
proof -
  let ?f = "fst ` {p \<in> set (nc_node_status s). \<not> snd p}"
  have r: "r \<in> ?f" "r \<notin> fst ` set (rz_rdzv_nodes s)"
    using assms(4,5) by (force simp: dict_has_iff)+
  have f: "fst ` set (filter (\<lambda>(r, st). \<not> st) (nc_node_status s)) = ?f" by (simp add: split_def)
  have "collect_fault_nodes s = (Inl KeyError, s\<lparr>nc_fault_nodes := ?f\<rparr>)"
    using assms(3) r unfolding collect_fault_nodes_def Let_def f by auto
  then have "nc_check_fault_node s = (Inl KeyError, s\<lparr>nc_fault_nodes := ?f\<rparr>)"
    using assms(1-3) by (simp add: nc_check_fault_node_def)
  moreover have "?f \<noteq> {}" using r(1) by blast
  then have "fst (nc_check_fault_node (s\<lparr>nc_fault_nodes := ?f\<rparr>)) = Inr (?f, NODE_FAILURE)"
    using assms(1,2) check_stored_faults [of "s\<lparr>nc_fault_nodes := ?f\<rparr>"] by simp
  ultimately show ?thesis by simp
qed

text \<open>
  A concrete check of three nodes: the first round pairs all three, node 2 fails and leaves; nodes 0
  and 1 join again and form the second round.
\<close>

definition demo_join :: "int \<Rightarrow> nc_op" where
  "demo_join r = NcJoin 1 new_job_context r r 8 ''''"

definition demo_first_round :: "nc_op list" where
  "demo_first_round =
     [NcParams 2 3 30 1, demo_join 0, demo_join 1, demo_join 2, NcWorld 2 new_job_context 0,
      NcReport 0 True 1, NcReport 1 False 2, NcReport 2 False 3]"

definition demo_departed :: "nc_op list" where
  "demo_departed =
     demo_first_round @ [demo_join 0, demo_join 1, NcWorld 40 new_job_context 0,
       NcReport 0 True 1, NcReport 1 True 2]"

lemma demo_departed_facts:
  defines "p \<equiv> fold nc_track demo_departed (new_net_check, [])"
  shows "map fst (rz_rdzv_nodes (fst p)) = [0, 1]" "nc_reported_nodes (fst p) = {0, 1}"
    "nc_fault_nodes (fst p) = {}" "nc_node_status (fst p) = [(0, True), (1, True), (2, False)]"
  unfolding p_def demo_departed_def by code_simp+

theorem departed_fault_node_raises_witness:
  "let s = fst (fold nc_track demo_departed (new_net_check, []))
   in fst (nc_check_fault_node s) = Inl KeyError \<and>
      fst (nc_check_fault_node (snd (nc_check_fault_node s))) = Inr ({2}, NODE_FAILURE)"
proof -
  define s where "s = fst (fold nc_track demo_departed (new_net_check, []))"
  note f = demo_departed_facts [folded s_def]
  have l: "length (rz_rdzv_nodes s) = 2" using arg_cong [OF f(1), of length] by simp
  have "fst ` set (rz_rdzv_nodes s) = {0, 1}" using arg_cong [OF f(1), of set] by simp
  then have "\<not> dict_has (rz_rdzv_nodes s) 2" by (simp add: dict_has_iff)
  moreover have "rz_rdzv_nodes s \<noteq> []" using l by auto
  ultimately have "fst (nc_check_fault_node s) = Inl KeyError \<and>
    fst (nc_check_fault_node (snd (nc_check_fault_node s))) =
      Inr (fst ` {p \<in> set (nc_node_status s). \<not> snd p}, NODE_FAILURE)"
    using f l by (intro departed_fault_node_raises [where r = 2]) auto
  moreover have "fst ` {p \<in> set (nc_node_status s). \<not> snd p} = {2}" unfolding f(4) by force
  ultimately show ?thesis by (simp only: Let_def s_def)
qed

text \<open>The same check with all three nodes in the second round.\<close>

definition demo_two_rounds :: "nc_op list" where
  "demo_two_rounds =
     demo_first_round @ [demo_join 0, demo_join 1, demo_join 2, NcWorld 3 new_job_context 0,
       NcReport 0 True 1, NcReport 1 True 2, NcReport 2 False 3]"

theorem network_check_verdict_witness:
  "\<exists>s'. nc_check_fault_node (fst (fold nc_track demo_two_rounds (new_net_check, []))) =
     (Inr ({2}, NODE_FAILURE), s')"
proof -
  define p where "p = fold nc_track demo_two_rounds (new_net_check, [])"
  have f: "map fst (rz_rdzv_nodes (fst p)) = [0, 1, 2]" "nc_reported_nodes (fst p) = {0, 1, 2}"
    "nc_fault_nodes (fst p) = {}"
    "snd p = [(0, True, 1), (1, False, 2), (2, False, 3), (0, True, 1), (1, True, 2), (2, False, 3)]"
    "map_sum id snd (fst (nc_check_fault_node (fst p))) = Inr NODE_FAILURE"
    unfolding p_def demo_two_rounds_def by code_simp+
  have l: "length (rz_rdzv_nodes (fst p)) = 3" using arg_cong [OF f(1), of length] by simp
  obtain faults reason s' where q: "nc_check_fault_node (fst p) = (Inr (faults, reason), s')"
    using f(5) by (cases "fst (nc_check_fault_node (fst p))") (auto simp: prod_eq_iff)
  have "faults = {r. (\<exists>ok t. (r, ok, t) \<in> set (snd p)) \<and> (\<forall>t. (r, True, t) \<notin> set (snd p))} \<and>
    reason = (if faults = {} then NF_NONE else NODE_FAILURE) \<and>
    (faults = {} \<and> detect_stragglers (fst p) = [] \<longrightarrow> even (rz_rdzv_round s'))"
    by (rule network_check_verdict [where ops = demo_two_rounds, folded p_def]) (use f l q in auto)
  moreover have "{r. (\<exists>ok t. (r, ok, t) \<in> set (snd p)) \<and> (\<forall>t. (r, True, t) \<notin> set (snd p))} = {2}"
    unfolding f(4) by auto
  ultimately show ?thesis using q unfolding p_def by auto
qed


section \<open>Properties of the check with node groups\<close>









end
