(* ===== verification/Coordination.thy ===== *)
theory Coordination
  imports Job_Constants
begin

text \<open>
  The small shared services of the master: \<open>KVStoreService\<close>, \<open>SyncService\<close>, \<open>ElasticPsService\<close>
  (\<open>dlrover/python/master/elastic_training/\<close>) and the agreement on a training port in
  \<open>TrainingNodeConfig\<close> (\<open>master/node/training_node.py\<close>). Each operation runs under the lock of its
  service, so it is one step. What \<open>SyncService\<close> asks of the job manager (the running workers) is an
  argument, and what it tells it (the workers to remove) is part of the result.
\<close>

section \<open>The key-value store\<close>

text \<open>Values are bytes, or integers for the counters of \<open>add\<close>; Python adds only values of one kind.\<close>

datatype kv_value = KV_BYTES string | KV_INT int

type_synonym kv_store = "(string, kv_value) dict"

fun kv_plus :: "kv_value \<Rightarrow> kv_value \<Rightarrow> kv_value option" where
  "kv_plus (KV_BYTES a) (KV_BYTES b) = Some (KV_BYTES (a @ b))"
| "kv_plus (KV_INT a) (KV_INT b) = Some (KV_INT (a + b))"
| "kv_plus _ _ = None"

definition kv_set :: "string \<Rightarrow> kv_value \<Rightarrow> kv_store \<Rightarrow> kv_store" where
  "kv_set key v st = AList.update key v st"

definition kv_get :: "string \<Rightarrow> kv_store \<Rightarrow> kv_value" where
  "kv_get key st = dict_get st key (KV_BYTES [])"

definition kv_add :: "string \<Rightarrow> kv_value \<Rightarrow> kv_store \<Rightarrow> kv_value \<times> kv_store" where
  "kv_add key v st =
     (case map_of st key of
        None \<Rightarrow> (v, AList.update key v st)
      | Some v0 \<Rightarrow> (case kv_plus v0 v of
                      None \<Rightarrow> (v, st)
                    | Some s \<Rightarrow> (s, AList.update key s st)))"

definition kv_clear :: "kv_store \<Rightarrow> kv_store" where
  "kv_clear st = []"

text \<open>The store as its clients see it: what a get returns after a set.\<close>

interpretation kv_dict: ordered_dict map_of kv_set AList.delete wf_dict
  by unfold_locales (auto simp: kv_set_def update_conv' delete_conv')

section \<open>Synchronisation points and barriers\<close>

type_synonym sync_worker = "node_type \<times> int"

record sync_service =
  sy_objs_target :: "(string, sync_worker list) dict"
  sy_finished_barriers :: "string set"
  sy_start_time :: "(string, rat) dict"
  sy_timeout :: rat

definition WAIT_SYNC_TIMEOUT :: rat where "WAIT_SYNC_TIMEOUT = 3600"

definition new_sync_service :: sync_service where
  "new_sync_service =
     \<lparr>sy_objs_target = [], sy_finished_barriers = {}, sy_start_time = [], sy_timeout = WAIT_SYNC_TIMEOUT\<rparr>"



definition barrier :: "string \<Rightarrow> sync_service \<Rightarrow> bool" where
  "barrier barrier_name s \<longleftrightarrow> barrier_name \<in> sy_finished_barriers s"



text \<open>
  \<open>for worker in xs: xs.remove(worker)\<close>: the loop reads position after position of the list that it
  shortens.
\<close>

function drain_loop :: "nat \<Rightarrow> 'a list \<Rightarrow> 'a set \<Rightarrow> 'a list \<times> 'a set" where
  "drain_loop i xs removed =
     (if i < length xs
      then drain_loop (Suc i) (remove1 (xs ! i) xs) (insert (xs ! i) removed)
      else (xs, removed))"
  by pat_completeness auto
termination
  by (relation "measure (\<lambda>(i, xs, removed). length xs - i)") (auto simp: length_remove1)

declare drain_loop.simps [simp del]

text \<open>One pass of the thread \<open>delete_sync_timeout_worker\<close>; the result is the set of workers to remove.\<close>

fun timeout_scan :: "rat \<Rightarrow> (string \<times> rat) list \<Rightarrow> sync_worker set \<Rightarrow> sync_service \<Rightarrow> (sync_service, sync_worker set) py_run" where
  "timeout_scan now [] removed s = (Inr removed, s)"
| "timeout_scan now ((n, start) # rest) removed s =
     (if now - start > sy_timeout s
      then case map_of (sy_objs_target s) n of
             None \<Rightarrow> (Inl KeyError, s)
           | Some ws \<Rightarrow>
               let (ws', removed') = drain_loop 0 ws removed
               in timeout_scan now rest removed' (s\<lparr>sy_objs_target := AList.update n ws' (sy_objs_target s)\<rparr>)
      else timeout_scan now rest removed s)"

definition delete_sync_timeout_worker :: "rat \<Rightarrow> sync_service \<Rightarrow> (sync_service, sync_worker set) py_run" where
  "delete_sync_timeout_worker now s = timeout_scan now (sy_start_time s) {} s"

section \<open>Versions of the parameter-server cluster\<close>

record elastic_ps =
  ep_global_version :: int
  ep_ps_local_version :: "(int, int) dict"
  ep_worker_local_version :: "(int, int) dict"
  ep_worker_restored_version :: "(int, int) dict"

definition new_elastic_ps :: elastic_ps where
  "new_elastic_ps = \<lparr>ep_global_version = 0, ep_ps_local_version = [], ep_worker_local_version = [],
     ep_worker_restored_version = []\<rparr>"

definition inc_global_cluster_version :: "elastic_ps \<Rightarrow> elastic_ps" where
  "inc_global_cluster_version s = s\<lparr>ep_global_version := ep_global_version s + 1\<rparr>"

definition get_ps_version :: "ps_cluster_version_type \<Rightarrow> int \<Rightarrow> elastic_ps \<Rightarrow> int" where
  "get_ps_version ty ps_id s =
     (case ty of
        PSV_GLOBAL \<Rightarrow> ep_global_version s
      | PSV_LOCAL \<Rightarrow> dict_get (ep_ps_local_version s) ps_id 0
      | _ \<Rightarrow> 0)"

definition update_ps_version :: "int \<Rightarrow> ps_cluster_version_type \<Rightarrow> int \<Rightarrow> elastic_ps \<Rightarrow> elastic_ps" where
  "update_ps_version ps_id ty version s =
     (case ty of
        PSV_LOCAL \<Rightarrow> s\<lparr>ep_ps_local_version := AList.update ps_id version (ep_ps_local_version s)\<rparr>
      | PSV_GLOBAL \<Rightarrow> s\<lparr>ep_global_version := version\<rparr>
      | _ \<Rightarrow> s)"

definition get_worker_version :: "ps_cluster_version_type \<Rightarrow> int \<Rightarrow> elastic_ps \<Rightarrow> int" where
  "get_worker_version ty worker_id s =
     (case ty of
        PSV_GLOBAL \<Rightarrow> ep_global_version s
      | PSV_LOCAL \<Rightarrow> dict_get (ep_worker_local_version s) worker_id 0
      | PSV_RESTORED \<Rightarrow> dict_get (ep_worker_restored_version s) worker_id (- 1)
      | _ \<Rightarrow> 0)"

definition update_worker_version :: "int \<Rightarrow> ps_cluster_version_type \<Rightarrow> int \<Rightarrow> elastic_ps \<Rightarrow> elastic_ps" where
  "update_worker_version worker_id ty version s =
     (case ty of
        PSV_LOCAL \<Rightarrow> s\<lparr>ep_worker_local_version := AList.update worker_id version (ep_worker_local_version s)\<rparr>
      | PSV_RESTORED \<Rightarrow>
          s\<lparr>ep_worker_restored_version := AList.update worker_id version (ep_worker_restored_version s)\<rparr>
      | PSV_GLOBAL \<Rightarrow> s\<lparr>ep_global_version := version\<rparr>
      | _ \<Rightarrow> s)"

section \<open>Agreeing on a training port\<close>

record port_sync =
  po_recv_ports :: "(int, int) dict"
  po_training_port :: int
  po_next_check_port :: int
  po_n_node :: int

definition new_port_sync :: port_sync where
  "new_port_sync = \<lparr>po_recv_ports = [], po_training_port = 0, po_next_check_port = 0, po_n_node = 0\<rparr>"

definition set_node_num :: "int \<Rightarrow> port_sync \<Rightarrow> port_sync" where
  "set_node_num n s = s\<lparr>po_n_node := n\<rparr>"

text \<open>The loop that finds the least and the greatest received port.\<close>

definition port_range :: "int list \<Rightarrow> int \<times> int" where
  "port_range ports =
     fold (\<lambda>p (mn, mx). (if mn = 0 \<or> mn > p then p else mn, if mx < p then p else mx)) ports (0, 0)"

text \<open>The answer: the agreed port, or 0; and the port from which to check next, or 0.\<close>

definition sync_node_training_port :: "int \<Rightarrow> int \<Rightarrow> port_sync \<Rightarrow> (int \<times> int) \<times> port_sync" where
  "sync_node_training_port node_id port s =
     (if po_training_port s > 0 then ((po_training_port s, 0), s)
      else if port < po_next_check_port s then ((0, po_next_check_port s), s)
      else
        let s1 = s\<lparr>po_recv_ports := AList.update node_id port (po_recv_ports s)\<rparr>
        in if int (length (po_recv_ports s1)) = po_n_node s1
           then let (min_port, max_port) = port_range (map snd (po_recv_ports s1))
                in if min_port \<noteq> max_port
                   then let s2 = s1\<lparr>po_recv_ports := [], po_next_check_port := max_port\<rparr>
                        in ((0, po_next_check_port s2), s2)
                   else let s2 = s1\<lparr>po_training_port := max_port\<rparr>
                        in ((po_training_port s2, 0), s2)
           else ((0, 0), s1))"

section \<open>Counting in the key-value store\<close>

text \<open>
  Counters. Whatever sets, adds and reads of other keys happen in between, integer additions to an
  absent key return the running sums, and an addition of the wrong kind of value changes nothing
  and answers as if it had been stored.
\<close>

datatype kv_op = KvSet string kv_value | KvAdd string kv_value

fun kv_step :: "kv_op \<Rightarrow> kv_store \<Rightarrow> kv_store" where
  "kv_step (KvSet k v) st = kv_set k v st"
| "kv_step (KvAdd k v) st = snd (kv_add k v st)"

fun kv_key :: "kv_op \<Rightarrow> string" where
  "kv_key (KvSet k v) = k"
| "kv_key (KvAdd k v) = k"

text \<open>The integers added to a key, in order.\<close>

definition kv_added :: "string \<Rightarrow> kv_op list \<Rightarrow> int list" where
  "kv_added key ops =
     concat (map (\<lambda>op. case op of KvAdd k (KV_INT i) \<Rightarrow> if k = key then [i] else [] | _ \<Rightarrow> []) ops)"

lemma kv_step_other: "kv_key op \<noteq> key \<Longrightarrow> map_of (kv_step op st) key = map_of st key"
  by (cases op) (auto simp: kv_set_def kv_add_def update_conv' split: option.splits)

definition kv_counts :: "string \<Rightarrow> int \<Rightarrow> kv_store \<Rightarrow> bool" where
  "kv_counts key n st \<longleftrightarrow> map_of st key = Some (KV_INT n) \<or> map_of st key = None \<and> n = 0"

lemma kv_add_counts:
  assumes "kv_counts key n st"
  shows "fst (kv_add key (KV_INT i) st) = KV_INT (n + i)" and "kv_counts key (n + i) (snd (kv_add key (KV_INT i) st))"
  using assms by (auto simp: kv_counts_def kv_add_def update_conv')

lemma kv_run_counts:
  assumes "kv_counts key n st" and "list_all (\<lambda>op. kv_key op = key \<longrightarrow> (\<exists>i. op = KvAdd key (KV_INT i))) ops"
  shows "kv_counts key (n + sum_list (kv_added key ops)) (fold kv_step ops st)"
  using assms
proof (induction ops arbitrary: n st)
  case (Cons op ops)
  show ?case
  proof (cases "kv_key op = key")
    case True
    then obtain i where op: "op = KvAdd key (KV_INT i)" using Cons.prems by auto
    then show ?thesis
      using Cons.IH [OF kv_add_counts(2) [OF Cons.prems(1)], of i] Cons.prems
      by (simp add: kv_added_def add.assoc)
  next
    case False
    then have "kv_counts key n (kv_step op st)"
      using Cons.prems(1) kv_step_other [OF False] by (simp add: kv_counts_def)
    moreover have "kv_added key (op # ops) = kv_added key ops"
      using False by (cases op) (auto simp: kv_added_def split: kv_value.splits)
    ultimately show ?thesis using Cons.IH Cons.prems by simp
  qed
qed (simp add: kv_added_def)

theorem kv_counter:
  assumes absent: "map_of st key = None"
    and ints: "list_all (\<lambda>op. kv_key op = key \<longrightarrow> (\<exists>i. op = KvAdd key (KV_INT i))) ops"
  defines "s \<equiv> fold kv_step ops st"
  shows "fst (kv_add key (KV_INT i) s) = KV_INT (sum_list (kv_added key ops) + i) \<and>
    (dict_has s key \<longrightarrow> kv_add key (KV_BYTES b) s = (KV_BYTES b, s))"
proof -
  have "kv_counts key 0 st" using absent by (simp add: kv_counts_def)
  from kv_run_counts [OF this ints] have c: "kv_counts key (sum_list (kv_added key ops)) s" by (simp add: s_def)
  then have "dict_has s key \<longrightarrow> kv_add key (KV_BYTES b) s = (KV_BYTES b, s)"
    by (auto simp: kv_counts_def kv_add_def dict_has_def)
  with kv_add_counts(1) [OF c] show ?thesis by simp
qed

theorem kv_counter_witness:
  "fst (kv_add ''n'' (KV_INT 1) (fold kv_step [KvAdd ''n'' (KV_INT 1), KvSet ''x'' (KV_BYTES ''a''), KvAdd ''n'' (KV_INT 1)] []))
   = KV_INT 3"
  using kv_counter [of "[]" "''n''"
      "[KvAdd ''n'' (KV_INT 1), KvSet ''x'' (KV_BYTES ''a''), KvAdd ''n'' (KV_INT 1)]" 1 "[]"]
  by (simp add: kv_added_def)

section \<open>Synchronisation points\<close>















section \<open>Timed-out synchronisation points\<close>

fun every_second :: "'a list \<Rightarrow> 'a list" where
  "every_second (a # b # xs) = b # every_second xs"
| "every_second [a] = []"
| "every_second [] = []"

fun every_other :: "'a list \<Rightarrow> 'a list" where
  "every_other (a # b # xs) = a # every_other xs"
| "every_other [a] = [a]"
| "every_other [] = []"

lemma drain_loop_eq:
  "distinct (pre @ xs) \<Longrightarrow> drain_loop (length pre) (pre @ xs) removed =
     (pre @ every_second xs, removed \<union> set (every_other xs))"
proof (induction xs arbitrary: pre removed rule: every_second.induct)
  case (1 a b xs)
  have r: "remove1 a (pre @ a # b # xs) = (pre @ [b]) @ xs" using "1.prems" by (simp add: remove1_append)
  have "drain_loop (length pre) (pre @ a # b # xs) removed =
      drain_loop (length (pre @ [b])) ((pre @ [b]) @ xs) (insert a removed)"
    by (subst drain_loop.simps) (simp add: nth_append r)
  also have "\<dots> = ((pre @ [b]) @ every_second xs, insert a removed \<union> set (every_other xs))"
    using "1.prems" by (intro "1.IH") auto
  finally show ?case by simp
next
  case 3
  show ?case by (subst drain_loop.simps) simp
next
  case (2 v)
  then have "remove1 v (pre @ [v]) = pre" by (simp add: remove1_append)
  then have "drain_loop (length pre) (pre @ [v]) removed = drain_loop (Suc (length pre)) pre (insert v removed)"
    by (subst drain_loop.simps) (simp add: nth_append)
  then show ?case by (subst (asm) (2) drain_loop.simps) simp
qed

lemma length_every_second: "length (every_second xs) = length xs div 2"
  by (induction xs rule: every_second.induct) auto

lemma distinct_every_second: "distinct xs \<Longrightarrow> distinct (every_second xs)"
proof -
  have "set (every_second xs) \<subseteq> set xs" for xs :: "'a list"
    by (induction xs rule: every_second.induct) auto
  then show "distinct xs \<Longrightarrow> distinct (every_second xs)"
    by (induction xs rule: every_second.induct) auto
qed

lemma scan_single:
  assumes "sy_start_time s = [(n, start)]" and "now - start > sy_timeout s"
    and "map_of (sy_objs_target s) n = Some ws" and "distinct ws"
  shows "delete_sync_timeout_worker now s =
    (Inr (set (every_other ws)), s\<lparr>sy_objs_target := AList.update n (every_second ws) (sy_objs_target s)\<rparr>)"
  using assms drain_loop_eq [of "[]" ws "{}"] by (simp add: delete_sync_timeout_worker_def)

text \<open>
  A timeout removes every second worker. The scan for overdue points deletes from the list it walks
  through: one scan removes the first, third, fifth and so on of the workers the point still waits
  for, the others wait for the next scan. So \<open>k\<close> scans leave the share \<open>2 ^ - k\<close>, rounded down.
\<close>

theorem timeout_removes_every_second:
  assumes "sy_start_time s = [(n, start)]" and "now - start > sy_timeout s"
    and "map_of (sy_objs_target s) n = Some ws" and "distinct ws"
  defines "scan \<equiv> \<lambda>s. snd (delete_sync_timeout_worker now s)"
  shows "fst (delete_sync_timeout_worker now s) = Inr (set (every_other ws)) \<and>
    map_of (sy_objs_target (scan s)) n = Some (every_second ws) \<and>
    (\<exists>rest. map_of (sy_objs_target ((scan ^^ k) s)) n = Some rest \<and> length rest = length ws div 2 ^ k)"
proof -
  have "\<exists>rest. map_of (sy_objs_target ((scan ^^ k) s)) n = Some rest \<and> distinct rest \<and>
      length rest = length ws div 2 ^ k \<and> sy_start_time ((scan ^^ k) s) = [(n, start)] \<and>
      sy_timeout ((scan ^^ k) s) = sy_timeout s"
  proof (induction k)
    case (Suc k)
    let ?t = "(scan ^^ k) s"
    obtain rest where r: "map_of (sy_objs_target ?t) n = Some rest" "distinct rest"
      "length rest = length ws div 2 ^ k" "sy_start_time ?t = [(n, start)]" "sy_timeout ?t = sy_timeout s"
      using Suc.IH by blast
    have sc: "scan ?t = ?t\<lparr>sy_objs_target := AList.update n (every_second rest) (sy_objs_target ?t)\<rparr>"
      using scan_single [OF r(4) _ r(1,2), of now] assms(2) r(5) by (simp add: scan_def)
    have "length (every_second rest) = length ws div 2 ^ Suc k"
      using r(3) by (simp only: length_every_second div_mult2_eq [symmetric] power_Suc2)
    then show ?case using r sc by (simp add: update_conv' distinct_every_second)
  qed (use assms in simp)
  then show ?thesis
    using scan_single [OF assms(1-4)] by (auto simp: scan_def update_conv')
qed

theorem timeout_removes_every_second_witness:
  "let ws = [(NT_WORKER, 0), (NT_WORKER, 1), (NT_WORKER, 2)];
       s = new_sync_service\<lparr>sy_objs_target := [(''p'', ws)], sy_start_time := [(''p'', 0)]\<rparr>
   in fst (delete_sync_timeout_worker 4000 s) = Inr {(NT_WORKER, 0), (NT_WORKER, 2)} \<and>
      map_of (sy_objs_target (snd (delete_sync_timeout_worker 4000 s))) ''p'' = Some [(NT_WORKER, 1)]"
  using timeout_removes_every_second [of "new_sync_service\<lparr>sy_objs_target :=
      [(''p'', [(NT_WORKER, 0), (NT_WORKER, 1), (NT_WORKER, 2)])], sy_start_time := [(''p'', 0)]\<rparr>"
      "''p''" 0 4000 "[(NT_WORKER, 0), (NT_WORKER, 1), (NT_WORKER, 2)]" 0]
  by (simp add: Let_def new_sync_service_def WAIT_SYNC_TIMEOUT_def insert_commute)

section \<open>Port agreement\<close>

lemma port_range_min_max:
  assumes "\<forall>p\<in>set (p # ps). 0 < p"
  shows "port_range (p # ps) = (Min (set (p # ps)), Max (set (p # ps)))"
proof -
  let ?f = "\<lambda>p (mn, mx). (if mn = 0 \<or> mn > p then p else mn, if mx < p then p else mx) :: int \<times> int"
  have "fold ?f ps (mn, mx) = (Min (insert mn (set ps)), Max (insert mx (set ps)))"
    if "0 < mn" "\<forall>p\<in>set ps. 0 < p" for mn mx
    using that
  proof (induction ps arbitrary: mn mx)
    case (Cons q ps)
    have "fold ?f (q # ps) (mn, mx) = fold ?f ps (min mn q, max mx q)"
      using Cons.prems by (auto simp: min_def max_def)
    also have "\<dots> = (Min (insert (min mn q) (set ps)), Max (insert (max mx q) (set ps)))"
      using Cons.prems by (intro Cons.IH) auto
    finally show ?case by (cases "ps = []") (auto simp: ac_simps)
  qed simp
  from this [of p p] assms show ?thesis by (simp add: port_range_def)
qed

definition po_run :: "(int \<times> int) list \<Rightarrow> port_sync \<Rightarrow> port_sync" where
  "po_run reports s = fold (\<lambda>(i, p) s. snd (sync_node_training_port i p s)) reports s"

lemma po_run_collect:
  assumes "po_training_port s = 0" and "wf_dict (po_recv_ports s @ reports)"
    and "\<forall>(i, p)\<in>set reports. po_next_check_port s \<le> p"
    and "int (length (po_recv_ports s) + length reports) < po_n_node s"
  shows "po_run reports s = s\<lparr>po_recv_ports := po_recv_ports s @ reports\<rparr>"
  using assms
proof (induction reports arbitrary: s)
  case (Cons r reports)
  obtain i p where r: "r = (i, p)" by fastforce
  have u: "AList.update i p (po_recv_ports s) = po_recv_ports s @ [(i, p)]"
    using Cons.prems(2) r by (intro update_new) (auto simp: map_of_eq_None_iff wf_dict_def)
  then have s1: "snd (sync_node_training_port i p s) = s\<lparr>po_recv_ports := po_recv_ports s @ [(i, p)]\<rparr>"
    using Cons.prems r by (auto simp: sync_node_training_port_def Let_def)
  have "po_run reports (s\<lparr>po_recv_ports := po_recv_ports s @ [(i, p)]\<rparr>) =
      s\<lparr>po_recv_ports := (po_recv_ports s @ [(i, p)]) @ reports\<rparr>"
    using Cons.IH [of "s\<lparr>po_recv_ports := po_recv_ports s @ [(i, p)]\<rparr>"] Cons.prems r by auto
  then show ?case using s1 r by (simp add: po_run_def)
qed (simp add: po_run_def)

text \<open>
  Agreeing on a port. When each of the nodes reports one positive port, none below the port to check
  from, the last report decides: if all ports are equal, that port is agreed on and every later
  answer to anybody is this port; otherwise the greatest of them is the next port to check from and
  the collected reports are gone.
\<close>

theorem port_round:
  assumes new: "po_training_port s = 0" "po_recv_ports s = []" and d: "distinct (map fst (reports @ [(i, p)]))"
    and n: "po_n_node s = int (length reports) + 1"
    and ports: "\<forall>(j, q)\<in>set (reports @ [(i, p)]). 0 < q \<and> po_next_check_port s \<le> q"
  defines "s1 \<equiv> po_run reports s" and "ports \<equiv> set (map snd (reports @ [(i, p)]))"
  shows "(if ports = {p}
     then fst (sync_node_training_port i p s1) = (p, 0) \<and>
          sync_node_training_port j q (snd (sync_node_training_port i p s1)) =
            ((p, 0), snd (sync_node_training_port i p s1))
     else fst (sync_node_training_port i p s1) = (0, Max ports) \<and>
          po_next_check_port (snd (sync_node_training_port i p s1)) = Max ports \<and>
          po_recv_ports (snd (sync_node_training_port i p s1)) = [])"
proof -
  have s1: "s1 = s\<lparr>po_recv_ports := reports\<rparr>"
    using po_run_collect [OF new(1), of reports] new(2) d n ports by (auto simp: s1_def wf_dict_def)
  have u: "AList.update i p reports = reports @ [(i, p)]"
    using d by (intro update_new) (auto simp: map_of_eq_None_iff)
  obtain q0 qs where q: "map snd (reports @ [(i, p)]) = q0 # qs" by (cases "map snd (reports @ [(i, p)])") auto
  have pos: "\<forall>x\<in>set (map snd (reports @ [(i, p)])). 0 < x" using ports by auto
  have r: "port_range (map snd (reports @ [(i, p)])) = (Min ports, Max ports)"
    unfolding ports_def q by (rule port_range_min_max) (use pos in \<open>simp only: q\<close>)
  have p: "p \<in> ports" "finite ports" by (auto simp: ports_def)
  have mm: "Min ports = Max ports \<longleftrightarrow> ports = {p}"
  proof
    assume "Min ports = Max ports"
    then have "x = p" if "x \<in> ports" for x
      using that p by (metis Max_ge Min_le order_antisym)
    then show "ports = {p}" using p by blast
  qed simp
  have "0 < p" using ports by auto
  then show ?thesis
    using n r u mm ports new(1) unfolding s1
    by (cases "ports = {p}") (auto simp: sync_node_training_port_def Let_def split_def)
qed

theorem port_round_witness:
  "let s = po_run [(0, 20000)] (set_node_num 2 new_port_sync)
   in fst (sync_node_training_port 1 20001 s) = (0, 20001) \<and>
      fst (sync_node_training_port 1 20000 s) = (20000, 0)"
  using port_round [of "set_node_num 2 new_port_sync" "[(0, 20000)]" 1 20001 0 0]
    port_round [of "set_node_num 2 new_port_sync" "[(0, 20000)]" 1 20000 0 0]
  by (simp add: Let_def set_node_num_def new_port_sync_def)

end
