(* ===== verification/Training_Node.thy ===== *)
theory Training_Node
  imports Job_Context Py_Strings
begin

text \<open>
  \<open>dlrover/python/master/node/training_node.py\<close> (except the port agreement, which is in the theory
  of the shared services) and the scale plan of \<open>master/scaler/base_scaler.py\<close>: critical nodes and
  priorities, shrinking the resources of pending nodes, and the node manager that the managers of
  workers, parameter servers, chiefs and evaluators share. The manager's node table lives in the job
  context, which its operations take and return. The context hands out its own node objects, so a
  change of a node is a change of the table; nodes in groups are copies. The name of a new pod is
  made by the platform: it is a function argument.
\<close>

section \<open>Scale plans\<close>

record scale_plan =
  sp_node_group_resources :: "(node_type, node_group_resource) dict"
  sp_launch_nodes :: "node list"
  sp_remove_nodes :: "node list"
  sp_ps_addrs :: "string list"

definition new_scale_plan :: scale_plan where
  "new_scale_plan = \<lparr>sp_node_group_resources = [], sp_launch_nodes = [], sp_remove_nodes = [], sp_ps_addrs = []\<rparr>"

definition sp_empty :: "scale_plan \<Rightarrow> bool" where
  "sp_empty p \<longleftrightarrow> sp_node_group_resources p = [] \<and> sp_launch_nodes p = [] \<and> sp_remove_nodes p = []"

definition sp_merge :: "scale_plan \<Rightarrow> scale_plan \<Rightarrow> scale_plan" where
  "sp_merge plan p =
     p\<lparr>sp_node_group_resources := dict_merge (sp_node_group_resources p) (sp_node_group_resources plan),
       sp_launch_nodes := sp_launch_nodes p @ sp_launch_nodes plan,
       sp_remove_nodes := sp_remove_nodes p @ sp_remove_nodes plan\<rparr>"

section \<open>Critical nodes and priorities\<close>

definition ALIVE_STATUS :: "node_status list" where
  "ALIVE_STATUS = [ST_INITIAL, ST_PENDING, ST_RUNNING]"

definition set_critical_ps :: "bool \<Rightarrow> int \<Rightarrow> node \<Rightarrow> node" where
  "set_critical_ps ps_is_critical ps_relaunch_max_num n =
     (let n1 = n\<lparr>nd_critical := ps_is_critical\<rparr>
      in if nd_critical n1 then n1\<lparr>nd_max_relaunch_count := ps_relaunch_max_num\<rparr> else n1)"

text \<open>The loop over the workers looks the count up under the table key, not under the id it tested.\<close>

fun set_critical_workers :: "(int, int) dict \<Rightarrow> node_table \<Rightarrow> (node_table, unit) py_run" where
  "set_critical_workers index [] = (Inr (), [])"
| "set_critical_workers index ((i, n) # rest) =
     (if \<not> dict_has index (nd_id n)
      then (case set_critical_workers index rest of (r, t) \<Rightarrow> (r, (i, n) # t))
      else case map_of index i of
             None \<Rightarrow> (Inl KeyError, (i, n\<lparr>nd_critical := True\<rparr>) # rest)
           | Some k \<Rightarrow>
               (case set_critical_workers index rest of
                  (r, t) \<Rightarrow> (r, (i, n\<lparr>nd_critical := True, nd_max_relaunch_count := k\<rparr>) # t)))"

definition map_table :: "node_type \<Rightarrow> (node \<Rightarrow> node) \<Rightarrow> (node_type, node_table) dict \<Rightarrow> (node_type, node_table) dict" where
  "map_table ty f nodes = map (\<lambda>(k, t). (k, if k = ty then map (\<lambda>(i, n). (i, f n)) t else t)) nodes"

definition set_critical_node ::
    "bool \<Rightarrow> int \<Rightarrow> (int, int) dict \<Rightarrow> (node_type, node_table) dict \<Rightarrow> ((node_type, node_table) dict, unit) py_run" where
  "set_critical_node ps_is_critical ps_relaunch_max_num critical_worker_index nodes =
     (let n1 = map_table NT_PS (set_critical_ps ps_is_critical ps_relaunch_max_num) nodes;
          (r, n2) = (case map_of n1 NT_WORKER of
                       None \<Rightarrow> (Inr (), n1)
                     | Some t \<Rightarrow> (case set_critical_workers critical_worker_index t of
                                    (r, t') \<Rightarrow> (r, AList.update NT_WORKER t' n1)))
      in case r of
           Inl e \<Rightarrow> (Inl e, n2)
         | Inr _ \<Rightarrow>
             (Inr (), map_table NT_CHIEF (\<lambda>n. n\<lparr>nd_critical := True\<rparr>)
                        (map_table NT_EVALUATOR (\<lambda>n. n\<lparr>nd_critical := True\<rparr>) n2)))"

text \<open>\<open>update_nodes_priority\<close>: node after node; an invalid priority raises and the rest stay as they are.\<close>

fun priority_table :: "int \<Rightarrow> node_table \<Rightarrow> (node_table, unit) py_run" where
  "priority_table num [] = (Inr (), [])"
| "priority_table num ((i, n) # rest) =
     (case update_priority num n of
        (Inl e, n') \<Rightarrow> (Inl e, (i, n') # rest)
      | (Inr _, n') \<Rightarrow> (case priority_table num rest of (r, t) \<Rightarrow> (r, (i, n') # t)))"

fun update_nodes_priority :: "(node_type, node_table) dict \<Rightarrow> ((node_type, node_table) dict, unit) py_run" where
  "update_nodes_priority [] = (Inr (), [])"
| "update_nodes_priority ((ty, t) # rest) =
     (case priority_table (int (length t)) t of
        (Inl e, t') \<Rightarrow> (Inl e, (ty, t') # rest)
      | (Inr _, t') \<Rightarrow> (case update_nodes_priority rest of (r, ts) \<Rightarrow> (r, (ty, t') # ts)))"

text \<open>
  \<open>get_critical_worker_index\<close> on the worker arguments of a job: the list of critical nodes, the restart
  count and the number of workers. Any failure while parsing gives the empty index.
\<close>

record worker_args =
  wa_critical_nodes :: string
  wa_restart_count :: int
  wa_count :: int

definition parse_critical :: "string \<Rightarrow> (int \<times> int) py_result" where
  "parse_critical conf =
     (let parts = py_split (CHR '':'') (py_strip conf)
      in case py_int_str (parts ! 0) of
           Inl e \<Rightarrow> Inl e
         | Inr i \<Rightarrow> if length parts < 2 then Inl IndexError
                    else (case py_int_str (parts ! 1) of Inl e \<Rightarrow> Inl e | Inr k \<Rightarrow> Inr (i, k)))"

fun parse_criticals :: "string list \<Rightarrow> (int, int) dict \<Rightarrow> (int, int) dict py_result" where
  "parse_criticals [] d = Inr d"
| "parse_criticals (conf # confs) d =
     (case parse_critical conf of Inl e \<Rightarrow> Inl e | Inr (i, k) \<Rightarrow> parse_criticals confs (AList.update i k d))"

definition get_critical_worker_index :: "distribution_strategy \<Rightarrow> worker_args \<Rightarrow> (int, int) dict" where
  "get_critical_worker_index strategy wa =
     (if wa_critical_nodes wa = ''''
      then if strategy = DS_PS then [(0, wa_restart_count wa)] else []
      else if wa_critical_nodes wa = ''all''
      then map (\<lambda>i. (i, wa_restart_count wa)) [0..wa_count wa - 1]
      else if wa_critical_nodes wa \<noteq> ''none''
      then case parse_criticals (py_split (CHR '','') (wa_critical_nodes wa)) [] of
             Inl e \<Rightarrow> []
           | Inr d \<Rightarrow> d
      else [])"

section \<open>Pending nodes\<close>

record pending_conf =
  pf_seconds_to_wait_pending_pod :: rat
  pf_seconds_to_wait_group_pending_pod :: rat
  pf_factor_to_cut_pending_cpu :: rat
  pf_factor_to_cut_pending_mem :: rat

definition get_pending_timeout :: "pending_conf \<Rightarrow> rat" where
  "get_pending_timeout cf =
     (if pf_seconds_to_wait_pending_pod cf \<le> 0 then of_int PENDING_NODE_TIMEOUT_DEFAULT_MIN
      else pf_seconds_to_wait_pending_pod cf)"

definition set_cpu :: "rat \<Rightarrow> node \<Rightarrow> node" where
  "set_cpu cpu n = n\<lparr>nd_config_resource := (nd_config_resource n)\<lparr>nr_cpu := cpu\<rparr>\<rparr>"

definition set_memory :: "rat \<Rightarrow> node \<Rightarrow> node" where
  "set_memory mem n = n\<lparr>nd_config_resource := (nd_config_resource n)\<lparr>nr_memory := mem\<rparr>\<rparr>"

definition cut_to :: "rat \<Rightarrow> rat \<Rightarrow> rat" where
  "cut_to f x = of_int \<lceil>x / f\<rceil>"

definition reduce_timeout_pending_node_resource :: "rat \<Rightarrow> pending_conf \<Rightarrow> node \<Rightarrow> (node, bool) py_run" where
  "reduce_timeout_pending_node_resource now cf n =
     (case nd_create_time n of
        None \<Rightarrow> (Inr False, n)
      | Some created \<Rightarrow>
          if nd_is_released n \<or> nr_gpu_num (nd_config_resource n) > 0 then (Inr False, n)
          else if now - created < get_pending_timeout cf then (Inr False, n)
          else if pf_factor_to_cut_pending_cpu cf = 0 then (Inl ZeroDivisionError, n)
          else
            let new_cpu = cut_to (pf_factor_to_cut_pending_cpu cf) (nr_cpu (nd_config_resource n));
                n1 = (if new_cpu > MIN_CPU_CORES then set_cpu new_cpu n else n)
            in if pf_factor_to_cut_pending_mem cf = 0 then (Inl ZeroDivisionError, n1)
               else
                 let new_memory = cut_to (pf_factor_to_cut_pending_mem cf) (nr_memory (nd_config_resource n1))
                 in (Inr True, if new_memory > MIN_MEMORY then set_memory new_memory n1 else n1))"

definition skip_pending_judgement :: "int \<Rightarrow> bool" where
  "skip_pending_judgement strategy \<longleftrightarrow> strategy = 0"

definition is_key_nodes_pending_judgement :: "int \<Rightarrow> bool" where
  "is_key_nodes_pending_judgement strategy \<longleftrightarrow> strategy = 1"

definition is_all_nodes_pending_judgement :: "int \<Rightarrow> bool" where
  "is_all_nodes_pending_judgement strategy \<longleftrightarrow> strategy = 2"

section \<open>The node manager\<close>

text \<open>The two \<open>itertools.count\<close> iterators are their next values.\<close>

record node_manager =
  nm_node_type :: node_type
  nm_node_id_iter :: int
  nm_node_rank_iter :: int

definition update_nodes_iter :: "job_context \<Rightarrow> bool \<Rightarrow> 'a node_manager_scheme \<Rightarrow> 'a node_manager_scheme" where
  "update_nodes_iter c update_rank_iter m =
     (let nodes = job_nodes_by_type (nm_node_type m) c;
          m1 = m\<lparr>nm_node_id_iter := (if length nodes > 0 then Max (fst ` set nodes) + 1 else 0)\<rparr>
      in if update_rank_iter then m1\<lparr>nm_node_rank_iter := int (length nodes)\<rparr> else m1)"

definition new_node_manager :: "node_type \<Rightarrow> job_context \<Rightarrow> node_manager" where
  "new_node_manager ty c =
     update_nodes_iter c True \<lparr>nm_node_type = ty, nm_node_id_iter = 0, nm_node_rank_iter = 0\<rparr>"

definition cur_nodes :: "job_context \<Rightarrow> 'a node_manager_scheme \<Rightarrow> string option list" where
  "cur_nodes c m = map (nd_name \<circ> snd) (job_nodes_by_type (nm_node_type m) c)"

definition nm_update_node :: "node \<Rightarrow> job_context \<Rightarrow> job_context" where
  "nm_update_node n c =
     (let c1 = update_job_node n c in if nd_has_group n then update_job_node_by_group n c1 else c1)"

definition get_next_node_id :: "job_context \<Rightarrow> 'a node_manager_scheme \<Rightarrow> int \<times> 'a node_manager_scheme" where
  "get_next_node_id c m =
     (let m1 = update_nodes_iter c False m
      in (nm_node_id_iter m1, m1\<lparr>nm_node_id_iter := nm_node_id_iter m1 + 1\<rparr>))"

text \<open>\<open>remove_node\<close> returns \<open>None\<close> for a node that is deleted or not launched yet.\<close>

definition remove_node :: "int \<Rightarrow> 'a node_manager_scheme \<Rightarrow> job_context \<Rightarrow> scale_plan option \<times> job_context" where
  "remove_node node_id m c =
     (case job_node (nm_node_type m) node_id c of
        None \<Rightarrow> (Some new_scale_plan, c)
      | Some w \<Rightarrow>
          if nd_status w \<in> {ST_DELETED, ST_INITIAL} then (None, c)
          else let w' = w\<lparr>nd_is_released := True\<rparr>
               in (Some (new_scale_plan\<lparr>sp_remove_nodes := [w']\<rparr>), nm_update_node w' c))"

definition relaunch_node ::
    "(node_type \<Rightarrow> int \<Rightarrow> string) \<Rightarrow> rat \<Rightarrow> node \<Rightarrow> bool \<Rightarrow> 'a node_manager_scheme \<Rightarrow> job_context
     \<Rightarrow> scale_plan \<times> 'a node_manager_scheme \<times> job_context" where
  "relaunch_node new_node_name_fn now n remove_exited_node m c =
     (let (new_id, m1) = get_next_node_id c m;
          new_name = new_node_name_fn (nd_type n) new_id;
          relaunched = generate_relaunch_node now new_id (Some new_name) n;
          c1 = nm_update_node relaunched c;
          plan = new_scale_plan\<lparr>sp_launch_nodes := [relaunched]\<rparr>
      in if remove_exited_node \<and> \<not> nd_is_released n \<and> nd_exited n
         then let n' = n\<lparr>nd_is_released := True\<rparr>
              in (plan\<lparr>sp_remove_nodes := [n']\<rparr>, m1, nm_update_node n' c1)
         else (plan, m1, c1))"

fun relaunch_nodes ::
    "(node_type \<Rightarrow> int \<Rightarrow> string) \<Rightarrow> rat \<Rightarrow> node list \<Rightarrow> bool \<Rightarrow> scale_plan \<Rightarrow> 'a node_manager_scheme \<Rightarrow> job_context
     \<Rightarrow> scale_plan \<times> 'a node_manager_scheme \<times> job_context" where
  "relaunch_nodes fn now [] rm plan m c = (plan, m, c)"
| "relaunch_nodes fn now (n # ns) rm plan m c =
     (case relaunch_node fn now n rm m c of
        (sub, m1, c1) \<Rightarrow>
          relaunch_nodes fn now ns rm
            (plan\<lparr>sp_launch_nodes := sp_launch_nodes plan @ sp_launch_nodes sub,
                  sp_remove_nodes := sp_remove_nodes plan @ sp_remove_nodes sub\<rparr>) m1 c1)"

text \<open>The loop of \<open>reduce_pending_node_resource\<close> over the nodes present at its start.\<close>

fun reduce_pending_loop ::
    "(node_type \<Rightarrow> int \<Rightarrow> string) \<Rightarrow> rat \<Rightarrow> pending_conf \<Rightarrow> node list \<Rightarrow> scale_plan \<Rightarrow> 'a node_manager_scheme
     \<Rightarrow> job_context \<Rightarrow> ('a node_manager_scheme \<times> job_context, scale_plan) py_run" where
  "reduce_pending_loop fn now cf [] plan m c = (Inr plan, m, c)"
| "reduce_pending_loop fn now cf (n # ns) plan m c =
     (if nd_status n = ST_PENDING
      then case reduce_timeout_pending_node_resource now cf n of
             (Inl e, n1) \<Rightarrow> (Inl e, m, update_job_node n1 c)
           | (Inr False, n1) \<Rightarrow> reduce_pending_loop fn now cf ns plan m c
           | (Inr True, n1) \<Rightarrow>
               let n2 = n1\<lparr>nd_relaunchable := False\<rparr>;
                   (node_plan, m1, c1) = relaunch_node fn now n2 False m (nm_update_node n2 c)
               in reduce_pending_loop fn now cf ns
                    (sp_merge node_plan (plan\<lparr>sp_remove_nodes := sp_remove_nodes plan @ [n2]\<rparr>)) m1 c1
      else reduce_pending_loop fn now cf ns plan m c)"

definition reduce_pending_node_resource ::
    "(node_type \<Rightarrow> int \<Rightarrow> string) \<Rightarrow> rat \<Rightarrow> pending_conf \<Rightarrow> 'a node_manager_scheme \<Rightarrow> job_context
     \<Rightarrow> ('a node_manager_scheme \<times> job_context, scale_plan) py_run" where
  "reduce_pending_node_resource fn now cf m c =
     reduce_pending_loop fn now cf (map snd (job_nodes_by_type (nm_node_type m) c)) new_scale_plan m c"

definition get_pending_timeout_oom_recovered_node ::
    "rat \<Rightarrow> pending_conf \<Rightarrow> 'a node_manager_scheme \<Rightarrow> job_context \<Rightarrow> node list" where
  "get_pending_timeout_oom_recovered_node now cf m c =
     filter (\<lambda>n. case nd_create_time n of
                   None \<Rightarrow> False
                 | Some created \<Rightarrow> \<not> nd_is_released n \<and> nd_status n = ST_PENDING \<and>
                     nd_is_recovered_oom n \<and> now - created > get_pending_timeout cf)
       (map snd (job_nodes_by_type (nm_node_type m) c))"

definition get_running_nodes :: "'a node_manager_scheme \<Rightarrow> job_context \<Rightarrow> node list" where
  "get_running_nodes m c =
     filter (\<lambda>n. nd_status n = ST_RUNNING \<and> \<not> nd_is_released n)
       (map snd (job_nodes_by_type (nm_node_type m) c))"

definition node_statuses :: "'a node_manager_scheme \<Rightarrow> job_context \<Rightarrow> node_status list" where
  "node_statuses m c = remdups (map (nd_status \<circ> snd) (job_nodes_by_type (nm_node_type m) c))"

definition all_nodes_exited :: "'a node_manager_scheme \<Rightarrow> job_context \<Rightarrow> bool" where
  "all_nodes_exited m c \<longleftrightarrow>
     (let nodes = map snd (job_nodes_by_type (nm_node_type m) c)
      in if nodes = [] then True
         else if length (node_statuses m c) = 1 \<and> ST_INITIAL \<in> set (node_statuses m c) then False
         else
           let kept = filter (\<lambda>n. \<not> nd_is_released n) nodes;
               low = (\<lambda>n. nr_priority (nd_config_resource n) = PR_LOW);
               waiting = (\<lambda>n. nd_status n \<in> {ST_INITIAL, ST_PENDING});
               running_workers = filter (\<lambda>n. nd_status n = ST_RUNNING) kept;
               pending_high_workers = filter (\<lambda>n. \<not> low n \<and> waiting n) kept;
               pending_low_workers = filter (\<lambda>n. low n \<and> waiting n) kept;
               high_worker_num = length (filter (\<lambda>n. \<not> low n) kept)
           in \<not> (running_workers \<noteq> [] \<or> pending_high_workers \<noteq> [] \<or>
                (high_worker_num = 0 \<and> pending_low_workers \<noteq> [])))"

definition all_nodes_deleted :: "'a node_manager_scheme \<Rightarrow> job_context \<Rightarrow> bool" where
  "all_nodes_deleted m c \<longleftrightarrow> list_all (\<lambda>st. st = ST_DELETED) (node_statuses m c)"

definition all_nodes_failed :: "'a node_manager_scheme \<Rightarrow> job_context \<Rightarrow> bool" where
  "all_nodes_failed m c \<longleftrightarrow>
     (if length (node_statuses m c) = 1 \<and> ST_INITIAL \<in> set (node_statuses m c) then False
      else list_all (\<lambda>st. st \<in> {ST_FAILED, ST_DELETED, ST_INITIAL}) (node_statuses m c))"

fun hanged_loop :: "rat \<Rightarrow> node list \<Rightarrow> job_context \<Rightarrow> bool list \<times> job_context" where
  "hanged_loop now [] c = ([], c)"
| "hanged_loop now (n # ns) c =
     (if nd_status n = ST_RUNNING
      then let hang = (nd_start_hang_time n > 0 \<and> now - nd_start_hang_time n > MAX_HANG_TIMEOUT_SECS);
               (hs, c1) = hanged_loop now ns (nm_update_node (n\<lparr>nd_hang := hang\<rparr>) c)
           in (hang # hs, c1)
      else hanged_loop now ns c)"

definition running_nodes_hanged :: "rat \<Rightarrow> 'a node_manager_scheme \<Rightarrow> job_context \<Rightarrow> bool list \<times> job_context" where
  "running_nodes_hanged now m c = hanged_loop now (map snd (job_nodes_by_type (nm_node_type m) c)) c"

definition update_critical_node :: "(int, int) dict \<Rightarrow> 'a node_manager_scheme \<Rightarrow> job_context \<Rightarrow> job_context" where
  "update_critical_node restarts m c =
     c\<lparr>jc_job_nodes := map (\<lambda>(ty, t). (ty,
         if ty = preprocess (nm_node_type m) c
         then map (\<lambda>(i, n). (i, case map_of restarts i of
                                   None \<Rightarrow> n
                                 | Some k \<Rightarrow> n\<lparr>nd_critical := True, nd_max_relaunch_count := k\<rparr>)) t
         else t)) (jc_job_nodes c)\<rparr>"

definition nm_get_pending_timeout :: "pending_conf \<Rightarrow> rat" where
  "nm_get_pending_timeout cf =
     (let timeout = pf_seconds_to_wait_pending_pod cf
      in if timeout \<le> 0 then 0
         else if timeout < of_int PENDING_NODE_TIMEOUT_DEFAULT_MIN
         then of_int PENDING_NODE_TIMEOUT_DEFAULT_MIN else timeout)"

definition get_group_pending_timeout :: "pending_conf \<Rightarrow> rat" where
  "get_group_pending_timeout cf =
     (let timeout = pf_seconds_to_wait_group_pending_pod cf
      in if timeout \<le> 0 then 0
         else if timeout < of_int GROUP_PENDING_NODE_TIMEOUT_DEFAULT_MIN
         then of_int GROUP_PENDING_NODE_TIMEOUT_DEFAULT_MIN else timeout)"

section \<open>The manager's table\<close>

lemma nm_update_node_tables:
  "jc_job_nodes (nm_update_node n c) = jc_job_nodes (update_job_node n c)"
  by (simp add: nm_update_node_def Let_def update_job_node_by_group_def)

lemma nm_update_node_lookup:
  "dict_has (jc_job_nodes (nm_update_node n c)) ty \<longleftrightarrow> ty = nd_type n \<or> dict_has (jc_job_nodes c) ty"
  "dict_get (jc_job_nodes (nm_update_node n c)) ty [] =
     (if ty = nd_type n then AList.update (nd_id n) n (dict_get (jc_job_nodes c) ty [])
      else dict_get (jc_job_nodes c) ty [])"
  unfolding nm_update_node_tables update_job_node_def Let_def
  by (auto simp: dict_has_def dict_get_def dict_setdefault_def update_conv' split: option.splits)

lemma nm_update_node_table:
  assumes "nd_type n = preprocess ty c"
  shows "preprocess ty (nm_update_node n c) = preprocess ty c"
    and "job_nodes_by_type ty (nm_update_node n c) = AList.update (nd_id n) n (job_nodes_by_type ty c)"
proof -
  show p: "preprocess ty (nm_update_node n c) = preprocess ty c"
    using assms by (auto simp: preprocess_def nm_update_node_lookup split: if_splits)
  show "job_nodes_by_type ty (nm_update_node n c) = AList.update (nd_id n) n (job_nodes_by_type ty c)"
    using assms unfolding job_nodes_by_type_def p nm_update_node_lookup by simp
qed

definition next_id :: "node_table \<Rightarrow> int" where
  "next_id t = (if t = [] then 0 else Max (fst ` set t) + 1)"

lemma get_next_node_id_eq:
  "get_next_node_id c m =
     (next_id (job_nodes_by_type (nm_node_type m) c),
      m\<lparr>nm_node_id_iter := next_id (job_nodes_by_type (nm_node_type m) c) + 1\<rparr>)"
  by (simp add: get_next_node_id_def update_nodes_iter_def Let_def next_id_def)

lemma next_id_above: "dict_has t i \<Longrightarrow> i < next_id t"
  by (cases t) (auto simp: next_id_def dict_has_iff intro!: Max_ge le_imp_less_Suc order.strict_trans1 [OF Max_ge])

lemma next_id_key: "fst ` set t = fst ` set u \<Longrightarrow> next_id t = next_id u"
  by (auto simp: next_id_def)

lemma next_id_update:
  "next_id (AList.update (next_id t) n t) = next_id t + 1"
  "dict_has t i \<Longrightarrow> next_id (AList.update i n t) = next_id t"
proof -
  let ?k = "next_id t"
  have "AList.update ?k n t \<noteq> []" using dict_has_update [of ?k n t ?k] by (auto simp: dict_has_def)
  moreover have "Max (insert ?k (fst ` set t)) = ?k"
    using next_id_above [of t] by (intro Max_eqI) (auto simp: dict_has_iff intro: less_imp_le)
  ultimately show "next_id (AList.update ?k n t) = ?k + 1"
    by (simp add: next_id_def [of "AList.update ?k n t"] dom_update)
  assume "dict_has t i"
  then have "fst ` set (AList.update i n t) = fst ` set t" by (auto simp: dom_update dict_has_iff)
  then show "next_id (AList.update i n t) = next_id t" by (rule next_id_key)
qed

text \<open>What one relaunch does to the manager's table and plan.\<close>

lemma relaunch_node_facts:
  fixes m :: "'a node_manager_scheme"
  assumes ty: "nd_type n = preprocess (nm_node_type m) c"
    and old: "dict_has (job_nodes_by_type (nm_node_type m) c) (nd_id n)"
    and q: "relaunch_node fn now n rm m c = (plan, m', c')"
  defines "t \<equiv> job_nodes_by_type (nm_node_type m) c"
  defines "k \<equiv> next_id t"
  shows "sp_launch_nodes plan = [generate_relaunch_node now k (Some (fn (nd_type n) k)) n]"
    and "nm_node_type m' = nm_node_type m"
    and "preprocess (nm_node_type m) c' = preprocess (nm_node_type m) c"
    and "next_id (job_nodes_by_type (nm_node_type m) c') = k + 1"
    and "\<And>i. dict_has t i \<Longrightarrow> dict_has (job_nodes_by_type (nm_node_type m) c') i"
    and "\<And>i. i \<noteq> k \<Longrightarrow> i \<noteq> nd_id n \<Longrightarrow>
      map_of (job_nodes_by_type (nm_node_type m) c') i = map_of t i"
    and "map_of (job_nodes_by_type (nm_node_type m) c') k =
      Some (generate_relaunch_node now k (Some (fn (nd_type n) k)) n)"
    and "rm \<and> \<not> nd_is_released n \<and> nd_exited n \<Longrightarrow> sp_remove_nodes plan = [n\<lparr>nd_is_released := True\<rparr>]"
    and "\<not> (rm \<and> \<not> nd_is_released n \<and> nd_exited n) \<Longrightarrow> sp_remove_nodes plan = []"
proof -
  let ?r = "generate_relaunch_node now k (Some (fn (nd_type n) k)) n"
  let ?c1 = "nm_update_node ?r c" and ?n' = "n\<lparr>nd_is_released := True\<rparr>"
  let ?rm = "rm \<and> \<not> nd_is_released n \<and> nd_exited n"
  have r: "nd_type ?r = nd_type n" "nd_id ?r = k" by (simp_all add: generate_relaunch_node_def)
  have p1: "preprocess (nm_node_type m) ?c1 = preprocess (nm_node_type m) c"
    and t1: "job_nodes_by_type (nm_node_type m) ?c1 = AList.update k ?r t"
    using nm_update_node_table [of ?r "nm_node_type m" c] ty r by (simp_all add: t_def)
  have p2: "preprocess (nm_node_type m) (nm_update_node ?n' ?c1) = preprocess (nm_node_type m) c"
    and t2: "job_nodes_by_type (nm_node_type m) (nm_update_node ?n' ?c1) =
      AList.update (nd_id n) ?n' (AList.update k ?r t)"
    using nm_update_node_table [of ?n' "nm_node_type m" ?c1] ty p1 t1 by simp_all
  have e: "plan = (if ?rm then new_scale_plan\<lparr>sp_launch_nodes := [?r], sp_remove_nodes := [?n']\<rparr>
        else new_scale_plan\<lparr>sp_launch_nodes := [?r]\<rparr>)"
    "m' = m\<lparr>nm_node_id_iter := k + 1\<rparr>" "c' = (if ?rm then nm_update_node ?n' ?c1 else ?c1)"
    using q unfolding relaunch_node_def get_next_node_id_eq Let_def t_def [symmetric] k_def [symmetric]
    by (auto split: if_splits)
  have nk: "nd_id n \<noteq> k" using next_id_above [of t "nd_id n"] old by (auto simp: k_def t_def)
  have has: "dict_has (AList.update k ?r t) (nd_id n)" using old by (simp add: t_def)
  show "sp_launch_nodes plan = [?r]" "nm_node_type m' = nm_node_type m"
    "?rm \<Longrightarrow> sp_remove_nodes plan = [?n']" "\<not> ?rm \<Longrightarrow> sp_remove_nodes plan = []"
    using e by (auto simp: new_scale_plan_def)
  show "preprocess (nm_node_type m) c' = preprocess (nm_node_type m) c" using e p1 p2 by simp
  show "next_id (job_nodes_by_type (nm_node_type m) c') = k + 1"
    using e t1 t2 next_id_update(1) [of t ?r] next_id_update(2) [OF has] by (simp add: k_def)
  show "dict_has t i \<Longrightarrow> dict_has (job_nodes_by_type (nm_node_type m) c') i" for i using e t1 t2 by auto
  show "i \<noteq> k \<Longrightarrow> i \<noteq> nd_id n \<Longrightarrow> map_of (job_nodes_by_type (nm_node_type m) c') i = map_of t i" for i
    using e t1 t2 by (simp add: update_conv')
  show "map_of (job_nodes_by_type (nm_node_type m) c') k = Some ?r"
    using e t1 t2 nk by (simp add: update_conv')
qed

section \<open>Properties\<close>

lemma relaunch_nodes_facts:
  fixes m :: "'a node_manager_scheme"
  assumes "\<forall>n\<in>set ns. nd_type n = preprocess (nm_node_type m) c \<and>
      dict_has (job_nodes_by_type (nm_node_type m) c) (nd_id n)"
    and "relaunch_nodes fn now ns rm plan0 m c = (plan, m', c')"
  defines "k \<equiv> next_id (job_nodes_by_type (nm_node_type m) c)"
  shows "sp_launch_nodes plan = sp_launch_nodes plan0 @
      map (\<lambda>(i, n). generate_relaunch_node now (k + int i) (Some (fn (nd_type n) (k + int i))) n) (enumerate 0 ns) \<and>
    (\<forall>i<length ns. map_of (job_nodes_by_type (nm_node_type m) c') (k + int i) =
      Some (generate_relaunch_node now (k + int i) (Some (fn (nd_type (ns ! i)) (k + int i))) (ns ! i))) \<and>
    (\<forall>i. i < k \<and> i \<notin> nd_id ` set ns \<longrightarrow>
      map_of (job_nodes_by_type (nm_node_type m) c') i = map_of (job_nodes_by_type (nm_node_type m) c) i)"
  using assms(1,2) unfolding k_def
proof (induction ns arbitrary: plan0 m c)
  case (Cons n ns)
  obtain sub m1 c1 where q: "relaunch_node fn now n rm m c = (sub, m1, c1)" by (metis prod_cases3)
  let ?t = "job_nodes_by_type (nm_node_type m) c"
  let ?k = "next_id ?t"
  have n: "nd_type n = preprocess (nm_node_type m) c" "dict_has ?t (nd_id n)" using Cons.prems(1) by auto
  note f = relaunch_node_facts [OF n q]
  have pre: "\<forall>n\<in>set ns. nd_type n = preprocess (nm_node_type m1) c1 \<and>
      dict_has (job_nodes_by_type (nm_node_type m1) c1) (nd_id n)"
    using Cons.prems(1) f(2,3,5) by auto
  let ?plan1 = "plan0\<lparr>sp_launch_nodes := sp_launch_nodes plan0 @ sp_launch_nodes sub,
                  sp_remove_nodes := sp_remove_nodes plan0 @ sp_remove_nodes sub\<rparr>"
  have "relaunch_nodes fn now ns rm ?plan1 m1 c1 = (plan, m', c')" using Cons.prems(2) q by simp
  note IH = Cons.IH [OF pre this, unfolded f(2,4)]
  let ?t' = "job_nodes_by_type (nm_node_type m) c'"
  let ?new = "\<lambda>i n. generate_relaunch_node now (?k + int i) (Some (fn (nd_type n) (?k + int i))) n"
  have "enumerate (Suc 0) ns = map (\<lambda>(i, n). (Suc i, n)) (enumerate 0 ns)"
    by (simp add: enumerate_eq_zip map_Suc_upt [symmetric] zip_map1 del: map_Suc_upt upt_Suc)
  then have "sp_launch_nodes plan = sp_launch_nodes plan0 @ map (\<lambda>(i, n). ?new i n) (enumerate 0 (n # ns))"
    using IH f(1) by (auto simp: o_def split_def add.assoc)
  moreover have "map_of ?t' (?k + int i) = Some (?new i ((n # ns) ! i))" if "i < length (n # ns)" for i
  proof (cases i)
    case 0
    have "?k \<notin> nd_id ` set ns" using next_id_above [of ?t] Cons.prems(1) by fastforce
    then show ?thesis using IH f(7) 0 by auto
  next
    case (Suc j)
    then have "map_of ?t' (?k + 1 + int j) =
        Some (generate_relaunch_node now (?k + 1 + int j) (Some (fn (nd_type (ns ! j)) (?k + 1 + int j))) (ns ! j))"
      using IH that by simp
    then show ?thesis using Suc by (simp add: add.assoc)
  qed
  moreover have "map_of ?t' i = map_of ?t i" if "i < ?k" "i \<notin> nd_id ` set (n # ns)" for i
    using IH f(6) [of i] that by auto
  ultimately show ?case by blast
qed simp

text \<open>
  C12. Relaunched nodes are new nodes. Relaunching nodes of the manager's table asks for exactly one new
  node for each, in order; the new ids are the next ones above all ids in the table, so no id is ever
  given out twice; each new node is initial, takes over type, rank, group and relaunch limit of the
  node it replaces and is found in the table, and no node but the replaced ones changes there.
\<close>

theorem relaunched_nodes_are_new:
  fixes m :: "'a node_manager_scheme"
  assumes members: "\<forall>n\<in>set ns. nd_type n = preprocess (nm_node_type m) c \<and>
      dict_has (job_nodes_by_type (nm_node_type m) c) (nd_id n)"
    and q: "relaunch_nodes fn now ns rm new_scale_plan m c = (plan, m', c')"
  defines "t \<equiv> job_nodes_by_type (nm_node_type m) c" and "t' \<equiv> job_nodes_by_type (nm_node_type m) c'"
  shows "distinct (map nd_id (sp_launch_nodes plan)) \<and>
    (\<forall>n\<in>set (sp_launch_nodes plan). \<not> dict_has t (nd_id n) \<and> (\<forall>i\<in>fst ` set t. i < nd_id n) \<and>
      map_of t' (nd_id n) = Some n \<and> nd_status n = ST_INITIAL \<and> \<not> nd_is_released n) \<and>
    map (\<lambda>n. (nd_type n, nd_rank_index n, nd_group n, nd_relaunch_count n, nd_max_relaunch_count n)) (sp_launch_nodes plan) =
    map (\<lambda>n. (nd_type n, nd_rank_index n, nd_group n, nd_relaunch_count n, nd_max_relaunch_count n)) ns \<and>
    (\<forall>i\<in>fst ` set t - nd_id ` set ns. map_of t' i = map_of t i)"
proof -
  let ?k = "next_id t"
  let ?new = "\<lambda>(i, n). generate_relaunch_node now (?k + int i) (Some (fn (nd_type n) (?k + int i))) n"
  note f = relaunch_nodes_facts [OF members q, folded t_def t'_def]
  have l: "sp_launch_nodes plan = map ?new (enumerate 0 ns)" using f by (simp add: new_scale_plan_def)
  have ids: "map nd_id (sp_launch_nodes plan) = map (\<lambda>i. ?k + int i) [0..<length ns]"
    unfolding l by (rule nth_equalityI) (auto simp: generate_relaunch_node_def nth_enumerate_eq split_def)
  have above: "i < ?k" if "i \<in> fst ` set t" for i using next_id_above [of t i] that by (simp add: dict_has_iff)
  have new: "map_of t' (nd_id n) = Some n \<and> nd_status n = ST_INITIAL \<and> \<not> nd_is_released n \<and> ?k \<le> nd_id n"
    if mem: "n \<in> set (sp_launch_nodes plan)" for n
  proof -
    obtain i where i: "i < length ns" "n = ?new (i, ns ! i)"
      using mem unfolding l by (auto simp: in_set_enumerate_eq)
    then have "nd_id n = ?k + int i" by (simp add: generate_relaunch_node_def)
    then show ?thesis using f i by (auto simp: generate_relaunch_node_def)
  qed
  have "distinct (map nd_id (sp_launch_nodes plan))" unfolding ids by (simp add: distinct_map inj_on_def)
  moreover have "\<not> dict_has t (nd_id n) \<and> (\<forall>i\<in>fst ` set t. i < nd_id n)" if "n \<in> set (sp_launch_nodes plan)" for n
    using new [OF that] above by (force simp: dict_has_iff)
  moreover have "map (\<lambda>n. (nd_type n, nd_rank_index n, nd_group n, nd_relaunch_count n, nd_max_relaunch_count n))
      (sp_launch_nodes plan) =
    map (\<lambda>n. (nd_type n, nd_rank_index n, nd_group n, nd_relaunch_count n, nd_max_relaunch_count n)) ns"
    unfolding l by (rule nth_equalityI) (auto simp: generate_relaunch_node_def nth_enumerate_eq split_def)
  moreover have "\<forall>i\<in>fst ` set t - nd_id ` set ns. map_of t' i = map_of t i" using f above by blast
  ultimately show ?thesis using new by blast
qed

definition demo_table :: job_context where
  "demo_table = fold update_job_node [demo_worker 0, demo_worker 3] new_job_context"

theorem relaunched_nodes_are_new_witness:
  "\<exists>plan m' c'. relaunch_nodes (\<lambda>ty i. ''w'') 5 [demo_worker 0, demo_worker 3] True new_scale_plan
       (new_node_manager NT_WORKER demo_table) demo_table = (plan, m', c') \<and>
     map nd_id (sp_launch_nodes plan) = [4, 5] \<and> distinct (map nd_id (sp_launch_nodes plan))"
proof -
  let ?m = "new_node_manager NT_WORKER demo_table"
  obtain plan m' c' where q: "relaunch_nodes (\<lambda>ty i. ''w'') 5 [demo_worker 0, demo_worker 3] True new_scale_plan ?m
      demo_table = (plan, m', c')" by (metis prod_cases3)
  have t: "map fst (job_nodes_by_type NT_WORKER demo_table) = [0, 3]" "preprocess NT_WORKER demo_table = NT_WORKER"
    by code_simp+
  have m: "nm_node_type ?m = NT_WORKER" by (simp add: new_node_manager_def update_nodes_iter_def Let_def)
  have "set (map fst (job_nodes_by_type NT_WORKER demo_table)) = {0, 3}" unfolding t(1) by simp
  then have mem: "\<forall>n\<in>set [demo_worker 0, demo_worker 3]. nd_type n = preprocess (nm_node_type ?m) demo_table \<and>
      dict_has (job_nodes_by_type (nm_node_type ?m) demo_table) (nd_id n)"
    using t(2) m by (auto simp: demo_worker_def new_node_def dict_has_iff)
  have "map nd_id (sp_launch_nodes (fst (relaunch_nodes (\<lambda>ty i. ''w'') 5 [demo_worker 0, demo_worker 3] True
      new_scale_plan ?m demo_table))) = [4, 5]"
    by code_simp
  with relaunched_nodes_are_new [OF mem q] q show ?thesis by auto
qed

lemma ceil_cut:
  fixes x f l :: rat
  assumes "2 \<le> f" and "cut_to f x > l" and "2 \<le> l"
  shows "cut_to f x < x"
proof -
  have c: "cut_to f x < x / f + 1" unfolding cut_to_def by linarith
  then have "1 < x / f" using assms(2,3) by linarith
  then have x: "0 < x" using assms(1) by (simp add: zero_less_divide_iff less_divide_eq)
  have "x / f \<le> x / 2" using assms(1) x by (intro divide_left_mono) auto
  then show ?thesis using c assms(2,3) by linarith
qed

lemma reduce_result:
  assumes "reduce_timeout_pending_node_resource now cf n = (Inr was_cut, n')"
  defines "cpu \<equiv> cut_to (pf_factor_to_cut_pending_cpu cf) (nr_cpu (nd_config_resource n))"
    and "mem \<equiv> cut_to (pf_factor_to_cut_pending_mem cf) (nr_memory (nd_config_resource n))"
  shows "n' = (if was_cut then
      (let n1 = (if cpu > MIN_CPU_CORES then set_cpu cpu n else n)
       in if mem > MIN_MEMORY then set_memory mem n1 else n1) else n)"
proof -
  have mem1: "nr_memory (nd_config_resource (set_cpu x n)) = nr_memory (nd_config_resource n)" for x
    by (simp add: set_cpu_def)
  show ?thesis
    using assms(1) unfolding reduce_timeout_pending_node_resource_def cpu_def mem_def Let_def
    by (cases "nd_create_time n";
        cases "cut_to (pf_factor_to_cut_pending_cpu cf) (nr_cpu (nd_config_resource n)) > MIN_CPU_CORES")
      (simp_all add: mem1 split: if_split_asm)
qed

text \<open>
  Cutting the resources of a pending node. With factors of at least two, a node whose resources are
  cut keeps its CPU cores or gets fewer, but more than the minimum of four, and keeps its memory or
  gets less, but more than the minimum; nothing else of the node changes.
\<close>

theorem pending_cut_bounds:
  assumes "2 \<le> pf_factor_to_cut_pending_cpu cf" and "2 \<le> pf_factor_to_cut_pending_mem cf"
    and q: "reduce_timeout_pending_node_resource now cf n = (Inr was_cut, n')"
  defines "r \<equiv> nd_config_resource n" and "r' \<equiv> nd_config_resource n'"
  shows "n' = n\<lparr>nd_config_resource := r\<lparr>nr_cpu := nr_cpu r', nr_memory := nr_memory r'\<rparr>\<rparr> \<and>
    (nr_cpu r' = nr_cpu r \<or> MIN_CPU_CORES < nr_cpu r' \<and> nr_cpu r' < nr_cpu r) \<and>
    (nr_memory r' = nr_memory r \<or> MIN_MEMORY < nr_memory r' \<and> nr_memory r' < nr_memory r) \<and>
    (\<not> was_cut \<longrightarrow> n' = n)"
proof (cases was_cut)
  case False
  then have "n' = n" using reduce_result [OF q] by simp
  then show ?thesis by (simp add: r_def r'_def)
next
  case True
  let ?cpu = "cut_to (pf_factor_to_cut_pending_cpu cf) (nr_cpu r)"
  let ?mem = "cut_to (pf_factor_to_cut_pending_mem cf) (nr_memory r)"
  have n': "n' = n\<lparr>nd_config_resource := r\<lparr>nr_cpu := if ?cpu > MIN_CPU_CORES then ?cpu else nr_cpu r,
      nr_memory := if ?mem > MIN_MEMORY then ?mem else nr_memory r\<rparr>\<rparr>"
    using reduce_result [OF q] True
    by (simp add: set_cpu_def set_memory_def r_def Let_def)
  have "?cpu < nr_cpu r" if "?cpu > MIN_CPU_CORES"
    using ceil_cut [OF assms(1) that] by (simp add: MIN_CPU_CORES_def)
  moreover have "?mem < nr_memory r" if "?mem > MIN_MEMORY"
    using ceil_cut [OF assms(2) that] by (simp add: MIN_MEMORY_def)
  ultimately show ?thesis using True by (simp add: r'_def n')
qed

definition demo_pending :: pending_conf where
  "demo_pending = \<lparr>pf_seconds_to_wait_pending_pod = 900, pf_seconds_to_wait_group_pending_pod = 0,
     pf_factor_to_cut_pending_cpu = 2, pf_factor_to_cut_pending_mem = 2\<rparr>"

theorem pending_cut_bounds_witness:
  "\<exists>n'. reduce_timeout_pending_node_resource 2000 demo_pending
      (set_memory 9000 (set_cpu 15 ((demo_worker 0)\<lparr>nd_create_time := Some 1000\<rparr>))) = (Inr True, n') \<and>
     nr_cpu (nd_config_resource n') < 15 \<and> MIN_CPU_CORES < nr_cpu (nd_config_resource n') \<and>
     nr_memory (nd_config_resource n') = 9000"
proof -
  define n where "n = set_memory 9000 (set_cpu 15 ((demo_worker 0)\<lparr>nd_create_time := Some 1000\<rparr>))"
  define n' where "n' = snd (reduce_timeout_pending_node_resource 2000 demo_pending n)"
  have e: "fst (reduce_timeout_pending_node_resource 2000 demo_pending n) = Inr True"
    "nr_cpu (nd_config_resource n') = 8" "nr_memory (nd_config_resource n') = 9000"
    "nr_cpu (nd_config_resource n) = 15"
    unfolding n'_def n_def by code_simp+
  have q: "reduce_timeout_pending_node_resource 2000 demo_pending n = (Inr True, n')"
    using e(1) by (simp add: n'_def prod_eq_iff)
  have "2 \<le> pf_factor_to_cut_pending_cpu demo_pending" "2 \<le> pf_factor_to_cut_pending_mem demo_pending"
    by (simp_all add: demo_pending_def)
  note b = pending_cut_bounds [OF this q, unfolded e(2-4)]
  show ?thesis unfolding n_def [symmetric] e(2-4) using q b e by (intro exI [of _ n']) (simp add: MIN_CPU_CORES_def)
qed

definition print_criticals :: "(int \<times> int) list \<Rightarrow> string" where
  "print_criticals kvs =
     py_join (CHR '','') (map (\<lambda>(i, k). py_str_int i @ CHR '':'' # py_str_int k) kvs)"

lemma printed_no: "\<not> py_digit c \<Longrightarrow> c \<noteq> CHR ''-'' \<Longrightarrow> c \<notin> set (py_str_int i)"
  using printed_chars by blast

lemma parse_critical_printed: "parse_critical (py_str_int i @ CHR '':'' # py_str_int k) = Inr (i, k)"
proof -
  let ?s = "py_str_int i @ CHR '':'' # py_str_int k"
  have "py_strip ?s = ?s" using printed_ends [of i] printed_ends [of k] by (intro strip_none) auto
  moreover have "CHR '':'' \<notin> set (py_str_int j)" for j by (rule printed_no) (simp_all add: py_digit_def)
  then have "py_split (CHR '':'') ?s = [py_str_int i, py_str_int k]" by (simp add: split_append split_none)
  ultimately show ?thesis by (simp add: parse_critical_def int_of_printed)
qed

lemma parse_criticals_printed:
  "parse_criticals (map (\<lambda>(i, k). py_str_int i @ CHR '':'' # py_str_int k) kvs) d = Inr (dict_merge d kvs)"
  by (induction kvs arbitrary: d) (auto simp: parse_critical_printed dict_merge_def)

text \<open>
  Critical workers from the job arguments. A list of worker indices with their restart counts,
  printed the way the job arguments give it, is read back as exactly that index; of an index given
  twice the last count is kept.
\<close>

theorem critical_index_round_trip:
  assumes "kvs \<noteq> []" and "wa_critical_nodes wa = print_criticals kvs"
  shows "get_critical_worker_index strategy wa = dict_merge [] kvs \<and>
    (distinct (map fst kvs) \<longrightarrow> get_critical_worker_index strategy wa = kvs)"
proof -
  let ?confs = "map (\<lambda>(i, k). py_str_int i @ CHR '':'' # py_str_int k) kvs"
  have "CHR '','' \<notin> set (py_str_int j)" for j by (rule printed_no) (simp_all add: py_digit_def)
  then have s: "py_split (CHR '','') (print_criticals kvs) = ?confs"
    unfolding print_criticals_def using assms(1) by (intro split_join) auto
  have "CHR '':'' \<in> set (print_criticals kvs)"
    using assms(1) unfolding print_criticals_def by (cases kvs rule: list.exhaust; cases "tl kvs") auto
  then have "print_criticals kvs \<noteq> ''''" "print_criticals kvs \<noteq> ''all''" "print_criticals kvs \<noteq> ''none''" by auto
  then have g: "get_critical_worker_index strategy wa = dict_merge [] kvs"
    using s parse_criticals_printed [of kvs "[]"] by (simp add: get_critical_worker_index_def assms(2))
  moreover have "dict_merge [] kvs = kvs" if "distinct (map fst kvs)"
    using that by (simp add: dict_merge_append)
  ultimately show ?thesis by simp
qed

theorem critical_index_round_trip_witness:
  "get_critical_worker_index DS_PS \<lparr>wa_critical_nodes = ''0:3,12:1'', wa_restart_count = 2, wa_count = 4\<rparr> =
     [(0, 3), (12, 1)]"
proof -
  have "''0:3,12:1'' = print_criticals [(0, 3), (12, 1)]" by code_simp
  with critical_index_round_trip [of "[(0, 3), (12, 1)]"
      "\<lparr>wa_critical_nodes = ''0:3,12:1'', wa_restart_count = 2, wa_count = 4\<rparr>" DS_PS]
  show ?thesis by (simp add: dict_merge_def)
qed

end
