(* ===== verification/Worker_Manager.thy ===== *)
theory Worker_Manager
  imports Training_Node
begin

text \<open>
  \<open>dlrover/python/master/node/worker.py\<close>: the managers of chiefs, evaluators and workers. A worker manager
  scales the workers up and down, releases and migrates them, and judges whether pending or missing
  workers make the training hang. Names and service addresses of new pods are function arguments, the
  settings of the global context are an argument, and so is the clock.
\<close>

section \<open>The managers\<close>

definition is_chief_running :: "'a node_manager_scheme \<Rightarrow> job_context \<Rightarrow> bool" where
  "is_chief_running m c \<longleftrightarrow> list_ex (\<lambda>(i, n). nd_status n = ST_RUNNING) (job_nodes_by_type (nm_node_type m) c)"

record worker_manager = node_manager +
  wm_job_resource :: "(node_type, node_group_resource) dict"
  wm_max_relaunch_num :: int
  wm_nodes_required :: "int \<times> int \<times> int"
  wm_last_insufficient_nodes_timestamp :: int

definition new_worker_manager :: "(node_type, node_group_resource) dict \<Rightarrow> int \<Rightarrow> job_context \<Rightarrow> worker_manager" where
  "new_worker_manager job_resource max_relaunch_num c =
     node_manager.extend (new_node_manager NT_WORKER c)
       (worker_manager.fields job_resource max_relaunch_num (0, 0, 0) 0)"

text \<open>The names, addresses and defaults of new nodes.\<close>

record node_factory =
  nf_name :: "node_type \<Rightarrow> int \<Rightarrow> string"
  nf_service :: "node_type \<Rightarrow> int \<Rightarrow> string"
  nf_max_relaunch :: int

text \<open>The managers' own node objects are changed in place.\<close>

definition modify_node :: "node_type \<Rightarrow> int \<Rightarrow> (node \<Rightarrow> node) \<Rightarrow> job_context \<Rightarrow> job_context" where
  "modify_node ty i f c = c\<lparr>jc_job_nodes := AList.map_entry ty (AList.map_entry i f) (jc_job_nodes c)\<rparr>"

section \<open>Scaling\<close>

fun scale_up_workers ::
    "node_factory \<Rightarrow> rat \<Rightarrow> nat \<Rightarrow> scale_plan \<Rightarrow> worker_manager \<Rightarrow> job_context
     \<Rightarrow> (worker_manager \<times> job_context, scale_plan) py_run" where
  "scale_up_workers nf now 0 plan m c = (Inr plan, m, c)"
| "scale_up_workers nf now (Suc up_num) plan m c =
     (case get_next_node_id c m of
        (worker_id, m1) \<Rightarrow>
          (let task_id = nm_node_rank_iter m1; m2 = m1\<lparr>nm_node_rank_iter := task_id + 1\<rparr>
           in case map_of (wm_job_resource m2) NT_WORKER of
                None \<Rightarrow> (Inl AttributeError, m2, c)
              | Some res \<Rightarrow>
                  (let new = new_node NT_WORKER worker_id (ngr_node_resource res) (Some (nf_name nf NT_WORKER worker_id))
                         ST_INITIAL (Some task_id) 0 False (wm_max_relaunch_num m2) True (Some (nf_service nf NT_WORKER task_id)) now
                   in scale_up_workers nf now up_num (plan\<lparr>sp_launch_nodes := sp_launch_nodes plan @ [new]\<rparr>) m2
                        (nm_update_node new c))))"

definition release_worker :: "node \<Rightarrow> node" where
  "release_worker n = n\<lparr>nd_relaunchable := False, nd_is_released := True\<rparr>"

fun scale_down_workers :: "int \<Rightarrow> (int \<times> node) list \<Rightarrow> scale_plan \<Rightarrow> job_context \<Rightarrow> scale_plan \<times> job_context" where
  "scale_down_workers down_num [] plan c = (plan, c)"
| "scale_down_workers down_num ((i, worker) # workers) plan c =
     (if down_num \<le> 0 then (plan, c)
      else if \<not> nd_critical worker
      then scale_down_workers (down_num - 1) workers (plan\<lparr>sp_remove_nodes := sp_remove_nodes plan @ [release_worker worker]\<rparr>)
             (modify_node NT_WORKER i release_worker c)
      else scale_down_workers down_num workers plan c)"

definition alive_workers :: "job_context \<Rightarrow> (int \<times> node) list" where
  "alive_workers c = filter (\<lambda>(i, n). nd_status n \<in> set ALIVE_STATUS) (get_mutable_job_nodes NT_WORKER c)"

definition adjust_worker ::
    "node_factory \<Rightarrow> rat \<Rightarrow> node_group_resource \<Rightarrow> worker_manager \<Rightarrow> job_context
     \<Rightarrow> (worker_manager \<times> job_context, scale_plan) py_run" where
  "adjust_worker nf now worker_resource m c =
     (let num = ngr_count worker_resource; alive = alive_workers c; alive_num = int (length alive)
      in if num > alive_num then scale_up_workers nf now (nat (num - alive_num)) new_scale_plan m c
         else if num < alive_num
         then (case scale_down_workers (alive_num - num) (rev alive) new_scale_plan c of (plan, c') \<Rightarrow> (Inr plan, m, c'))
         else (Inr new_scale_plan, m, c))"

section \<open>Releasing and migrating\<close>

definition release_where :: "(node \<Rightarrow> bool) \<Rightarrow> (node \<Rightarrow> node) \<Rightarrow> job_context \<Rightarrow> scale_plan \<times> job_context" where
  "release_where P f c =
     (let chosen = filter (\<lambda>(i, n). P n) (get_mutable_job_nodes NT_WORKER c)
      in (new_scale_plan\<lparr>sp_remove_nodes := map (f \<circ> snd) chosen\<rparr>,
          c\<lparr>jc_job_nodes := map_table NT_WORKER (\<lambda>n. if P n then f n else n) (jc_job_nodes c)\<rparr>))"

definition delete_exited_workers :: "job_context \<Rightarrow> scale_plan \<times> job_context" where
  "delete_exited_workers c =
     release_where (\<lambda>n. nd_status n \<in> {ST_FAILED, ST_SUCCEEDED, ST_FINISHED} \<and> \<not> nd_is_released n)
       (\<lambda>n. n\<lparr>nd_is_released := True\<rparr>) c"

definition delete_running_workers :: "job_context \<Rightarrow> scale_plan \<times> job_context" where
  "delete_running_workers c =
     release_where (\<lambda>n. \<not> nd_critical n \<and> nd_status n \<in> {ST_RUNNING, ST_PENDING, ST_INITIAL}) release_worker c"

definition remove_noncritical_worker :: "int \<Rightarrow> worker_manager \<Rightarrow> job_context \<Rightarrow> scale_plan option \<times> job_context" where
  "remove_noncritical_worker worker_id m c =
     (case job_node (nm_node_type m) worker_id c of
        None \<Rightarrow> (None, c)
      | Some n \<Rightarrow> if nd_critical n then (None, c) else remove_node worker_id m c)"

fun migrate_workers ::
    "node_factory \<Rightarrow> rat \<Rightarrow> (string \<times> node_resource) list \<Rightarrow> scale_plan \<Rightarrow> worker_manager \<Rightarrow> job_context
     \<Rightarrow> (worker_manager \<times> job_context, scale_plan) py_run" where
  "migrate_workers nf now [] plan m c = (Inr plan, m, c)"
| "migrate_workers nf now ((name, resource) # workers) plan m c =
     (case py_int_str (last (py_split (CHR ''-'') name)) of
        Inl e \<Rightarrow> (Inl e, m, c)
      | Inr old_node_id \<Rightarrow>
          (case map_of (get_mutable_job_nodes NT_WORKER c) old_node_id of
             None \<Rightarrow> (Inl KeyError, m, c)
           | Some old_node \<Rightarrow>
               if nd_critical old_node then migrate_workers nf now workers plan m c
               else
                 (let old1 = (release_worker old_node)\<lparr>nd_migrated := True\<rparr>;
                      c1 = modify_node NT_WORKER old_node_id (\<lambda>n. (release_worker n)\<lparr>nd_migrated := True\<rparr>) c
                  in case get_next_node_id c1 m of
                       (node_id, m1) \<Rightarrow>
                         (let new = new_node NT_WORKER node_id resource (Some (nf_name nf NT_WORKER node_id)) ST_INITIAL
                                (Some (nd_rank_index old_node)) 0 False (nf_max_relaunch nf) True None now
                          in migrate_workers nf now workers
                               (plan\<lparr>sp_launch_nodes := sp_launch_nodes plan @ [new],
                                     sp_remove_nodes := sp_remove_nodes plan @ [old1]\<rparr>) m1 (nm_update_node new c1)))))"

text \<open>The plan of \<open>remove_node\<close> holds the manager's node, which is made not relaunchable afterwards.\<close>

fun remove_ranks ::
    "(int \<times> node) list \<Rightarrow> int list \<Rightarrow> scale_plan \<Rightarrow> worker_manager \<Rightarrow> job_context \<Rightarrow> scale_plan \<times> job_context" where
  "remove_ranks [] worker_ranks plan m c = (plan, c)"
| "remove_ranks ((i, n) # nodes) worker_ranks plan m c =
     (if nd_rank_index n \<in> set worker_ranks
      then case remove_node (nd_id n) m c of
             (p, c1) \<Rightarrow>
               remove_ranks nodes worker_ranks
                 (case p of
                    None \<Rightarrow> plan
                  | Some q \<Rightarrow> sp_merge (q\<lparr>sp_remove_nodes := map (\<lambda>n. n\<lparr>nd_relaunchable := False\<rparr>) (sp_remove_nodes q)\<rparr>) plan) m
                 (modify_node NT_WORKER i (\<lambda>n. n\<lparr>nd_relaunchable := False\<rparr>) c1)
      else remove_ranks nodes worker_ranks plan m c)"

definition remove_not_joined_rdzv_workers :: "int list \<Rightarrow> worker_manager \<Rightarrow> job_context \<Rightarrow> scale_plan \<times> job_context" where
  "remove_not_joined_rdzv_workers worker_ranks m c =
     remove_ranks (get_mutable_job_nodes NT_WORKER c) worker_ranks new_scale_plan m c"

section \<open>Exits and restarts\<close>

definition has_exited_worker :: "worker_manager \<Rightarrow> job_context \<Rightarrow> bool" where
  "has_exited_worker m c \<longleftrightarrow>
     list_ex (\<lambda>(i, n). nd_exit_reason n = ER_FATAL_ERROR \<or> nd_status n = ST_SUCCEEDED \<or>
         (nd_status n = ST_DELETED \<and> fst (nd_reported_status n) = EV_SUCCEEDED_EXITED))
       (job_nodes_by_type (nm_node_type m) c)"

definition wait_worker_restart :: "worker_manager \<Rightarrow> job_context \<Rightarrow> bool" where
  "wait_worker_restart m c \<longleftrightarrow>
     list_ex (\<lambda>(i, n). nd_exit_reason n = ER_KILLED \<and> nd_relaunch_count n < nd_max_relaunch_count n)
       (job_nodes_by_type (nm_node_type m) c)"

definition verify_restarting_training :: "int \<Rightarrow> worker_manager \<Rightarrow> job_context \<Rightarrow> bool \<times> job_context" where
  "verify_restarting_training node_id m c =
     (case job_node (nm_node_type m) node_id c of
        None \<Rightarrow> (False, c)
      | Some w \<Rightarrow>
          if nd_is_released w then (False, c)
          else (nd_restart_training w, nm_update_node (w\<lparr>nd_restart_training := False\<rparr>) c))"

section \<open>Hanging workers\<close>

definition has_node_required_info :: "worker_manager \<Rightarrow> bool" where
  "has_node_required_info m \<longleftrightarrow> (case wm_nodes_required m of (a, b, t) \<Rightarrow> a \<noteq> 0 \<and> b \<noteq> 0 \<and> t \<noteq> 0)"

definition get_min_nodes_required :: "worker_manager \<Rightarrow> int" where
  "get_min_nodes_required m = fst (wm_nodes_required m)"

definition get_max_nodes_required :: "worker_manager \<Rightarrow> int" where
  "get_max_nodes_required m = fst (snd (wm_nodes_required m))"

definition get_nodes_timeout :: "worker_manager \<Rightarrow> int" where
  "get_nodes_timeout m = snd (snd (wm_nodes_required m))"

definition update_node_required_info :: "int \<times> int \<times> int \<Rightarrow> worker_manager \<Rightarrow> worker_manager" where
  "update_node_required_info nodes_required m = m\<lparr>wm_nodes_required := nodes_required\<rparr>"

text \<open>\<open>min(..., key=create_time)\<close>: the first of the nodes created earliest.\<close>

fun first_created :: "node list \<Rightarrow> node option" where
  "first_created [] = None"
| "first_created (n # ns) =
     (case first_created ns of
        None \<Rightarrow> Some n
      | Some k \<Rightarrow> if the (nd_create_time k) < the (nd_create_time n) then Some k else Some n)"

definition judged_nodes :: "node list \<Rightarrow> node list" where
  "judged_nodes nodes = filter (\<lambda>n. \<not> nd_is_released n \<and> nd_create_time n \<noteq> None) nodes"

definition overdue :: "rat \<Rightarrow> rat \<Rightarrow> node \<Rightarrow> bool" where
  "overdue now timeout n \<longleftrightarrow> (case nd_create_time n of None \<Rightarrow> False | Some t \<Rightarrow> now - t > timeout)"

text \<open>
  The result is the name of the node; \<open>None\<close> says that no node makes the training hang. \<open>strategy\<close> is
  \<open>pending_fail_strategy\<close>.
\<close>

definition find_pending_node_caused_training_hang ::
    "pending_conf \<Rightarrow> int \<Rightarrow> rat \<Rightarrow> int \<Rightarrow> distribution_strategy \<Rightarrow> worker_manager \<Rightarrow> job_context \<Rightarrow> string option option" where
  "find_pending_node_caused_training_hang cf strategy now total_node_num job_type m c =
     (let timeout = nm_get_pending_timeout cf;
          nodes = judged_nodes (map snd (job_nodes_by_type (nm_node_type m) c));
          pending_workers = filter (\<lambda>n. nd_status n \<in> {ST_PENDING, ST_INITIAL}) nodes;
          running_workers = filter (\<lambda>n. nd_status n = ST_RUNNING) nodes;
          num_pending = int (length pending_workers)
      in if timeout \<le> 0 \<or> skip_pending_judgement strategy then None
         else if \<not> has_node_required_info m \<and> total_node_num \<noteq> num_pending then None
         else if job_type = DS_ALLREDUCE \<or> job_type = DS_PS \<and> is_all_nodes_pending_judgement strategy
         then if \<not> (0 < num_pending \<and> num_pending = total_node_num) \<and>
                 (num_pending = 0 \<or> int (length running_workers) \<ge> get_min_nodes_required m)
              then None
              else (case first_created pending_workers of
                      None \<Rightarrow> None
                    | Some w \<Rightarrow> if overdue now timeout w then Some (nd_name w) else None)
         else if job_type = DS_PS \<and> is_key_nodes_pending_judgement strategy
         then (case find (\<lambda>n. nd_rank_index n = 0) pending_workers of
                 None \<Rightarrow> None
               | Some w \<Rightarrow> if overdue now timeout w then Some (nd_name w) else None)
         else None)"

text \<open>
  The list \<open>pending_workers\<close> of \<open>get_pending_node_groups\<close> is made before the loop over the groups and keeps
  the nodes of the groups before.
\<close>

definition group_pending :: "node list \<Rightarrow> node list" where
  "group_pending nodes =
     filter (\<lambda>n. \<not> nd_is_released n \<and> nd_create_time n \<noteq> None \<and> nd_group_size n \<noteq> None \<and> nd_group n \<noteq> None \<and>
         nd_relaunch_count n > 0 \<and> nd_status n \<in> {ST_PENDING, ST_INITIAL}) nodes"

fun pending_group_loop :: "rat \<Rightarrow> rat \<Rightarrow> node_table list \<Rightarrow> node list \<Rightarrow> int option list" where
  "pending_group_loop timeout now [] pending_workers = []"
| "pending_group_loop timeout now (node_group # groups) pending_workers =
     (let pending_workers' = pending_workers @ group_pending (map snd node_group)
      in case first_created pending_workers' of
           None \<Rightarrow> pending_group_loop timeout now groups pending_workers'
         | Some w \<Rightarrow>
             (if overdue now timeout w then [nd_group w] else []) @ pending_group_loop timeout now groups pending_workers')"

definition get_pending_node_groups ::
    "pending_conf \<Rightarrow> int \<Rightarrow> rat \<Rightarrow> distribution_strategy \<Rightarrow> job_context \<Rightarrow> int option list" where
  "get_pending_node_groups cf strategy now job_type c =
     (let timeout = get_group_pending_timeout cf
      in if timeout \<le> 0 \<or> skip_pending_judgement strategy \<or> job_type \<noteq> DS_ALLREDUCE then []
         else pending_group_loop timeout now (map snd (jc_job_node_groups c)) [])"

definition INSUFFICIENT_NODE_TIMEOUT_DEFAULT_MIN :: int where
  "INSUFFICIENT_NODE_TIMEOUT_DEFAULT_MIN = 600"

definition INSUFFICIENT_NODE_TIMEOUT_DEFAULT_MAX :: int where
  "INSUFFICIENT_NODE_TIMEOUT_DEFAULT_MAX = 3600"

definition get_insufficient_timeout :: "worker_manager \<Rightarrow> int" where
  "get_insufficient_timeout m =
     (let timeout = py_int (of_int (get_nodes_timeout m) * (15 / 10))
      in if timeout < INSUFFICIENT_NODE_TIMEOUT_DEFAULT_MIN then INSUFFICIENT_NODE_TIMEOUT_DEFAULT_MIN
         else if timeout > INSUFFICIENT_NODE_TIMEOUT_DEFAULT_MAX then INSUFFICIENT_NODE_TIMEOUT_DEFAULT_MAX
         else timeout)"

definition available_nodes :: "'a node_manager_scheme \<Rightarrow> job_context \<Rightarrow> node list" where
  "available_nodes m c =
     filter (\<lambda>n. \<not> nd_is_released n \<and> nd_status n \<in> {ST_RUNNING, ST_PENDING, ST_INITIAL})
       (map snd (job_nodes_by_type (nm_node_type m) c))"

definition is_training_hang_by_insufficient_worker :: "rat \<Rightarrow> job_context \<Rightarrow> worker_manager \<Rightarrow> bool \<times> worker_manager" where
  "is_training_hang_by_insufficient_worker now c m =
     (if \<not> has_node_required_info m then (False, m)
      else
        let timeout = get_insufficient_timeout m; num = int (length (available_nodes m c))
        in if num > 0 \<and> num < get_min_nodes_required m
           then if wm_last_insufficient_nodes_timestamp m = 0
                then (False, m\<lparr>wm_last_insufficient_nodes_timestamp := py_int now\<rparr>)
                else (now - of_int (wm_last_insufficient_nodes_timestamp m) > of_int timeout, m)
           else (False, m\<lparr>wm_last_insufficient_nodes_timestamp := 0\<rparr>))"

section \<open>Node checks and ranks\<close>

definition is_all_workers_node_check_failed :: "worker_manager \<Rightarrow> job_context \<Rightarrow> bool" where
  "is_all_workers_node_check_failed m c \<longleftrightarrow>
     list_all (\<lambda>(i, n). is_node_check_failed n) (job_nodes_by_type (nm_node_type m) c)"

definition is_all_initial_workers_node_check_failed :: "int \<Rightarrow> int \<Rightarrow> worker_manager \<Rightarrow> job_context \<Rightarrow> bool" where
  "is_all_initial_workers_node_check_failed worker_num min_worker_num m c \<longleftrightarrow>
     (if worker_num < min_worker_num then False
      else let nodes = filter (\<lambda>n. nd_id n < worker_num) (map snd (job_nodes_by_type (nm_node_type m) c))
           in length nodes > 0 \<and> list_all is_node_check_failed nodes)"

definition is_all_workers_succeeded_exited :: "worker_manager \<Rightarrow> job_context \<Rightarrow> bool py_result" where
  "is_all_workers_succeeded_exited m c =
     (let nodes = map snd (job_nodes_by_type (nm_node_type m) c)
      in if nodes = [] then Inl ValueError
         else
           let actual_max_rank = Max (set (map nd_rank_index nodes));
               ranks = nd_rank_index ` set (filter is_succeeded_and_exited nodes)
           in Inr (int (card ranks) = actual_max_rank + 1))"

section \<open>Scaling to a number of workers\<close>

lemma worker_table [simp]: "preprocess NT_WORKER c = NT_WORKER" "job_nodes_by_type NT_WORKER c = get_mutable_job_nodes NT_WORKER c"
  by (simp_all add: preprocess_def job_nodes_by_type_def get_mutable_job_nodes_def)

lemma update_new_key: "k \<notin> fst ` set t \<Longrightarrow> AList.update k v t = t @ [(k, v)]"
  by (induction t) auto

definition launched_worker :: "node_factory \<Rightarrow> rat \<Rightarrow> node_group_resource \<Rightarrow> worker_manager \<Rightarrow> int \<Rightarrow> nat \<Rightarrow> node" where
  "launched_worker nf now res m k j =
     new_node NT_WORKER (k + int j) (ngr_node_resource res) (Some (nf_name nf NT_WORKER (k + int j))) ST_INITIAL
       (Some (nm_node_rank_iter m + int j)) 0 False (wm_max_relaunch_num m) True
       (Some (nf_service nf NT_WORKER (nm_node_rank_iter m + int j))) now"

lemma launched_worker_simps [simp]:
  "nd_id (launched_worker nf now res m k j) = k + int j" "nd_type (launched_worker nf now res m k j) = NT_WORKER"
  "nd_status (launched_worker nf now res m k j) = ST_INITIAL" "nd_has_group (launched_worker nf now res m k j) \<longleftrightarrow> False"
  "nd_rank_index (launched_worker nf now res m k j) = nm_node_rank_iter m + int j"
  by (simp_all add: launched_worker_def new_node_def nd_has_group_def)

lemma next_id_append: "next_id (t @ [(next_id t, n)]) = next_id t + 1"
proof -
  have "next_id t \<notin> fst ` set t" using next_id_above [of t "next_id t"] by (auto simp: dict_has_iff)
  then show ?thesis using next_id_update(1) [of t n] update_new_key by metis
qed

lemma scale_up_exact:
  fixes nf :: node_factory and now :: rat and c :: job_context
  assumes "nm_node_type m = NT_WORKER" and "map_of (wm_job_resource m) NT_WORKER = Some res"
  defines "new \<equiv> launched_worker nf now res m (next_id (get_mutable_job_nodes NT_WORKER c))"
  shows "\<exists>m' c'. scale_up_workers nf now n plan m c =
      (Inr (plan\<lparr>sp_launch_nodes := sp_launch_nodes plan @ map new [0..<n]\<rparr>), m', c') \<and>
    get_mutable_job_nodes NT_WORKER c' = get_mutable_job_nodes NT_WORKER c @ map (\<lambda>j. (nd_id (new j), new j)) [0..<n]"
  using assms(1,2) unfolding new_def
proof (induction n arbitrary: plan m c)
  case (Suc n)
  let ?t = "get_mutable_job_nodes NT_WORKER c"
  let ?k = "next_id ?t"
  let ?new = "launched_worker nf now res m ?k"
  let ?m2 = "m\<lparr>nm_node_id_iter := ?k + 1, nm_node_rank_iter := nm_node_rank_iter m + 1\<rparr>"
  let ?c2 = "nm_update_node (?new 0) c"
  have t2: "get_mutable_job_nodes NT_WORKER ?c2 = ?t @ [(?k, ?new 0)]"
  proof -
    have "?k \<notin> fst ` set ?t" using next_id_above [of ?t ?k] by (auto simp: dict_has_iff)
    then show ?thesis using nm_update_node_table(2) [of "?new 0" NT_WORKER c] by (simp add: update_new_key)
  qed
  have later: "launched_worker nf now res ?m2 (next_id (get_mutable_job_nodes NT_WORKER ?c2)) j = ?new (Suc j)" for j
    unfolding t2 next_id_append by (simp add: launched_worker_def add.assoc)
  have first: "scale_up_workers nf now (Suc n) plan m c =
      scale_up_workers nf now n (plan\<lparr>sp_launch_nodes := sp_launch_nodes plan @ [?new 0]\<rparr>) ?m2 ?c2"
    using Suc.prems unfolding scale_up_workers.simps get_next_node_id_eq by (simp add: launched_worker_def Let_def)
  have l: "map ?new [0..<Suc n] = ?new 0 # map (\<lambda>j. ?new (Suc j)) [0..<n]"
    by (simp add: upt_conv_Cons map_Suc_upt [symmetric] o_def del: upt_Suc)
  have l2: "map (\<lambda>j. (nd_id (?new j), ?new j)) [0..<Suc n] = (?k, ?new 0) # map (\<lambda>j. (nd_id (?new (Suc j)), ?new (Suc j))) [0..<n]"
    by (simp add: upt_conv_Cons map_Suc_upt [symmetric] o_def del: upt_Suc)
  show ?case using Suc.IH [of ?m2 "plan\<lparr>sp_launch_nodes := sp_launch_nodes plan @ [?new 0]\<rparr>" ?c2] Suc.prems
    unfolding first later l l2 by (simp add: t2)
qed simp

text \<open>The workers that a scale-down releases.\<close>

definition released_workers :: "int \<Rightarrow> (int \<times> node) list \<Rightarrow> (int \<times> node) list" where
  "released_workers down_num workers = take (nat down_num) (filter (\<lambda>(i, n). \<not> nd_critical n) workers)"

definition release_ids :: "int set \<Rightarrow> node_table \<Rightarrow> node_table" where
  "release_ids ids t = map (\<lambda>(i, n). (i, if i \<in> ids then release_worker n else n)) t"

lemma map_entry_distinct:
  assumes "distinct (map fst t)"
  shows "AList.map_entry k f t = map (\<lambda>(i, n). (i, if i = k then f n else n)) t"
  using assms
proof (induction t)
  case (Cons e t)
  obtain i n where e: "e = (i, n)" by fastforce
  have "map (\<lambda>(i, n). (i, if i = k then f n else n)) t = t" if "k = i"
  proof (rule map_idI)
    fix x assume "x \<in> set t"
    then have "fst x \<noteq> k" using Cons.prems that e by (metis distinct.simps(2) fst_conv imageI list.set_map list.simps(9))
    then show "(\<lambda>(i, n). (i, if i = k then f n else n)) x = x" by (simp add: split_def)
  qed
  then show ?case using Cons e by auto
qed simp

lemma modify_node_table:
  "get_mutable_job_nodes ty (modify_node ty i f c) = AList.map_entry i f (get_mutable_job_nodes ty c)"
  by (auto simp: get_mutable_job_nodes_def modify_node_def dict_get_def map_of_map_entry split: option.splits)

lemma release_idem [simp]: "release_worker (release_worker n) = release_worker n"
  by (simp add: release_worker_def)

lemma scale_down_exact:
  assumes "distinct (map fst (get_mutable_job_nodes NT_WORKER c))"
  shows "case scale_down_workers down_num workers plan c of (plan', c') \<Rightarrow>
    plan' = plan\<lparr>sp_remove_nodes := sp_remove_nodes plan @ map (release_worker \<circ> snd) (released_workers down_num workers)\<rparr> \<and>
    get_mutable_job_nodes NT_WORKER c' =
      release_ids (fst ` set (released_workers down_num workers)) (get_mutable_job_nodes NT_WORKER c)"
  using assms
proof (induction workers arbitrary: down_num plan c)
  case Nil
  then show ?case by (simp add: released_workers_def release_ids_def)
next
  case (Cons e workers)
  obtain i w where e: "e = (i, w)" by fastforce
  show ?case
  proof (cases "down_num \<le> 0 \<or> nd_critical w")
    case True
    then show ?thesis using Cons by (auto simp: e released_workers_def release_ids_def)
  next
    case False
    let ?c = "modify_node NT_WORKER i release_worker c"
    have t: "get_mutable_job_nodes NT_WORKER ?c = release_ids {i} (get_mutable_job_nodes NT_WORKER c)"
      using Cons.prems by (simp add: modify_node_table map_entry_distinct release_ids_def)
    then have d: "distinct (map fst (get_mutable_job_nodes NT_WORKER ?c))"
      using Cons.prems by (simp add: release_ids_def o_def split_def)
    have r: "released_workers down_num ((i, w) # workers) = (i, w) # released_workers (down_num - 1) workers"
      using False by (simp add: released_workers_def nat_diff_distrib' take_Cons')
    have "release_ids ids (release_ids {i} u) = release_ids (insert i ids) u" for ids u
      by (auto simp: release_ids_def)
    then show ?thesis using Cons.IH [OF d, where down_num = "down_num - 1" and plan = "plan\<lparr>sp_remove_nodes := sp_remove_nodes plan @ [release_worker w]\<rparr>"] False
      by (auto simp: e r t split: prod.splits)
  qed
qed

lemma alive_release: "get_mutable_job_nodes NT_WORKER c' = release_ids ids (get_mutable_job_nodes NT_WORKER c) \<Longrightarrow>
    alive_workers c' = release_ids ids (alive_workers c)"
proof -
  have "filter (\<lambda>(i, n). nd_status n \<in> S) (release_ids ids t) = release_ids ids (filter (\<lambda>(i, n). nd_status n \<in> S) t)" for t S
    by (induction t) (auto simp: release_ids_def release_worker_def split: if_splits)
  then show "get_mutable_job_nodes NT_WORKER c' = release_ids ids (get_mutable_job_nodes NT_WORKER c) \<Longrightarrow> ?thesis"
    by (simp add: alive_workers_def)
qed

lemma unreleased_count:
  assumes "distinct (map fst t)" and "set r \<subseteq> set t" and "distinct r" and "\<forall>(i, n)\<in>set t. \<not> nd_is_released n"
  shows "length (filter (\<lambda>(i, n). \<not> nd_is_released n) (release_ids (fst ` set r) t)) = length t - length r"
proof -
  let ?ids = "fst ` set r"
  have "length (filter (\<lambda>(i, n). \<not> nd_is_released n) (release_ids ids t)) = length (filter (\<lambda>i. i \<notin> ids) (map fst t))" for ids
    using assms(4) by (induction t) (auto simp: release_ids_def release_worker_def)
  also have "length (filter (\<lambda>i. i \<notin> ?ids) (map fst t)) = card (fst ` set t - ?ids)"
    using distinct_card [of "filter (\<lambda>i. i \<notin> ?ids) (map fst t)"] assms(1) by (simp add: set_diff_eq)
  also have "\<dots> = card (fst ` set t) - card ?ids" using assms(2) by (intro card_Diff_subset) auto
  also have "card (fst ` set t) = length t" using assms(1) by (metis distinct_card length_map list.set_map)
  also have "card ?ids = length r"
  proof -
    have "inj_on fst (set t)" using assms(1) by (simp add: distinct_map)
    then show ?thesis using assms(2,3) by (metis card_image distinct_card inj_on_subset)
  qed
  finally show ?thesis .
qed

text \<open>
  C13. Scaling the workers. When at least as many workers as asked for are alive the plan only removes,
  otherwise it only launches. Scaling up adds exactly the missing workers, with fresh ids and
  otherwise unchanged table, so that the number of workers alive is the one asked for. Scaling down
  releases the latest workers that are not critical, as many as are too many if there are enough; no
  critical worker is touched. If none of the workers alive had been released before, the larger one of
  the number asked for and the number of critical workers is kept.
\<close>

theorem adjust_worker_exact:
  assumes "nm_node_type m = NT_WORKER" and "map_of (wm_job_resource m) NT_WORKER = Some res"
    and "distinct (map fst (get_mutable_job_nodes NT_WORKER c))" and "0 \<le> ngr_count worker_resource"
    and q: "adjust_worker nf now worker_resource m c = (r, m', c')"
  defines "t \<equiv> get_mutable_job_nodes NT_WORKER c" and "t' \<equiv> get_mutable_job_nodes NT_WORKER c'"
    and "alive \<equiv> alive_workers c" and "num \<equiv> nat (ngr_count worker_resource)"
  defines "gone \<equiv> take (length alive - num) (filter (\<lambda>(i, n). \<not> nd_critical n) (rev alive))"
  shows "\<exists>plan. r = Inr plan \<and>
    (length alive \<le> num \<longrightarrow> sp_remove_nodes plan = [] \<and> length (sp_launch_nodes plan) = num - length alive \<and>
      t' = t @ map (\<lambda>n. (nd_id n, n)) (sp_launch_nodes plan) \<and>
      distinct (map fst t') \<and> length (alive_workers c') = num) \<and>
    (num < length alive \<longrightarrow> sp_launch_nodes plan = [] \<and> sp_remove_nodes plan = map (release_worker \<circ> snd) gone \<and>
      t' = release_ids (fst ` set gone) t \<and>
      ((\<forall>(i, n)\<in>set alive. \<not> nd_is_released n) \<longrightarrow>
        length (filter (\<lambda>(i, n). \<not> nd_is_released n) (alive_workers c')) =
          max num (length (filter (\<lambda>(i, n). nd_critical n) alive))))"
proof -
  have num: "ngr_count worker_resource = int num" using assms(4) by (simp add: num_def)
  consider (up) "length alive < num" | (same) "length alive = num" | (down) "num < length alive" by linarith
  then show ?thesis
  proof cases
    case up
    let ?k = "next_id t"
    let ?new = "launched_worker nf now res m ?k"
    have u: "adjust_worker nf now worker_resource m c = scale_up_workers nf now (num - length alive) new_scale_plan m c"
      using up by (simp add: adjust_worker_def num alive_def [symmetric] Let_def nat_minus_as_int)
    obtain m1 c1 where s: "scale_up_workers nf now (num - length alive) new_scale_plan m c =
        (Inr (new_scale_plan\<lparr>sp_launch_nodes := sp_launch_nodes new_scale_plan @ map ?new [0..<num - length alive]\<rparr>), m1, c1)"
      "get_mutable_job_nodes NT_WORKER c1 = t @ map (\<lambda>j. (nd_id (?new j), ?new j)) [0..<num - length alive]"
      using scale_up_exact [OF assms(1,2), of nf now "num - length alive" new_scale_plan c] unfolding t_def by blast
    then have e: "r = Inr (new_scale_plan\<lparr>sp_launch_nodes := map ?new [0..<num - length alive]\<rparr>)" "c' = c1"
      using q u by (simp_all add: new_scale_plan_def)
    have t': "t' = t @ map (\<lambda>n. (nd_id n, n)) (map ?new [0..<num - length alive])"
      using s(2) e(2) by (simp add: t'_def o_def)
    have fresh: "?k + int j \<notin> fst ` set t" for j using next_id_above [of t "?k + int j"] by (auto simp: dict_has_iff)
    have "distinct (map fst t')"
    proof -
      have "map fst t' = map fst t @ map (\<lambda>j. ?k + int j) [0..<num - length alive]" by (simp add: t' o_def)
      moreover have "set (map fst t) \<inter> set (map (\<lambda>j. ?k + int j) [0..<num - length alive]) = {}"
        unfolding set_map using fresh by (intro equals0I) (elim IntE imageE, metis imageI)
      moreover have "distinct (map (\<lambda>j. ?k + int j) [0..<num - length alive])" by (simp add: distinct_map inj_on_def)
      ultimately show ?thesis using assms(3) by (simp only: distinct_append t_def)
    qed
    moreover have "length (alive_workers c') = num"
      using up t' by (simp add: alive_workers_def t'_def [symmetric] alive_def t_def [symmetric] ALIVE_STATUS_def o_def)
    ultimately show ?thesis using up t' by (simp add: e(1) new_scale_plan_def)
  next
    case same
    then have "r = Inr new_scale_plan" "c' = c" using q by (simp_all add: adjust_worker_def num alive_def [symmetric] Let_def)
    then show ?thesis using same assms(3) by (simp add: new_scale_plan_def t'_def t_def alive_def)
  next
    case down
    have g: "released_workers (int (length alive) - int num) (rev alive) = gone"
      using down by (simp add: released_workers_def gone_def nat_minus_as_int)
    obtain plan c1 where s: "scale_down_workers (int (length alive) - int num) (rev alive) new_scale_plan c = (plan, c1)" by fastforce
    have e: "plan = new_scale_plan\<lparr>sp_remove_nodes := map (release_worker \<circ> snd) gone\<rparr>" "r = Inr plan" "c' = c1"
      and t': "t' = release_ids (fst ` set gone) t"
      using scale_down_exact [OF assms(3), where down_num = "int (length alive) - int num" and workers = "rev alive"
          and plan = new_scale_plan] s q down
      by (auto simp: adjust_worker_def num alive_def [symmetric] Let_def g new_scale_plan_def t'_def t_def)
    have a: "alive_workers c' = release_ids (fst ` set gone) alive"
      using alive_release t' unfolding alive_def t_def t'_def by blast
    have d: "distinct (map fst alive)" using assms(3) by (simp add: alive_def alive_workers_def distinct_map_filter)
    have "set gone \<subseteq> set alive" unfolding gone_def using set_take_subset by fastforce
    moreover have "distinct gone" unfolding gone_def using d by (intro distinct_take distinct_filter) (simp add: distinct_map)
    ultimately have n: "length (filter (\<lambda>(i, n). \<not> nd_is_released n) (alive_workers c')) = length alive - length gone"
      if "\<forall>(i, n)\<in>set alive. \<not> nd_is_released n"
      using unreleased_count [OF d] that unfolding a by blast
    have "length (filter (\<lambda>(i, n). \<not> nd_critical n) (rev alive)) = length alive - length (filter (\<lambda>(i, n). nd_critical n) alive)"
      using sum_length_filter_compl [of "\<lambda>(i, n). nd_critical n" alive] by (simp add: split_def flip: rev_filter)
    then have "length alive - length gone = max num (length (filter (\<lambda>(i, n). nd_critical n) alive))"
      unfolding gone_def length_take using down length_filter_le [of "\<lambda>(i, n). nd_critical n" alive] by arith
    then show ?thesis using e t' n down by (simp add: new_scale_plan_def)
  qed
qed

definition demo_workers :: job_context where
  "demo_workers =
     new_job_context\<lparr>jc_job_nodes := [(NT_WORKER,
       [(0, (demo_worker 0)\<lparr>nd_critical := True, nd_status := ST_RUNNING\<rparr>), (1, (demo_worker 1)\<lparr>nd_status := ST_RUNNING\<rparr>),
        (2, (demo_worker 2)\<lparr>nd_status := ST_RUNNING\<rparr>)])]\<rparr>"

definition demo_manager :: worker_manager where
  "demo_manager =
     new_worker_manager [(NT_WORKER, \<lparr>ngr_count = 3, ngr_node_resource = new_node_resource 1 1\<rparr>)] 3 demo_workers"

theorem adjust_worker_exact_witness:
  "\<exists>plan m' c'. adjust_worker \<lparr>nf_name = (\<lambda>ty i. []), nf_service = (\<lambda>ty i. []), nf_max_relaunch = 3\<rparr> 0
       \<lparr>ngr_count = 0, ngr_node_resource = new_node_resource 1 1\<rparr> demo_manager demo_workers = (Inr plan, m', c') \<and>
     map nd_id (sp_remove_nodes plan) = [2, 1] \<and>
     length (filter (\<lambda>(i, n). \<not> nd_is_released n) (alive_workers c')) = 1"
proof -
  let ?nf = "\<lparr>nf_name = (\<lambda>ty i. []), nf_service = (\<lambda>ty i. []), nf_max_relaunch = 3\<rparr>"
  let ?res = "\<lparr>ngr_count = 0, ngr_node_resource = new_node_resource 1 1\<rparr>"
  have m: "nm_node_type demo_manager = NT_WORKER"
    "map_of (wm_job_resource demo_manager) NT_WORKER = Some \<lparr>ngr_count = 3, ngr_node_resource = new_node_resource 1 1\<rparr>"
    by (simp_all add: demo_manager_def new_worker_manager_def node_manager.extend_def worker_manager.fields_def
        new_node_manager_def update_nodes_iter_def Let_def)
  have t: "get_mutable_job_nodes NT_WORKER demo_workers =
      [(0, (demo_worker 0)\<lparr>nd_critical := True, nd_status := ST_RUNNING\<rparr>), (1, (demo_worker 1)\<lparr>nd_status := ST_RUNNING\<rparr>),
       (2, (demo_worker 2)\<lparr>nd_status := ST_RUNNING\<rparr>)]"
    by (simp add: get_mutable_job_nodes_def demo_workers_def dict_get_def)
  then have d: "distinct (map fst (get_mutable_job_nodes NT_WORKER demo_workers))" "0 \<le> ngr_count ?res" by simp_all
  have a: "alive_workers demo_workers = get_mutable_job_nodes NT_WORKER demo_workers"
    by (simp add: alive_workers_def t ALIVE_STATUS_def)
  obtain r m' c' where q: "adjust_worker ?nf 0 ?res demo_manager demo_workers = (r, m', c')" by (metis prod_cases3)
  from adjust_worker_exact [OF m d q] q show ?thesis
    by (auto simp: a t demo_worker_def new_node_def release_worker_def)
qed

section \<open>Insufficient workers\<close>

text \<open>The checks of a job, each with its time and the context it sees; the manager remembers the timestamp.\<close>

definition insufficient :: "worker_manager \<Rightarrow> job_context \<Rightarrow> bool" where
  "insufficient m c \<longleftrightarrow>
     0 < int (length (available_nodes m c)) \<and> int (length (available_nodes m c)) < get_min_nodes_required m"

definition hang_checks :: "(rat \<times> job_context) list \<Rightarrow> worker_manager \<Rightarrow> worker_manager" where
  "hang_checks checks m = fold (\<lambda>(now, c) m. snd (is_training_hang_by_insufficient_worker now c m)) checks m"

text \<open>The checks since workers have been missing without interruption.\<close>

definition missing_since :: "worker_manager \<Rightarrow> (rat \<times> job_context) list \<Rightarrow> (rat \<times> job_context) list" where
  "missing_since m checks = rev (takeWhile (\<lambda>(now, c). insufficient m c) (rev checks))"

lemma missing_since_snoc:
  "missing_since m (checks @ [(now, c)]) = (if insufficient m c then missing_since m checks @ [(now, c)] else [])"
  by (simp add: missing_since_def)

lemma set_missing_since: "set (missing_since m checks) \<subseteq> set checks"
  using set_takeWhileD by (fastforce simp: missing_since_def)

lemma hang_check_eq:
  assumes "has_node_required_info m"
  shows "is_training_hang_by_insufficient_worker now c (m\<lparr>wm_last_insufficient_nodes_timestamp := ts\<rparr>) =
    (insufficient m c \<and> ts \<noteq> 0 \<and> now - of_int ts > of_int (get_insufficient_timeout m),
     m\<lparr>wm_last_insufficient_nodes_timestamp := (if insufficient m c then if ts = 0 then py_int now else ts else 0)\<rparr>)"
  using assms
  by (simp add: is_training_hang_by_insufficient_worker_def insufficient_def has_node_required_info_def Let_def
      get_insufficient_timeout_def get_nodes_timeout_def get_min_nodes_required_def available_nodes_def)

lemma py_int_pos: "1 \<le> t \<Longrightarrow> 1 \<le> py_int t"
  by (simp add: py_int_def le_floor_iff)

lemma hang_checks_timestamp:
  assumes "has_node_required_info m" and "wm_last_insufficient_nodes_timestamp m = 0"
    and "\<forall>(now, c)\<in>set checks. 1 \<le> now"
  shows "hang_checks checks m =
    m\<lparr>wm_last_insufficient_nodes_timestamp := (case missing_since m checks of [] \<Rightarrow> 0 | (t, c) # _ \<Rightarrow> py_int t)\<rparr>"
  using assms(3)
proof (induction checks rule: rev_induct)
  case Nil
  then show ?case using assms(2) by (simp add: hang_checks_def missing_since_def)
next
  case (snoc x checks)
  obtain now c where x: "x = (now, c)" by fastforce
  let ?ts = "case missing_since m checks of [] \<Rightarrow> 0 | (t, c) # _ \<Rightarrow> py_int t"
  have h: "hang_checks (checks @ [x]) m = snd (is_training_hang_by_insufficient_worker now c (hang_checks checks m))"
    by (simp add: hang_checks_def x)
  have pos: "py_int t \<noteq> 0" if "(t, c') \<in> set (missing_since m checks)" for t c'
  proof -
    have "1 \<le> t" using that snoc.prems set_missing_since [of m checks] by fastforce
    then show ?thesis using py_int_pos by fastforce
  qed
  have "hang_checks checks m = m\<lparr>wm_last_insufficient_nodes_timestamp := ?ts\<rparr>" using snoc by auto
  then have "hang_checks (checks @ [x]) m =
      m\<lparr>wm_last_insufficient_nodes_timestamp := (if insufficient m c then if ?ts = 0 then py_int now else ?ts else 0)\<rparr>"
    unfolding h by (simp add: hang_check_eq [OF assms(1)])
  moreover have "?ts \<noteq> 0" if "missing_since m checks \<noteq> []"
    using that pos by (cases "missing_since m checks") auto
  ultimately show ?case unfolding x missing_since_snoc by (cases "missing_since m checks") auto
qed

lemma missing_since_iff:
  assumes "s \<noteq> []"
  shows "missing_since m checks = s \<longleftrightarrow>
    (\<exists>before. checks = before @ s \<and> (before = [] \<or> \<not> insufficient m (snd (last before))) \<and> (\<forall>(t, c)\<in>set s. insufficient m c))"
proof
  assume s: "missing_since m checks = s"
  let ?P = "\<lambda>(now :: rat, c). insufficient m c"
  let ?b = "rev (dropWhile ?P (rev checks))"
  have "checks = ?b @ s"
    using takeWhile_dropWhile_id [of ?P "rev checks"] s unfolding missing_since_def by (metis rev_append rev_rev_ident)
  moreover have "?b = [] \<or> \<not> insufficient m (snd (last ?b))"
    using hd_dropWhile [of ?P "rev checks"] by (auto simp: last_rev split_def)
  moreover have "\<forall>(t, c)\<in>set s. insufficient m c"
    using s set_takeWhileD by (fastforce simp: missing_since_def)
  ultimately show "\<exists>before. checks = before @ s \<and> (before = [] \<or> \<not> insufficient m (snd (last before))) \<and>
      (\<forall>(t, c)\<in>set s. insufficient m c)" by blast
next
  assume "\<exists>before. checks = before @ s \<and> (before = [] \<or> \<not> insufficient m (snd (last before))) \<and> (\<forall>(t, c)\<in>set s. insufficient m c)"
  then obtain before where b: "checks = before @ s" "before = [] \<or> \<not> insufficient m (snd (last before))"
    "\<forall>(t, c)\<in>set s. insufficient m c" by blast
  have "takeWhile (\<lambda>(now, c). insufficient m c) (rev before) = []"
    using b(2) by (cases before rule: rev_cases) (auto simp: split_def)
  moreover have "takeWhile (\<lambda>(now, c). insufficient m c) (rev s @ rev before) =
      rev s @ takeWhile (\<lambda>(now, c). insufficient m c) (rev before)"
    using b(3) by (intro takeWhile_append2) auto
  ultimately show "missing_since m checks = s" by (simp add: missing_since_def b(1))
qed

text \<open>
  C14. Missing workers end a job only after the timeout. In every run of checks a job is declared hanging
  if and only if workers are missing now (some are available but fewer than required), were missing in
  all checks since some earlier one, and that one lies, in whole seconds, longer ago than the timeout;
  a single check with enough workers starts the time again. The timeout is between 600 and 3600 seconds.
\<close>

theorem hang_after_timeout:
  assumes "has_node_required_info m" and "wm_last_insufficient_nodes_timestamp m = 0"
    and "\<forall>(t, c)\<in>set checks. 1 \<le> t"
  shows "(fst (is_training_hang_by_insufficient_worker now c (hang_checks checks m)) \<longleftrightarrow>
      insufficient m c \<and>
      (\<exists>before since t c0. checks = before @ (t, c0) # since \<and>
        (before = [] \<or> \<not> insufficient m (snd (last before))) \<and>
        (\<forall>(t', c')\<in>set ((t, c0) # since). insufficient m c') \<and>
        now - of_int (py_int t) > of_int (get_insufficient_timeout m))) \<and>
    600 \<le> get_insufficient_timeout m \<and> get_insufficient_timeout m \<le> 3600"
proof (intro conjI)
  let ?ts = "case missing_since m checks of [] \<Rightarrow> 0 | (t, c) # _ \<Rightarrow> py_int t"
  have "fst (is_training_hang_by_insufficient_worker now c (hang_checks checks m)) \<longleftrightarrow>
      insufficient m c \<and> ?ts \<noteq> 0 \<and> now - of_int ?ts > of_int (get_insufficient_timeout m)"
    unfolding hang_checks_timestamp [OF assms] by (simp add: hang_check_eq [OF assms(1)])
  also have "\<dots> \<longleftrightarrow> insufficient m c \<and>
      (\<exists>since t c0. missing_since m checks = (t, c0) # since \<and> now - of_int (py_int t) > of_int (get_insufficient_timeout m))"
  proof (cases "missing_since m checks")
    case (Cons x since)
    obtain t c0 where x: "x = (t, c0)" by fastforce
    then have "(t, c0) \<in> set checks" using set_missing_since [of m checks] Cons by auto
    then have "1 \<le> t" using assms(3) by auto
    then have "1 \<le> py_int t" by (rule py_int_pos)
    then show ?thesis using Cons x by simp
  qed simp
  finally show "fst (is_training_hang_by_insufficient_worker now c (hang_checks checks m)) \<longleftrightarrow>
      insufficient m c \<and>
      (\<exists>before since t c0. checks = before @ (t, c0) # since \<and>
        (before = [] \<or> \<not> insufficient m (snd (last before))) \<and>
        (\<forall>(t', c')\<in>set ((t, c0) # since). insufficient m c') \<and>
        now - of_int (py_int t) > of_int (get_insufficient_timeout m))"
    unfolding missing_since_iff [OF list.distinct(2)] by blast
qed (simp_all add: get_insufficient_timeout_def INSUFFICIENT_NODE_TIMEOUT_DEFAULT_MIN_def
    INSUFFICIENT_NODE_TIMEOUT_DEFAULT_MAX_def Let_def)

theorem hang_after_timeout_witness:
  "fst (is_training_hang_by_insufficient_worker 800 demo_workers
     (hang_checks [(100, demo_workers), (500, demo_workers)] (demo_manager\<lparr>wm_nodes_required := (4, 8, 60)\<rparr>)))"
proof -
  let ?m = "demo_manager\<lparr>wm_nodes_required := (4, 8, 60)\<rparr>" and ?ch = "[(100 :: rat, demo_workers), (500, demo_workers)]"
  have h: "has_node_required_info ?m" "wm_last_insufficient_nodes_timestamp ?m = 0" "\<forall>(t, c)\<in>set ?ch. 1 \<le> t"
    by (simp_all add: has_node_required_info_def demo_manager_def new_worker_manager_def node_manager.extend_def
        worker_manager.fields_def new_node_manager_def update_nodes_iter_def Let_def)
  have i: "insufficient ?m demo_workers" by code_simp
  have t: "get_insufficient_timeout ?m = 600" by code_simp
  have "?ch = [] @ (100, demo_workers) # [(500, demo_workers)]" by simp
  moreover have "800 - of_int (py_int 100) > (of_int 600 :: rat)" by (simp add: py_int_def)
  ultimately show ?thesis using hang_after_timeout [OF h, of 800 demo_workers, THEN conjunct1] i unfolding t by fastforce
qed

section \<open>Pending groups\<close>

lemma first_created_append:
  "first_created (xs @ ys) =
     (case first_created xs of
        None \<Rightarrow> first_created ys
      | Some a \<Rightarrow> (case first_created ys of
                     None \<Rightarrow> Some a
                   | Some b \<Rightarrow> if the (nd_create_time b) < the (nd_create_time a) then Some b else Some a))"
  by (induction xs) (auto split: option.splits)

lemma first_created_in: "first_created xs = Some w \<Longrightarrow> w \<in> set xs"
  by (induction xs arbitrary: w) (auto split: option.splits if_splits)

lemma pending_loop_repeats:
  assumes "first_created pending = Some w" and "overdue now timeout w"
    and "\<forall>g\<in>set groups. \<forall>n\<in>set (group_pending (map snd g)). the (nd_create_time w) \<le> the (nd_create_time n)"
  shows "pending_group_loop timeout now groups pending = replicate (length groups) (nd_group w)"
  using assms(1,3)
proof (induction groups arbitrary: pending)
  case (Cons g groups)
  have "first_created (pending @ group_pending (map snd g)) = Some w"
    using Cons.prems first_created_in [of "group_pending (map snd g)"]
    by (fastforce simp: first_created_append split: option.split)
  then show ?case using Cons assms(2) by simp
qed simp

text \<open>
  One overdue group hides the others. If the first group has an overdue pending node and no pending node
  of a later group is older, the result repeats that group once for each group of the job: groups
  without pending nodes count again, and a later group with an overdue node is not reported.
\<close>

theorem pending_group_repeated:
  assumes "0 < get_group_pending_timeout cf" and "strategy \<noteq> 0"
    and "map snd (jc_job_node_groups c) = g # groups"
    and "first_created (group_pending (map snd g)) = Some w" and "overdue now (get_group_pending_timeout cf) w"
    and "\<forall>g\<in>set groups. \<forall>n\<in>set (group_pending (map snd g)). the (nd_create_time w) \<le> the (nd_create_time n)"
  shows "get_pending_node_groups cf strategy now DS_ALLREDUCE c = replicate (length (jc_job_node_groups c)) (nd_group w)"
proof -
  have "length (jc_job_node_groups c) = Suc (length groups)" using assms(3) by (metis length_Cons length_map)
  then show ?thesis using assms pending_loop_repeats [OF assms(4,5,6)]
    by (simp add: get_pending_node_groups_def skip_pending_judgement_def)
qed

end
