(* ===== verification/Job_Resource.thy ===== *)
theory Job_Resource
  imports Worker_Manager
begin

text \<open>
  \<open>dlrover/python/master/resource/optimizer.py\<close> and \<open>job.py\<close>: resource plans, the resource of a job and the
  optimizers of jobs with parameter servers and of all-reduce jobs. The algorithm that makes plans is an
  argument, a record of its two operations; what is proved holds for every such algorithm, the one of
  \<open>local_optimizer.py\<close> and the remote brain service included. The worker and parameter-server groups of the
  optimizer are the objects of the job's resource (\<open>DistributedJobManager.__init__\<close>), so they are entries of
  that dictionary.
\<close>

section \<open>Constants\<close>

datatype job_opt_stage = OS_CREATE | OS_PS_INITIAL | OS_WORKER_INITIAL | OS_PS_RUNNING | OS_WORKER_RUNNING

datatype worker_phase = WP_INITIAL | WP_SAMPLE | WP_STABLE

definition MAX_CPU_CORES :: rat where "MAX_CPU_CORES = 32"
definition MAX_WORKER_NUM :: int where "MAX_WORKER_NUM = 60"
definition MAX_PS_NUM :: int where "MAX_PS_NUM = 15"
definition MIN_VALID_MEMORY :: rat where "MIN_VALID_MEMORY = 1024"
definition MIN_VALID_CPU :: rat where "MIN_VALID_CPU = 2"
definition PS_NUM :: int where "PS_NUM = 1"
definition PS_MEMORY :: rat where "PS_MEMORY = 8000"
definition PS_CPU :: rat where "PS_CPU = 1"
definition WORKER_NUM :: int where "WORKER_NUM = 2"
definition WORKER_CPU :: rat where "WORKER_CPU = 1"
definition WORKER_MEMORY :: rat where "WORKER_MEMORY = 8000"


section \<open>Resource plans\<close>

definition limit_cpu :: "rat \<Rightarrow> rat" where
  "limit_cpu cpu =
     (if cpu > 0 then if cpu < MIN_CPU_CORES then MIN_CPU_CORES else if cpu > MAX_CPU_CORES then MAX_CPU_CORES else cpu
      else cpu)"

definition limit_memory :: "rat \<Rightarrow> rat" where
  "limit_memory mem =
     (if mem > 0 then if mem < MIN_MEMORY then MIN_MEMORY else if mem > MAX_MEMORY then MAX_MEMORY else mem
      else mem)"

record resource_plan =
  rp_node_group_resources :: "(node_type, node_group_resource) dict"
  rp_node_resources :: "(string option, node_resource) dict"
  rp_extended_config :: "(string, string) dict"

definition new_resource_plan :: resource_plan where
  "new_resource_plan = \<lparr>rp_node_group_resources = [], rp_node_resources = [], rp_extended_config = []\<rparr>"

definition rp_empty :: "resource_plan \<Rightarrow> bool" where
  "rp_empty p \<longleftrightarrow> rp_node_group_resources p = [] \<and> rp_node_resources p = [] \<and> rp_extended_config p = []"

record opt_settings =
  os_auto_ps_enabled :: bool
  os_auto_worker_enabled :: bool
  os_seconds_interval_to_change_ps :: rat


text \<open>A value that is zero is replaced by the default.\<close>

definition or_default :: "'a::zero \<Rightarrow> 'a \<Rightarrow> 'a" where
  "or_default x d = (if x \<noteq> 0 then x else d)"

definition map_resource :: "(rat \<Rightarrow> rat) \<Rightarrow> (rat \<Rightarrow> rat) \<Rightarrow> node_resource \<Rightarrow> node_resource" where
  "map_resource f g r = r\<lparr>nr_cpu := f (nr_cpu r), nr_memory := g (nr_memory r)\<rparr>"

definition limit_group :: "node_type \<Rightarrow> node_group_resource \<Rightarrow> node_group_resource" where
  "limit_group ty g =
     (let g1 = g\<lparr>ngr_node_resource := map_resource limit_cpu limit_memory (ngr_node_resource g)\<rparr>
      in if ty = NT_WORKER
         then let g2 = g1\<lparr>ngr_count := min (ngr_count g1) MAX_WORKER_NUM\<rparr>
              in if ngr_count g2 > 0
                 then g2\<lparr>ngr_node_resource := map_resource (\<lambda>c. or_default c WORKER_CPU) (\<lambda>m. or_default m WORKER_MEMORY)
                           (ngr_node_resource g2)\<rparr>
                 else g2
         else if ty = NT_PS
         then let g2 = g1\<lparr>ngr_count := min (ngr_count g1) MAX_PS_NUM\<rparr>
              in if ngr_count g2 > 0
                 then g2\<lparr>ngr_node_resource := map_resource (\<lambda>c. or_default c PS_CPU) (\<lambda>m. or_default m PS_MEMORY)
                           (ngr_node_resource g2)\<rparr>
                 else g2
         else g1)"

text \<open>The loop over the single nodes stands inside the loop over the groups.\<close>

definition limit_resource_value :: "resource_plan \<Rightarrow> resource_plan" where
  "limit_resource_value p =
     fold (\<lambda>ty p. p\<lparr>rp_node_group_resources := AList.map_entry ty (limit_group ty) (rp_node_group_resources p),
                    rp_node_resources := map (\<lambda>(nm, r). (nm, map_resource limit_cpu limit_memory r)) (rp_node_resources p)\<rparr>)
       (map fst (rp_node_group_resources p)) p"

definition new_default_plan :: resource_plan where
  "new_default_plan = new_resource_plan\<lparr>rp_node_group_resources :=
     [(NT_WORKER, \<lparr>ngr_count = WORKER_NUM, ngr_node_resource = new_node_resource WORKER_CPU WORKER_MEMORY\<rparr>),
      (NT_PS, \<lparr>ngr_count = PS_NUM, ngr_node_resource = new_node_resource PS_CPU PS_MEMORY\<rparr>)]\<rparr>"

text \<open>A \<open>ResourceOptimizer\<close>: its two operations. The plan for nodes out of memory may be missing.\<close>

record resource_optimizer =
  ro_generate_opt_plan :: "job_opt_stage \<Rightarrow> worker_phase option \<Rightarrow> resource_plan py_result"
  ro_generate_oom_recovery_plan :: "node list \<Rightarrow> job_opt_stage \<Rightarrow> resource_plan option py_result"


section \<open>The resource of a job\<close>

type_synonym job_resource = "(node_type, node_group_resource) dict"

definition get_group_node_num :: "node_type \<Rightarrow> job_resource \<Rightarrow> int" where
  "get_group_node_num ty r = (case map_of r ty of None \<Rightarrow> 0 | Some g \<Rightarrow> ngr_count g)"

definition update_group :: "int \<Rightarrow> rat \<Rightarrow> rat \<Rightarrow> node_group_resource \<Rightarrow> node_group_resource" where
  "update_group num cpu mem g =
     g\<lparr>ngr_count := or_default num (ngr_count g),
       ngr_node_resource := map_resource (or_default cpu) (or_default mem) (ngr_node_resource g)\<rparr>"

definition update_node_group_resource :: "node_type \<Rightarrow> int \<Rightarrow> rat \<Rightarrow> rat \<Rightarrow> job_resource \<Rightarrow> job_resource" where
  "update_node_group_resource ty num cpu mem r =
     AList.map_entry ty (update_group num cpu mem) (dict_setdefault ty ngr_new_empty r)"

definition init_group_nodes :: "node_factory \<Rightarrow> rat \<Rightarrow> int \<Rightarrow> node_type \<Rightarrow> node_group_resource \<Rightarrow> node_table" where
  "init_group_nodes nf now relaunch ty g =
     map (\<lambda>i. (i, new_node ty i (ngr_node_resource g) (Some (nf_name nf ty i)) ST_INITIAL (Some i) 0 False relaunch True
                    (Some (nf_service nf ty i)) now)) [0..ngr_count g - 1]"

definition init_job_node_meta :: "node_factory \<Rightarrow> rat \<Rightarrow> int \<Rightarrow> job_resource \<Rightarrow> (node_type, node_table) dict" where
  "init_job_node_meta nf now relaunch_on_worker_failure r =
     map (\<lambda>(ty, g). (ty, init_group_nodes nf now relaunch_on_worker_failure ty g)) r"

definition adjust_worker_for_estimator :: "job_resource \<Rightarrow> job_resource" where
  "adjust_worker_for_estimator r =
     (if get_group_node_num NT_CHIEF r > 0 then r
      else case map_of r NT_WORKER of
             None \<Rightarrow> r
           | Some worker \<Rightarrow>
               if ngr_count worker \<le> 0 then r
               else
                 let chief = dict_get r NT_CHIEF ngr_new_empty;
                     chief' = chief\<lparr>ngr_count := 1,
                       ngr_node_resource := (ngr_node_resource chief)\<lparr>nr_cpu := nr_cpu (ngr_node_resource worker),
                         nr_memory := nr_memory (ngr_node_resource worker)\<rparr>\<rparr>
                 in AList.map_entry NT_WORKER (\<lambda>g. g\<lparr>ngr_count := ngr_count g - 1\<rparr>) (AList.update NT_CHIEF chief' r))"

section \<open>The optimizer of a job with parameter servers\<close>

record ps_job_optimizer =
  pj_job_resource :: job_resource
  pj_original_worker_resource :: node_group_resource
  pj_original_ps_resource :: node_group_resource
  pj_optimize_worker_sampled :: bool
  pj_job_stage :: job_opt_stage
  pj_last_ps_change_time :: rat

definition new_ps_job_optimizer :: "job_resource \<Rightarrow> ps_job_optimizer py_result" where
  "new_ps_job_optimizer r =
     (case (map_of r NT_WORKER, map_of r NT_PS) of
        (Some worker, Some ps) \<Rightarrow>
          Inr \<lparr>pj_job_resource = r, pj_original_worker_resource = worker, pj_original_ps_resource = ps,
               pj_optimize_worker_sampled = False, pj_job_stage = OS_CREATE, pj_last_ps_change_time = 0\<rparr>
      | _ \<Rightarrow> Inl KeyError)"

definition pj_group :: "node_type \<Rightarrow> ps_job_optimizer \<Rightarrow> node_group_resource" where
  "pj_group ty s = dict_get (pj_job_resource s) ty ngr_new_empty"

definition pj_change :: "node_type \<Rightarrow> (node_group_resource \<Rightarrow> node_group_resource) \<Rightarrow> ps_job_optimizer \<Rightarrow> ps_job_optimizer" where
  "pj_change ty f s = s\<lparr>pj_job_resource := AList.map_entry ty f (pj_job_resource s)\<rparr>"


definition set_job_stage :: "job_opt_stage \<Rightarrow> ps_job_optimizer \<Rightarrow> ps_job_optimizer" where
  "set_job_stage stage s = s\<lparr>pj_job_stage := stage\<rparr>"

definition get_config_resource :: "ps_job_optimizer \<Rightarrow> job_resource" where
  "get_config_resource s =
     [(NT_WORKER, pj_original_worker_resource s), (NT_PS, pj_original_worker_resource s)]"

definition check_ignore_original_worker_resource :: "ps_job_optimizer \<Rightarrow> node_group_resource \<Rightarrow> node_group_resource" where
  "check_ignore_original_worker_resource s g =
     (let original = ngr_node_resource (pj_original_worker_resource s); r = ngr_node_resource g
      in g\<lparr>ngr_count := (if ngr_count (pj_original_worker_resource s) > 0 then ngr_count (pj_original_worker_resource s)
                         else ngr_count g),
           ngr_node_resource := r\<lparr>nr_cpu := (if nr_cpu r = 0 then nr_cpu original else nr_cpu r),
                                  nr_memory := (if nr_memory r = 0 then nr_memory original else nr_memory r)\<rparr>\<rparr>)"

definition check_ignore_original_ps_resource :: "ps_job_optimizer \<Rightarrow> node_group_resource \<Rightarrow> node_group_resource" where
  "check_ignore_original_ps_resource s g =
     (let original = ngr_node_resource (pj_original_ps_resource s); r = ngr_node_resource g
      in g\<lparr>ngr_count := (if ngr_count (pj_original_ps_resource s) > 0 then ngr_count (pj_original_ps_resource s) else ngr_count g),
           ngr_node_resource := r\<lparr>nr_cpu := (if nr_cpu original \<ge> MIN_VALID_CPU then nr_cpu original else nr_cpu r),
                                  nr_memory := (if nr_memory original \<ge> MIN_VALID_MEMORY then nr_memory original
                                                else nr_memory r)\<rparr>\<rparr>)"

definition ngr_update_from :: "node_group_resource \<Rightarrow> node_group_resource \<Rightarrow> node_group_resource" where
  "ngr_update_from src g = ngr_update (ngr_count src) (nr_cpu (ngr_node_resource src)) (nr_memory (ngr_node_resource src)) g"

definition init_job_resource_by_optimizer ::
    "resource_optimizer \<Rightarrow> opt_settings \<Rightarrow> ps_job_optimizer \<Rightarrow> (ps_job_optimizer, unit) py_run" where
  "init_job_resource_by_optimizer ro st s =
     (case ro_generate_opt_plan ro (pj_job_stage s) None of
        Inl e \<Rightarrow> (Inl e, s)
      | Inr plan0 \<Rightarrow>
          let plan = (if rp_empty plan0 then new_default_plan else plan0);
              s1 = s\<lparr>pj_job_stage := OS_WORKER_INITIAL\<rparr>;
              s2 = (case map_of (rp_node_group_resources plan) NT_WORKER of
                      None \<Rightarrow> s1
                    | Some g \<Rightarrow>
                        if os_auto_worker_enabled st
                        then pj_change NT_WORKER (ngr_update_from (check_ignore_original_worker_resource s1 g)) s1 else s1);
              s3 = (case map_of (rp_node_group_resources plan) NT_PS of
                      None \<Rightarrow> s2
                    | Some g \<Rightarrow>
                        if os_auto_ps_enabled st
                        then pj_change NT_PS (ngr_update_from (check_ignore_original_ps_resource s2 g)) s2 else s2)
          in (Inr (), s3))"

definition update_from_group :: "node_type \<Rightarrow> node_group_resource \<Rightarrow> job_resource \<Rightarrow> job_resource" where
  "update_from_group ty g r =
     update_node_group_resource ty (ngr_count g) (nr_cpu (ngr_node_resource g)) (nr_memory (ngr_node_resource g)) r"

definition init_job_resource ::
    "resource_optimizer \<Rightarrow> opt_settings \<Rightarrow> ps_job_optimizer \<Rightarrow> (ps_job_optimizer, unit) py_run" where
  "init_job_resource ro st s =
     (case init_job_resource_by_optimizer ro st s of
        (Inl e, s1) \<Rightarrow> (Inl e, s1)
      | (Inr _, s1) \<Rightarrow>
          let r1 = update_from_group NT_WORKER (pj_group NT_WORKER s1) (pj_job_resource s1);
              s2 = s1\<lparr>pj_job_resource := r1\<rparr>;
              r2 = update_from_group NT_PS (pj_group NT_PS s2) r1;
              worker = ngr_node_resource (dict_get r2 NT_WORKER ngr_new_empty);
              r3 = AList.map_entry NT_EVALUATOR
                     (\<lambda>g. g\<lparr>ngr_node_resource := map_resource
                        (\<lambda>c. if c < MIN_VALID_CPU then nr_cpu worker else c)
                        (\<lambda>m. if m < MIN_VALID_MEMORY then nr_memory worker else m) (ngr_node_resource g)\<rparr>) r2
          in (Inr (), s1\<lparr>pj_job_resource := r3\<rparr>))"

subsection \<open>Nodes out of memory\<close>





subsection \<open>Plans for the running job\<close>






section \<open>The optimizer of an all-reduce job\<close>

record allreduce_optimizer =
  ar_original_worker_resource :: node_group_resource
  ar_node_unit :: int
  ar_alive_node_num :: int

definition new_allreduce_optimizer :: "node_group_resource \<Rightarrow> allreduce_optimizer" where
  "new_allreduce_optimizer worker = \<lparr>ar_original_worker_resource = worker, ar_node_unit = 1, ar_alive_node_num = 0\<rparr>"

definition get_free_gpu_node :: "allreduce_optimizer \<Rightarrow> int" where
  "get_free_gpu_node s = 0"

definition ar_get_job_resource_plan :: "allreduce_optimizer \<Rightarrow> resource_plan py_result" where
  "ar_get_job_resource_plan s =
     (if ar_node_unit s = 0 then Inl ZeroDivisionError
      else
        let worker_config = ar_original_worker_resource s;
            request_num = ngr_count worker_config - ar_alive_node_num s;
            free_num = get_free_gpu_node s div ar_node_unit s * ar_node_unit s;
            new_num = min free_num request_num
        in Inr (new_resource_plan\<lparr>rp_node_group_resources :=
                  [(NT_WORKER, worker_config\<lparr>ngr_count := ar_alive_node_num s + new_num\<rparr>)]\<rparr>))"

definition set_node_unit :: "int \<Rightarrow> allreduce_optimizer \<Rightarrow> allreduce_optimizer" where
  "set_node_unit node_unit s = s\<lparr>ar_node_unit := node_unit\<rparr>"

definition set_alive_node_num :: "int \<Rightarrow> allreduce_optimizer \<Rightarrow> allreduce_optimizer" where
  "set_alive_node_num node_num s = s\<lparr>ar_alive_node_num := node_num\<rparr>"

section \<open>Properties\<close>

lemma pj_change_same [simp]:
  "pj_original_worker_resource (pj_change ty f s) = pj_original_worker_resource s"
  "pj_original_ps_resource (pj_change ty f s) = pj_original_ps_resource s"
  "pj_job_stage (pj_change ty f s) = pj_job_stage s"
  "pj_last_ps_change_time (pj_change ty f s) = pj_last_ps_change_time s"
  "pj_optimize_worker_sampled (pj_change ty f s) = pj_optimize_worker_sampled s"
  by (simp_all add: pj_change_def)


lemma py_int_mono_int: "of_int k \<le> x \<Longrightarrow> 0 \<le> k \<Longrightarrow> k \<le> py_int x"
  unfolding py_int_def by (simp add: le_floor_iff)

text \<open>
  The initial tables of a job. Groups of resources with distinct types give tables filed under the types
  and ids of their nodes, which is the invariant of the job context.
\<close>

lemma init_group_nodes_ok: "table_ok ty (init_group_nodes nf now relaunch ty g)"
  by (auto simp: table_ok_def wf_dict_def init_group_nodes_def dict_all_def list_all_iff new_node_def comp_def)

lemma init_job_node_meta_ok:
  assumes "distinct (map fst r)" and "jc_inv c"
  shows "jc_inv (update_job_nodes (init_job_node_meta nf now relaunch r) c)"
proof -
  have "dict_all table_ok (init_job_node_meta nf now relaunch r)"
    using init_group_nodes_ok by (auto simp: dict_all_def list_all_iff init_job_node_meta_def)
  moreover have "wf_dict (init_job_node_meta nf now relaunch r)"
    using assms(1) by (simp add: wf_dict_def init_job_node_meta_def comp_def split_def)
  ultimately show ?thesis using assms(2) by (simp add: jc_inv_def update_job_nodes_def)
qed














end
