(* ===== verification/Nccl_Record.thy ===== *)
theory Nccl_Record
  imports Py_Prelude "HOL-Library.Word"
begin

text \<open>
  The shared ring buffer of communication records: the training processes push records into it
  (\<open>RecordBuffer\<close> of \<open>greyhound-metax/detector/shm_storage.cpp\<close>, under an inter-process lock) and the
  local controller reads and clears it (\<open>NcclRecord\<close> of \<open>detector/control_plane/local_analyzer.py\<close>).
  The buffer is one flat array of 64-bit cells behind seven cells of metadata. A push and a clear are
  single steps; the reader does not take the writers' lock.
\<close>

section \<open>The writer\<close>

text \<open>The cells \<open>addr[0]\<close> to \<open>addr[4]\<close> and \<open>addr[6]\<close>, and the array behind them.\<close>

record shm_buffer =
  sb_num_fields :: nat
  sb_max_records :: nat
  sb_num_records :: nat
  sb_head :: nat
  sb_tail :: nat
  sb_event_id :: "64 word"
  sb_buffer :: "64 word list"

text \<open>The state after the first process initialised the zero-filled segment.\<close>

definition new_record_buffer :: "nat \<Rightarrow> nat \<Rightarrow> shm_buffer" where
  "new_record_buffer num_fields max_records =
     \<lparr>sb_num_fields = num_fields, sb_max_records = max_records, sb_num_records = 0, sb_head = 0, sb_tail = 0,
      sb_event_id = 0, sb_buffer = replicate (num_fields * max_records) 0\<rparr>"

definition memcpy :: "64 word list \<Rightarrow> nat \<Rightarrow> 64 word list \<Rightarrow> 64 word list" where
  "memcpy buf pos cells = take pos buf @ cells @ drop (pos + length cells) buf"

definition push :: "64 word list \<Rightarrow> shm_buffer \<Rightarrow> (shm_buffer, unit) py_run" where
  "push record s =
     (if length record \<noteq> sb_num_fields s then (Inl AssertionError, s)
      else
        let record' = record[length record - 1 := sb_event_id s];
            full = (sb_num_records s = sb_max_records s)
        in (Inr (),
            s\<lparr>sb_buffer := memcpy (sb_buffer s) (sb_tail s * sb_num_fields s) record',
              sb_tail := (sb_tail s + 1) mod sb_max_records s,
              sb_head := (if full then (sb_head s + 1) mod sb_max_records s else sb_head s),
              sb_num_records := (if sb_num_records s < sb_max_records s then sb_num_records s + 1 else sb_num_records s),
              sb_event_id := sb_event_id s + 1\<rparr>))"

section \<open>The reader\<close>

definition nr_attrs :: "string list" where
  "nr_attrs = [''comm_addr'', ''call_number'', ''count'', ''buff1'', ''buff2'', ''datatype'', ''pid'', ''call_time'',
     ''device'', ''global_rank'', ''aux'', ''duration'', ''num_devices'', ''event_id'']"

definition nr_clear :: "shm_buffer \<Rightarrow> shm_buffer" where
  "nr_clear s = s\<lparr>sb_num_records := 0, sb_head := 0, sb_tail := 0\<rparr>"

text \<open>One row of the flat array; numpy reads the cells as signed 64-bit integers.\<close>

definition row :: "shm_buffer \<Rightarrow> nat \<Rightarrow> 64 word list" where
  "row s i = take (sb_num_fields s) (drop (i * sb_num_fields s) (sb_buffer s))"

definition nr_getitem :: "nat \<Rightarrow> shm_buffer \<Rightarrow> int list py_result" where
  "nr_getitem idx s =
     (if idx \<ge> sb_num_records s then Inl StopIteration
      else Inr (map sint (row s ((sb_head s + idx) mod sb_max_records s))))"

text \<open>Iterating over the object: \<open>__getitem__\<close> with 0, 1, and so on until it raises \<open>StopIteration\<close>.\<close>

function nr_iter_from :: "nat \<Rightarrow> shm_buffer \<Rightarrow> int list list" where
  "nr_iter_from idx s =
     (case nr_getitem idx s of Inl e \<Rightarrow> [] | Inr r \<Rightarrow> r # nr_iter_from (Suc idx) s)"
  by pat_completeness auto
termination
  by (relation "measure (\<lambda>(idx, s). sb_num_records s - idx)") (auto simp: nr_getitem_def split: if_splits)

declare nr_iter_from.simps [simp del]

definition nr_records :: "shm_buffer \<Rightarrow> int list list" where
  "nr_records s = nr_iter_from 0 s"

text \<open>\<open>attrs.index\<close> raises for an unknown metric.\<close>

fun list_index :: "'a list \<Rightarrow> 'a \<Rightarrow> nat py_result" where
  "list_index [] x = Inl ValueError"
| "list_index (y # ys) x = (if y = x then Inr 0 else case list_index ys x of Inl e \<Rightarrow> Inl e | Inr i \<Rightarrow> Inr (Suc i))"

fun record_column :: "nat \<Rightarrow> int list list \<Rightarrow> int list py_result" where
  "record_column i [] = Inr []"
| "record_column i (r # rs) =
     (if i \<ge> length r then Inl IndexError
      else case record_column i rs of Inl e \<Rightarrow> Inl e | Inr vs \<Rightarrow> Inr (r ! i # vs))"

definition get_profile_data :: "string \<Rightarrow> shm_buffer \<Rightarrow> int list py_result" where
  "get_profile_data metric_name s =
     (if metric_name = ''event_id''
      then if list_all (\<lambda>r. r \<noteq> []) (nr_records s) then Inr (map last (nr_records s)) else Inl IndexError
      else case list_index nr_attrs metric_name of
             Inl e \<Rightarrow> Inl e
           | Inr metric_id \<Rightarrow> record_column metric_id (nr_records s))"

section \<open>A bounded log\<close>

text \<open>The operations on the buffer in the order in which they happen, and what they mean for a reader.\<close>

datatype buffer_op = Push "64 word list" | Clear

fun buffer_step :: "buffer_op \<Rightarrow> shm_buffer \<Rightarrow> shm_buffer" where
  "buffer_step (Push r) s = snd (push r s)"
| "buffer_step Clear s = nr_clear s"

record bounded_log =
  bl_rows :: "64 word list list"
  bl_next :: "64 word"

definition log_push :: "nat \<Rightarrow> 64 word list \<Rightarrow> bounded_log \<Rightarrow> bounded_log" where
  "log_push cap r l =
     (let rows = bl_rows l @ [butlast r @ [bl_next l]]
      in l\<lparr>bl_rows := drop (length rows - cap) rows, bl_next := bl_next l + 1\<rparr>)"

fun log_step :: "nat \<Rightarrow> nat \<Rightarrow> buffer_op \<Rightarrow> bounded_log \<Rightarrow> bounded_log" where
  "log_step n cap (Push r) l = (if length r = n then log_push cap r l else l)"
| "log_step n cap Clear l = l\<lparr>bl_rows := []\<rparr>"

definition buffer_ok :: "shm_buffer \<Rightarrow> bool" where
  "buffer_ok s \<longleftrightarrow> 0 < sb_num_fields s \<and> 0 < sb_max_records s \<and> sb_num_records s \<le> sb_max_records s \<and>
     sb_head s < sb_max_records s \<and> sb_tail s = (sb_head s + sb_num_records s) mod sb_max_records s \<and>
     length (sb_buffer s) = sb_num_fields s * sb_max_records s"

definition buffer_log :: "shm_buffer \<Rightarrow> bounded_log" where
  "buffer_log s =
     \<lparr>bl_rows = map (\<lambda>i. row s ((sb_head s + i) mod sb_max_records s)) [0..<sb_num_records s], bl_next = sb_event_id s\<rparr>"

section \<open>The buffer refines the bounded log\<close>

lemma nr_iter_from_rows:
  "nr_iter_from idx s =
     map (\<lambda>i. map sint (row s ((sb_head s + i) mod sb_max_records s))) [idx..<sb_num_records s]"
proof (induction idx s rule: nr_iter_from.induct)
  case (1 idx s)
  show ?case
  proof (cases "idx < sb_num_records s")
    case True
    then have "nr_getitem idx s = Inr (map sint (row s ((sb_head s + idx) mod sb_max_records s)))"
      by (simp add: nr_getitem_def)
    then show ?thesis using 1 True by (subst nr_iter_from.simps) (simp add: upt_conv_Cons)
  next
    case False
    then show ?thesis by (subst nr_iter_from.simps) (simp add: nr_getitem_def)
  qed
qed

lemma nr_records_log: "nr_records s = map (map sint) (bl_rows (buffer_log s))"
  by (simp add: nr_records_def nr_iter_from_rows buffer_log_def)

lemma nth_memcpy:
  assumes "pos + length r \<le> length buf" and "p < length buf"
  shows "memcpy buf pos r ! p = (if p < pos \<or> pos + length r \<le> p then buf ! p else r ! (p - pos))"
  using assms by (auto simp: memcpy_def nth_append)

lemma row_memcpy:
  fixes n :: nat
  assumes "length buf = n * m" and "length r = n" and "i < m" and "j < m" and "0 < n"
  shows "take n (drop (j * n) (memcpy buf (i * n) r)) = (if j = i then r else take n (drop (j * n) buf))"
proof (rule nth_equalityI)
  have i: "Suc i * n \<le> m * n" and j: "Suc j * n \<le> m * n" using assms(3,4) by (intro mult_le_mono1; simp)+
  have l: "length (memcpy buf (i * n) r) = n * m" using i assms by (simp add: memcpy_def algebra_simps)
  show "length (take n (drop (j * n) (memcpy buf (i * n) r))) = length (if j = i then r else take n (drop (j * n) buf))"
    using j assms l by (simp add: algebra_simps)
  fix t assume t: "t < length (take n (drop (j * n) (memcpy buf (i * n) r)))"
  then have tn: "t < n" by simp
  have "i * n + length r \<le> length buf" "j * n + t < length buf" using i j tn assms by (simp_all add: algebra_simps)
  note p = nth_memcpy [OF this, unfolded assms(2)] this(2) l [folded assms(1)]
  consider "j < i" | "j = i" | "i < j" by linarith
  then show "take n (drop (j * n) (memcpy buf (i * n) r)) ! t = (if j = i then r else take n (drop (j * n) buf)) ! t"
  proof cases
    case 1
    then have "Suc j * n \<le> i * n" by (intro mult_le_mono1) simp
    then have "j * n + t < i * n" using tn by simp
    then show ?thesis using 1 tn p by simp
  next
    case 2
    then show ?thesis using tn p assms(2) by simp
  next
    case 3
    then have "Suc i * n \<le> j * n" by (intro mult_le_mono1) simp
    then have "i * n + n \<le> j * n + t" by simp
    then show ?thesis using 3 tn p by simp
  qed
qed

lemma push_ok:
  assumes "buffer_ok s"
  shows "buffer_ok (snd (push r s))"
proof (cases "length r = sb_num_fields s")
  case True
  let ?m = "sb_max_records s"
  have t: "sb_tail s < ?m" using assms by (simp add: buffer_ok_def)
  then have "Suc (sb_tail s) * sb_num_fields s \<le> ?m * sb_num_fields s" by (intro mult_le_mono1) simp
  then have "length (memcpy (sb_buffer s) (sb_tail s * sb_num_fields s) (r[length r - 1 := sb_event_id s])) =
      sb_num_fields s * ?m"
    using assms True by (simp add: memcpy_def buffer_ok_def algebra_simps)
  moreover have "Suc (sb_tail s) mod ?m = Suc (sb_head s + sb_num_records s) mod ?m"
    using assms by (simp add: buffer_ok_def mod_Suc_eq)
  moreover have "(Suc (sb_head s) mod ?m + ?m) mod ?m = Suc (sb_tail s) mod ?m" if "sb_num_records s = ?m"
    using assms that by (simp add: buffer_ok_def mod_Suc_eq)
  ultimately show ?thesis
    using assms True
    by (cases "sb_num_records s = ?m") (simp_all add: push_def Let_def buffer_ok_def)
qed (use assms in \<open>simp add: push_def\<close>)

lemma stamped: "r \<noteq> [] \<Longrightarrow> r[length r - 1 := v] = butlast r @ [v]"
  by (metis append_butlast_last_id length_butlast list_update_length)

lemma mod_positions_differ:
  fixes h i j m :: nat
  assumes "i < m" "j < m" "i \<noteq> j"
  shows "(h + i) mod m \<noteq> (h + j) mod m"
proof
  assume "(h + i) mod m = (h + j) mod m"
  then obtain a b where "h + i + m * a = h + j + m * b" unfolding nat_mod_eq_iff by blast
  then have "i mod m = j mod m" unfolding nat_mod_eq_iff by auto
  then show False using assms by simp
qed

lemma push_log:
  assumes "buffer_ok s" and "length r = sb_num_fields s"
  shows "buffer_log (snd (push r s)) = log_push (sb_max_records s) r (buffer_log s)"
proof -
  let ?m = "sb_max_records s" and ?k = "sb_num_records s" and ?h = "sb_head s"
  let ?new = "butlast r @ [sb_event_id s]"
  let ?s = "snd (push r s)"
  have r: "r[length r - 1 := sb_event_id s] = ?new" "length ?new = sb_num_fields s"
    using assms stamped [of r] by (force simp: buffer_ok_def)+
  have t: "sb_tail s < ?m" "sb_tail s = (?h + ?k) mod ?m" using assms(1) by (simp_all add: buffer_ok_def)
  have row: "row ?s j = (if j = sb_tail s then ?new else row s j)" if "j < ?m" for j
    using row_memcpy [of "sb_buffer s" "sb_num_fields s" ?m ?new "sb_tail s" j] assms t that r
    by (simp add: row_def push_def Let_def buffer_ok_def)
  have m: "0 < ?m" "?k \<le> ?m" "?h < ?m" using assms(1) by (simp_all add: buffer_ok_def)
  have ev: "sb_event_id ?s = sb_event_id s + 1" "sb_max_records ?s = ?m"
    using assms(2) by (simp_all add: push_def Let_def)
  let ?rows = "map (\<lambda>i. row s ((?h + i) mod ?m)) [0..<?k]"
  have "map (\<lambda>i. row ?s ((sb_head ?s + i) mod ?m)) [0..<sb_num_records ?s] = drop (Suc ?k - ?m) (?rows @ [?new])"
  proof (cases "?k < ?m")
    case True
    then have s: "sb_head ?s = ?h" "sb_num_records ?s = Suc ?k" using assms(2) by (simp_all add: push_def Let_def)
    have "row ?s ((?h + i) mod ?m) = row s ((?h + i) mod ?m)" if "i < ?k" for i
      using row [of "(?h + i) mod ?m"] mod_positions_differ [of i ?m ?k ?h] that True m t by simp
    moreover have "row ?s ((?h + ?k) mod ?m) = ?new" using row [OF t(1)] t(2) by simp
    ultimately show ?thesis unfolding s using True by simp
  next
    case False
    then have k: "?k = ?m" using m by simp
    then have s: "sb_head ?s = Suc ?h mod ?m" "sb_num_records ?s = ?m" "sb_tail s = ?h"
      using assms(2) t m by (simp_all add: push_def Let_def)
    have "map (\<lambda>i. row ?s ((Suc ?h mod ?m + i) mod ?m)) [0..<?m] = tl ?rows @ [?new]"
    proof (rule nth_equalityI)
      fix i assume "i < length (map (\<lambda>i. row ?s ((Suc ?h mod ?m + i) mod ?m)) [0..<?m])"
      then have i: "i < ?m" by simp
      have e: "(Suc ?h mod ?m + i) mod ?m = (?h + Suc i) mod ?m" by (simp add: mod_add_left_eq)
      show "map (\<lambda>i. row ?s ((Suc ?h mod ?m + i) mod ?m)) [0..<?m] ! i = (tl ?rows @ [?new]) ! i"
      proof (cases "Suc i < ?m")
        case True
        then have "(?h + Suc i) mod ?m \<noteq> (?h + 0) mod ?m" using m by (intro mod_positions_differ) auto
        then have "row ?s ((?h + Suc i) mod ?m) = row s ((?h + Suc i) mod ?m)"
          using row [of "(?h + Suc i) mod ?m"] s(3) m by simp
        then show ?thesis using True k by (simp add: e nth_append nth_tl less_diff_conv)
      next
        case False
        then have "Suc i = ?m" using i by simp
        then have "(?h + Suc i) mod ?m = ?h" using m by simp
        then show ?thesis using False i k row [OF m(3)] s(3) by (simp add: e nth_append less_diff_conv)
      qed
    qed (use m k in simp)
    then show ?thesis unfolding s using k m by (cases ?rows) auto
  qed
  then show ?thesis using ev by (simp add: buffer_log_def log_push_def)
qed

lemma push_sizes:
  "sb_num_fields (snd (push r s)) = sb_num_fields s" "sb_max_records (snd (push r s)) = sb_max_records s"
  by (simp_all add: push_def Let_def)

interpretation ring_buffer: op_machine buffer_step buffer_ok
proof
  fix s op assume "buffer_ok s"
  then show "buffer_ok (buffer_step op s)"
    by (cases op) (simp_all add: push_ok, simp add: nr_clear_def buffer_ok_def)
qed

lemma step_log:
  assumes "buffer_ok s"
  shows "buffer_log (buffer_step op s) = log_step (sb_num_fields s) (sb_max_records s) op (buffer_log s)"
    and "sb_num_fields (buffer_step op s) = sb_num_fields s" and "sb_max_records (buffer_step op s) = sb_max_records s"
proof -
  show "buffer_log (buffer_step op s) = log_step (sb_num_fields s) (sb_max_records s) op (buffer_log s)"
  proof (cases op)
    case (Push r)
    then show ?thesis using push_log [OF assms] by (cases "length r = sb_num_fields s") (auto simp: push_def)
  qed (simp add: nr_clear_def buffer_log_def)
qed (cases op; simp add: push_sizes nr_clear_def)+

lemma run_log:
  assumes "buffer_ok s"
  shows "buffer_log (fold buffer_step ops s) = fold (log_step (sb_num_fields s) (sb_max_records s)) ops (buffer_log s)"
  using assms
proof (induction ops arbitrary: s)
  case (Cons op ops)
  then show ?case using ring_buffer.step_inv step_log by simp
qed simp

text \<open>
  C8. The ring buffer is a bounded log. After any sequence of pushes by the training processes and clears
  by the local controller, iterating over the buffer yields exactly the latest records pushed since
  the last clear, at most as many as the capacity, oldest first and with their cells unchanged but the
  last, which holds the running event number; a record of a wrong size changes nothing.
\<close>

theorem ring_buffer_is_bounded_log:
  assumes "0 < n" and "0 < cap"
  shows "nr_records (fold buffer_step ops (new_record_buffer n cap)) =
    map (map sint) (bl_rows (fold (log_step n cap) ops \<lparr>bl_rows = [], bl_next = 0\<rparr>))"
proof -
  let ?s = "new_record_buffer n cap"
  have "buffer_ok ?s" using assms by (simp add: buffer_ok_def new_record_buffer_def)
  moreover have "buffer_log ?s = \<lparr>bl_rows = [], bl_next = 0\<rparr>" by (simp add: buffer_log_def new_record_buffer_def)
  ultimately show ?thesis
    using run_log [of ?s ops] by (simp add: nr_records_log new_record_buffer_def)
qed

theorem ring_buffer_is_bounded_log_witness:
  "nr_records (fold buffer_step [Push [7, 0], Push [8, 0], Push [- 9, 0]] (new_record_buffer 2 2)) = [[8, 1], [- 9, 2]]"
proof -
  have "map (map sint) (bl_rows (fold (log_step 2 2) [Push [7, 0], Push [8, 0], Push [- 9, 0]]
      \<lparr>bl_rows = [], bl_next = 0\<rparr>)) = [[8, 1], [- 9, 2]]"
    by code_simp
  moreover have "nr_records (fold buffer_step [Push [7, 0], Push [8, 0], Push [- 9, 0]] (new_record_buffer 2 2)) =
      map (map sint) (bl_rows (fold (log_step 2 2) [Push [7, 0], Push [8, 0], Push [- 9, 0]]
        \<lparr>bl_rows = [], bl_next = 0\<rparr>))"
    by (rule ring_buffer_is_bounded_log) simp_all
  ultimately show ?thesis by (rule trans [rotated])
qed

end
