(* ===== verification/Slow_Detection.thy ===== *)
theory Slow_Detection
  imports Py_Prelude
begin

text \<open>
  \<open>detector/control_plane/slow_detection.py\<close>: from the sequence of communication calls of a rank to its
  iteration times and to the points where they change. The statistics of other packages are function
  arguments: the peaks of the autocorrelation, the z-scores and the change points of the Bayesian
  estimator (positions, \<open>None\<close> for an invalid one, and their probabilities). Times are exact
  rationals; a mean over nothing is \<open>None\<close>, where \<open>numpy\<close> gives NaN, which compares as false.
\<close>

section \<open>The repeating pattern\<close>

definition window :: "'a list \<Rightarrow> nat \<Rightarrow> nat \<Rightarrow> 'a list" where
  "window xs from to = take (to - from) (drop from xs)"

text \<open>\<open>dist\<close>: the number of positions at which two sequences of equal length differ.\<close>

definition dist_calls :: "int list \<Rightarrow> int list \<Rightarrow> nat py_result" where
  "dist_calls seq1 seq2 =
     (if length seq1 = length seq2 then Inr (length seq1 - length (filter (\<lambda>(a, b). a = b) (zip seq1 seq2)))
      else Inl AssertionError)"

text \<open>The loop over the starting points; it ends without a break at the last one.\<close>

fun pattern_start :: "int list \<Rightarrow> nat \<Rightarrow> nat list \<Rightarrow> nat \<Rightarrow> nat py_result" where
  "pattern_start seq p [] prev = Inr prev"
| "pattern_start seq p (i # is) prev =
     (case dist_calls (window seq i (i + p)) (window seq (i + p) (i + 2 * p)) of
        Inl e \<Rightarrow> Inl e
      | Inr d \<Rightarrow> if d = 0 then Inr i else pattern_start seq p is i)"

definition find_period :: "(int list \<Rightarrow> nat list) \<Rightarrow> int list \<Rightarrow> (int \<times> nat option) py_result" where
  "find_period find_peaks seq =
     (case find_peaks seq of
        [] \<Rightarrow> Inr (- 1, None)
      | estimated_period # _ \<Rightarrow>
          (case pattern_start seq estimated_period [0..<length seq] 0 of
             Inl e \<Rightarrow> Inl e
           | Inr i \<Rightarrow> Inr (int i, Some estimated_period)))"

section \<open>Change points\<close>

definition remove_outliers :: "(rat list \<Rightarrow> rat list) \<Rightarrow> rat list \<Rightarrow> rat list \<Rightarrow> rat list \<times> rat list" where
  "remove_outliers zscore iter_durations iter_start =
     (let kept = filter (\<lambda>((d, s), z). \<not> \<bar>z\<bar> > 3) (zip (zip iter_durations iter_start) (zscore iter_durations))
      in (map (fst \<circ> fst) kept, map (snd \<circ> fst) kept))"

definition mean :: "rat list \<Rightarrow> rat option" where
  "mean xs = (if xs = [] then None else Some (sum_list xs / of_nat (length xs)))"

text \<open>\<open>degradation <= degradation_thresh\<close>; a quotient by zero is NaN or infinite and the test fails.\<close>

definition low_degradation :: "rat \<Rightarrow> rat option \<Rightarrow> rat option \<Rightarrow> bool" where
  "low_degradation thresh mean_l mean_r =
     (case (mean_l, mean_r) of
        (Some l, Some r) \<Rightarrow> max l r \<noteq> 0 \<and> \<bar>l - r\<bar> / max l r \<le> thresh
      | _ \<Rightarrow> False)"

text \<open>
  The rows are kept whose difference to the row before is greater than the length threshold; the first
  row is kept unless its position is below the threshold.
\<close>

fun spaced_rows :: "nat \<Rightarrow> (nat \<times> rat) list \<Rightarrow> nat \<Rightarrow> (nat \<times> rat) list" where
  "spaced_rows thresh [] prev = []"
| "spaced_rows thresh (r # rs) prev =
     (if fst r - prev > thresh then r # spaced_rows thresh rs (fst r) else spaced_rows thresh rs (fst r))"

definition long_rows :: "nat \<Rightarrow> (nat \<times> rat) list \<Rightarrow> (nat \<times> rat) list" where
  "long_rows thresh rows =
     (case rows of
        [] \<Rightarrow> []
      | r # rs \<Rightarrow> if fst r < thresh then spaced_rows thresh rs (fst r) else r # spaced_rows thresh rs (fst r))"

definition keeps_row :: "rat list \<Rightarrow> rat \<Rightarrow> (nat \<times> rat) list \<Rightarrow> nat \<Rightarrow> bool" where
  "keeps_row iter_durations thresh rows i =
     (let left_cp = (if i > 0 then fst (rows ! (i - 1)) else 0);
          right_cp = (if i < length rows - 1 then fst (rows ! (i + 1)) else length iter_durations - 1);
          curr_cp = fst (rows ! i)
      in \<not> low_degradation thresh (mean (window iter_durations left_cp curr_cp))
           (mean (window iter_durations curr_cp right_cp)))"

definition validate_performance_drop ::
    "rat list \<Rightarrow> rat list \<Rightarrow> (nat \<times> rat) list \<Rightarrow> nat \<Rightarrow> rat \<Rightarrow> (nat \<times> rat) list py_result" where
  "validate_performance_drop iter_durations iter_start change_points length_thresh degradation_thresh =
     (if length iter_durations \<noteq> length iter_start then Inl AssertionError
      else
        let rows = long_rows length_thresh (sort_key fst change_points)
        in Inr (map ((!) rows) (filter (keeps_row iter_durations degradation_thresh rows) [0..<length rows])))"

text \<open>The iteration times: the time from a call to the same call one period later.\<close>

fun iterations :: "rat list \<Rightarrow> nat \<Rightarrow> nat list \<Rightarrow> (rat \<times> rat) list" where
  "iterations call_time period [] = []"
| "iterations call_time period (i # is) =
     (if i + period \<ge> length call_time then iterations call_time period is
      else (call_time ! (i + period) - call_time ! i, call_time ! i) # iterations call_time period is)"

fun steps_from :: "nat \<Rightarrow> nat \<Rightarrow> nat \<Rightarrow> nat list" where
  "steps_from 0 start period = []"
| "steps_from (Suc n) start period = start # steps_from n (start + period) period"

text \<open>\<open>range(start, stop, period)\<close> for a positive period.\<close>

definition range_by :: "nat \<Rightarrow> nat \<Rightarrow> nat \<Rightarrow> nat list" where
  "range_by start stop period = steps_from ((stop - start + period - 1) div period) start period"

fun suspects ::
    "rat \<Rightarrow> rat list \<Rightarrow> nat option list \<Rightarrow> rat list \<Rightarrow> (nat \<times> rat) list py_result" where
  "suspects thresh_prob iter_start [] probs = Inr []"
| "suspects thresh_prob iter_start (None # ps) probs = Inr []"
| "suspects thresh_prob iter_start (Some pos # ps) probs =
     (if pos \<ge> length iter_start \<or> probs = [] then Inl IndexError
      else case suspects thresh_prob iter_start ps (tl probs) of
             Inl e \<Rightarrow> Inl e
           | Inr rest \<Rightarrow> if hd probs \<le> thresh_prob then Inr rest else Inr ((pos, iter_start ! pos) # rest))"

text \<open>The name of the result of the source says ten; it is the mean of the last two times.\<close>

definition find_performance_drop ::
    "(rat list \<Rightarrow> rat list) \<Rightarrow> (rat list \<Rightarrow> nat option list \<times> rat list) \<Rightarrow> nat \<Rightarrow> rat list \<Rightarrow> nat \<Rightarrow> nat \<Rightarrow> rat
     \<Rightarrow> ((nat \<times> rat) list \<times> rat) py_result" where
  "find_performance_drop zscore beast num_calls call_time period start thresh_prob =
     (if period = 0 then Inl ValueError
      else
        let its = iterations call_time period (range_by start num_calls period);
            (ts, iter_start) = remove_outliers zscore (map fst its) (map snd its);
            last_ts = drop (length ts - 2) ts;
            last_10_avg_ts = sum_list last_ts / of_nat (length last_ts)
        in if ts = [] then Inl ValueError
           else case beast ts of
                  (positions, probs) \<Rightarrow>
                    (case suspects thresh_prob iter_start positions probs of
                       Inl e \<Rightarrow> Inl e
                     | Inr cps \<Rightarrow>
                         (case validate_performance_drop ts iter_start cps 10 (1 / 10) of
                            Inl e \<Rightarrow> Inl e
                          | Inr rows \<Rightarrow> Inr (rows, last_10_avg_ts))))"

section \<open>Analysing the records\<close>

text \<open>
  \<open>detect_failslow\<close> and \<open>get_profile_results\<close> of \<open>local_analyzer.py\<close> on the rows of the record buffer. \<open>pandas\<close>
  groups the rows by a column in the order of the values; the columns are those of \<open>NcclRecord.attrs\<close>:
  0 the communicator, 1 the kind of call, 2 the count, 7 the time, 9 the rank, 11 the duration and 13
  the event.
\<close>

record analysis =
  an_event_ids :: "(int, int) dict"
  an_failslow :: "(int, (nat \<times> rat) list) dict"
  an_iter_time :: "rat list"

definition group_rows :: "nat \<Rightarrow> int list list \<Rightarrow> (int, int list list) dict" where
  "group_rows col rows = map (\<lambda>v. (v, filter (\<lambda>r. r ! col = v) rows)) (sorted_list_of_set ((\<lambda>r. r ! col) ` set rows))"

fun failslow_ranks ::
    "(int list \<Rightarrow> nat list) \<Rightarrow> (rat list \<Rightarrow> rat list) \<Rightarrow> (rat list \<Rightarrow> nat option list \<times> rat list) \<Rightarrow> (int, int list list) dict
     \<Rightarrow> analysis \<Rightarrow> analysis option py_result" where
  "failslow_ranks find_peaks zscore beast [] an = Inr (Some an)"
| "failslow_ranks find_peaks zscore beast ((rank, rows) # rest) an =
     (let rec = sort_key (\<lambda>r. r ! 13) rows;
          call_time = map (\<lambda>r. of_int (r ! 7)) rec;
          call_id = map (\<lambda>r. r ! 1) rec
      in case find_period find_peaks call_id of
           Inl e \<Rightarrow> Inl e
         | Inr (start, None) \<Rightarrow> Inr None
         | Inr (start, Some period) \<Rightarrow>
             (case find_performance_drop zscore beast (length call_id) call_time period (nat start) (8 / 10) of
                Inl e \<Rightarrow> Inl e
              | Inr (drops, iter_time) \<Rightarrow>
                  failslow_ranks find_peaks zscore beast rest
                    (an\<lparr>an_event_ids := AList.update rank (last rec ! 13) (an_event_ids an),
                        an_failslow := AList.update rank drops (an_failslow an),
                        an_iter_time := an_iter_time an @ [iter_time]\<rparr>)))"

definition detect_failslow ::
    "(int list \<Rightarrow> nat list) \<Rightarrow> (rat list \<Rightarrow> rat list) \<Rightarrow> (rat list \<Rightarrow> nat option list \<times> rat list) \<Rightarrow> int list list
     \<Rightarrow> analysis option py_result" where
  "detect_failslow find_peaks zscore beast records =
     failslow_ranks find_peaks zscore beast (group_rows 9 records)
       \<lparr>an_event_ids = [], an_failslow = [], an_iter_time = []\<rparr>"

text \<open>One period of a rank's rows after the other; the first one with durations is skipped.\<close>

fun profile_periods ::
    "int list list \<Rightarrow> nat \<Rightarrow> nat list \<Rightarrow> bool \<Rightarrow> (int, (int \<times> int) list) dict \<Rightarrow> (int, (int \<times> int) list) dict" where
  "profile_periods rows period [] record_iter comm_times = comm_times"
| "profile_periods rows period (i # is) record_iter comm_times =
     (let period_table = window rows i (i + period)
      in if i + period \<ge> length rows then profile_periods rows period is record_iter comm_times
         else if sum_list (map (\<lambda>r. r ! 11) period_table) = 0 then profile_periods rows period is record_iter comm_times
         else if \<not> record_iter then profile_periods rows period is True comm_times
         else profile_periods rows period is True
                (fold (\<lambda>(addr, sub). group_add addr (sum_list (map (\<lambda>r. r ! 2) sub), sum_list (map (\<lambda>r. r ! 11) sub)))
                   (group_rows 0 period_table) comm_times))"

fun profile_ranks ::
    "(int list \<Rightarrow> nat list) \<Rightarrow> (int, int list list) dict \<Rightarrow> (int, (int \<times> int) list) dict
     \<Rightarrow> (int, (int \<times> int) list) dict py_result" where
  "profile_ranks find_peaks [] comm_times = Inr comm_times"
| "profile_ranks find_peaks ((rank, rows) # rest) comm_times =
     (let rec = sort_key (\<lambda>r. r ! 13) rows
      in case find_period find_peaks (map (\<lambda>r. r ! 1) rec) of
           Inl e \<Rightarrow> Inl e
         | Inr (start, None) \<Rightarrow> Inl TypeError
         | Inr (start, Some period) \<Rightarrow>
             if period = 0 then Inl ValueError
             else profile_ranks find_peaks rest
                    (profile_periods rec period (range_by (nat start) (length rec) period) False comm_times))"

definition get_profile_results ::
    "(int list \<Rightarrow> nat list) \<Rightarrow> int list list \<Rightarrow> (int, (int \<times> int) list) dict py_result" where
  "get_profile_results find_peaks records = profile_ranks find_peaks (group_rows 9 records) []"

section \<open>The pattern is found where it first repeats\<close>

lemma dist_zero: "length a = length b \<Longrightarrow> dist_calls a b = Inr 0 \<longleftrightarrow> a = b"
proof -
  assume l: "length a = length b"
  have "length (filter (\<lambda>(a, b). a = b) (zip a b)) \<le> length a" using l by (metis length_filter_le length_zip min.idem)
  moreover have "length (filter (\<lambda>(a, b). a = b) (zip a b)) = length a \<longleftrightarrow> a = b"
  proof -
    have "length (filter (\<lambda>(a, b). a = b) (zip a b)) = length (zip a b) \<longleftrightarrow> (\<forall>(x, y)\<in>set (zip a b). x = y)"
      by (metis filter_id_conv length_filter_less nat_less_le)
    also have "\<dots> \<longleftrightarrow> a = b" using l by (auto simp: list_eq_iff_zip_eq)
    finally show ?thesis using l by simp
  qed
  ultimately show ?thesis using l by (auto simp: dist_calls_def)
qed

definition repeats_at :: "int list \<Rightarrow> nat \<Rightarrow> nat \<Rightarrow> bool" where
  "repeats_at seq p i \<longleftrightarrow> i + 2 * p \<le> length seq \<and> window seq i (i + p) = window seq (i + p) (i + 2 * p)"

lemma dist_window:
  assumes "0 < p" and "i < length seq"
  shows "i + 2 * p \<le> length seq \<Longrightarrow> dist_calls (window seq i (i + p)) (window seq (i + p) (i + 2 * p)) = Inr 0 \<longleftrightarrow> repeats_at seq p i"
    and "i + 2 * p \<le> length seq \<Longrightarrow> \<exists>d. dist_calls (window seq i (i + p)) (window seq (i + p) (i + 2 * p)) = Inr d"
    and "\<not> i + 2 * p \<le> length seq \<Longrightarrow> dist_calls (window seq i (i + p)) (window seq (i + p) (i + 2 * p)) = Inl AssertionError"
proof -
  have l: "length (window seq i (i + p)) = length (window seq (i + p) (i + 2 * p))" if "i + 2 * p \<le> length seq"
    using that by (simp add: window_def)
  show "dist_calls (window seq i (i + p)) (window seq (i + p) (i + 2 * p)) = Inr 0 \<longleftrightarrow> repeats_at seq p i"
    if "i + 2 * p \<le> length seq" using that dist_zero [OF l [OF that]] by (simp add: repeats_at_def)
  show "\<exists>d. dist_calls (window seq i (i + p)) (window seq (i + p) (i + 2 * p)) = Inr d"
    if "i + 2 * p \<le> length seq" using l [OF that] by (simp add: dist_calls_def)
  show "dist_calls (window seq i (i + p)) (window seq (i + p) (i + 2 * p)) = Inl AssertionError"
    if "\<not> i + 2 * p \<le> length seq" using that assms by (auto simp: dist_calls_def window_def)
qed

lemma pattern_start_spec:
  assumes "0 < p" and "k < length seq"
  shows "pattern_start seq p [k..<length seq] prev =
    (if \<exists>i\<ge>k. repeats_at seq p i then Inr (LEAST i. k \<le> i \<and> repeats_at seq p i) else Inl AssertionError)"
  using assms(2)
proof (induction "length seq - k" arbitrary: k prev)
  case (Suc n)
  note k = Suc.prems
  note d = dist_window [OF assms(1) k]
  have u: "[k..<length seq] = k # [Suc k..<length seq]" using k by (simp add: upt_conv_Cons)
  show ?case
  proof (cases "k + 2 * p \<le> length seq")
    case False
    then have "\<not> (\<exists>i\<ge>k. repeats_at seq p i)" by (auto simp: repeats_at_def)
    then show ?thesis using d(3) [OF False] by (simp add: u)
  next
    case True
    show ?thesis
    proof (cases "repeats_at seq p k")
      case rep: True
      then have "(LEAST i. k \<le> i \<and> repeats_at seq p i) = k" by (intro Least_equality) auto
      then show ?thesis using rep d(1) [OF True] by (auto simp: u)
    next
      case no: False
      obtain e where e: "dist_calls (window seq k (k + p)) (window seq (k + p) (k + 2 * p)) = Inr e" "e \<noteq> 0"
        using d(1,2) [OF True] no by auto
      have "Suc k < length seq" using True assms(1) k by linarith
      then have "pattern_start seq p [Suc k..<length seq] k =
          (if \<exists>i\<ge>Suc k. repeats_at seq p i then Inr (LEAST i. Suc k \<le> i \<and> repeats_at seq p i) else Inl AssertionError)"
        using Suc.hyps by (intro Suc.hyps(1)) auto
      moreover have "(Suc k \<le> i \<and> repeats_at seq p i) = (k \<le> i \<and> repeats_at seq p i)" for i
        using no by (cases "i = k") auto
      ultimately show ?thesis using e by (simp add: u)
    qed
  qed
qed simp

text \<open>
  C33. The repeating pattern. For a sequence of calls with a positive estimated period, the pattern is
  reported to start at the first position from which one period of calls is followed by the same
  period again; when no two adjacent periods of the sequence are equal, an assertion fails.
\<close>

theorem period_is_first_repeat:
  assumes "find_peaks seq = p # ps" and "0 < p" and "seq \<noteq> []"
  shows "find_period find_peaks seq =
    (if \<exists>i. repeats_at seq p i then Inr (int (LEAST i. repeats_at seq p i), Some p) else Inl AssertionError)"
  using pattern_start_spec [OF assms(2), of 0 seq 0] assms by (simp add: find_period_def)

theorem period_is_first_repeat_witness:
  "find_period (\<lambda>seq. [2]) [9, 1, 2, 1, 2, 1] = Inr (1, Some 2)"
proof -
  let ?s = "[9, 1, 2, 1, 2, 1] :: int list"
  have "repeats_at ?s 2 1" "\<not> repeats_at ?s 2 0" by code_simp+
  then have "(LEAST i. repeats_at ?s 2 i) = 1"
    by (intro Least_equality) (auto simp: Suc_le_eq intro: gr0I)
  then show ?thesis using period_is_first_repeat [of "\<lambda>seq. [2]" ?s 2 "[]"] \<open>repeats_at ?s 2 1\<close> by auto
qed

section \<open>Validated change points\<close>








end
