(* ===== verification/Redis_Client.thy ===== *)
theory Redis_Client
  imports Py_Strings
begin

text \<open>
  The store through which the parts of the Greyhound detector talk. The Redis client and server are not
  part of the program: a client is a record of operations on a store of any type, and what the
  code relies on is the hypothesis \<open>redis_laws\<close>: a key holds the value set last, operations on other
  keys and on lists do not disturb it, a scan lists the keys with a prefix (in any order, perhaps
  repeatedly), and a list holds the pushed values in order. Texts of floats are read and written by two
  functions with the hypothesis \<open>float_text\<close> that reading undoes writing and that they have no underscore.
  What other processes do to the store while a call sleeps is an argument, too.
\<close>

record 'st redis_client =
  rc_get :: "string \<Rightarrow> 'st \<Rightarrow> string option"
  rc_set :: "string \<Rightarrow> string \<Rightarrow> 'st \<Rightarrow> 'st"
  rc_delete :: "string \<Rightarrow> 'st \<Rightarrow> 'st"
  rc_lrange :: "string \<Rightarrow> 'st \<Rightarrow> string list"
  rc_rpush :: "string \<Rightarrow> string \<Rightarrow> 'st \<Rightarrow> 'st"
  rc_clear_list :: "string \<Rightarrow> 'st \<Rightarrow> 'st"
  rc_scan :: "string \<Rightarrow> 'st \<Rightarrow> string list"

definition redis_laws :: "'st redis_client \<Rightarrow> bool" where
  "redis_laws rc \<longleftrightarrow>
     (\<forall>k v k' st. rc_get rc k' (rc_set rc k v st) = (if k' = k then Some v else rc_get rc k' st)) \<and>
     (\<forall>k k' st. rc_get rc k' (rc_delete rc k st) = (if k' = k then None else rc_get rc k' st)) \<and>
     (\<forall>k v k' st. rc_get rc k' (rc_rpush rc k v st) = rc_get rc k' st) \<and>
     (\<forall>k k' st. rc_get rc k' (rc_clear_list rc k st) = rc_get rc k' st) \<and>
     (\<forall>k v k' st. rc_lrange rc k' (rc_set rc k v st) = rc_lrange rc k' st) \<and>
     (\<forall>k k' st. rc_lrange rc k' (rc_delete rc k st) = rc_lrange rc k' st) \<and>
     (\<forall>k v k' st. rc_lrange rc k' (rc_rpush rc k v st) = rc_lrange rc k' st @ (if k' = k then [v] else [])) \<and>
     (\<forall>k k' st. rc_lrange rc k' (rc_clear_list rc k st) = (if k' = k then [] else rc_lrange rc k' st)) \<and>
     (\<forall>p st. set (rc_scan rc p st) = {k. take (length p) k = p \<and> rc_get rc k st \<noteq> None})"

named_theorems redis_simps \<open>reading the store after an operation\<close>

lemma redis_after [redis_simps]:
  assumes "redis_laws rc"
  shows "rc_get rc k' (rc_set rc k v st) = (if k' = k then Some v else rc_get rc k' st)"
    and "rc_get rc k' (rc_delete rc k st) = (if k' = k then None else rc_get rc k' st)"
    and "rc_get rc k' (rc_rpush rc k v st) = rc_get rc k' st"
    and "rc_get rc k' (rc_clear_list rc k st) = rc_get rc k' st"
    and "rc_lrange rc k' (rc_set rc k v st) = rc_lrange rc k' st"
    and "rc_lrange rc k' (rc_delete rc k st) = rc_lrange rc k' st"
    and "rc_lrange rc k' (rc_rpush rc k v st) = rc_lrange rc k' st @ (if k' = k then [v] else [])"
    and "rc_lrange rc k' (rc_clear_list rc k st) = (if k' = k then [] else rc_lrange rc k' st)"
    and "set (rc_scan rc p st) = {k. take (length p) k = p \<and> rc_get rc k st \<noteq> None}"
  using assms by (simp_all only: redis_laws_def)

text \<open>\<open>client.get(key).decode()\<close>: a missing key gives \<open>None\<close>, which has no attribute \<open>decode\<close>.\<close>

definition redis_text :: "'st redis_client \<Rightarrow> string \<Rightarrow> 'st \<Rightarrow> string py_result" where
  "redis_text rc key st = (case rc_get rc key st of None \<Rightarrow> Inl AttributeError | Some v \<Rightarrow> Inr v)"

definition redis_int :: "'st redis_client \<Rightarrow> string \<Rightarrow> 'st \<Rightarrow> int py_result" where
  "redis_int rc key st = (case redis_text rc key st of Inl e \<Rightarrow> Inl e | Inr s \<Rightarrow> py_int_str s)"

record float_io =
  fl_parse :: "string \<Rightarrow> rat py_result"
  fl_print :: "rat \<Rightarrow> string"

definition float_text :: "float_io \<Rightarrow> bool" where
  "float_text fl \<longleftrightarrow> (\<forall>x. fl_parse fl (fl_print fl x) = Inr x \<and> CHR ''_'' \<notin> set (fl_print fl x))"

definition redis_float :: "'st redis_client \<Rightarrow> float_io \<Rightarrow> string \<Rightarrow> 'st \<Rightarrow> rat py_result" where
  "redis_float rc fl key st = (case redis_text rc key st of Inl e \<Rightarrow> Inl e | Inr s \<Rightarrow> fl_parse fl s)"

section \<open>Waiting\<close>

text \<open>
  A call that sleeps and polls gets the list of what the other processes do to the store in each of its
  sleeps. It returns with the part of the list that is left and with the store; \<open>None\<close> is a call that
  still waits when the list is used up.
\<close>

type_synonym 'st env = "('st \<Rightarrow> 'st) list"

type_synonym ('st, 'a) waiting = "('st env \<times> 'st, 'a) py_run option"

definition wait_then :: "('st, 'a) waiting \<Rightarrow> ('a \<Rightarrow> 'st env \<Rightarrow> 'st \<Rightarrow> ('st, 'b) waiting) \<Rightarrow> ('st, 'b) waiting" where
  "wait_then m f =
     (case m of
        None \<Rightarrow> None
      | Some (Inl e, es) \<Rightarrow> Some (Inl e, es)
      | Some (Inr x, (env, st)) \<Rightarrow> f x env st)"

lemma wait_then_simps [simp]:
  "wait_then None f = None"
  "wait_then (Some (Inl e, es)) f = Some (Inl e, es)"
  "wait_then (Some (Inr x, env, st)) f = f x env st"
  by (simp_all add: wait_then_def)

lemma wait_then_cases:
  assumes "wait_then m f = Some (r, env', st')"
  obtains (raised) e where "m = Some (Inl e, env', st')" and "r = Inl e"
  | (returned) x env1 st1 where "m = Some (Inr x, env1, st1)" and "f x env1 st1 = Some (r, env', st')"
  using assms by (auto simp: wait_then_def split: option.splits prod.splits sum.splits)

text \<open>\<open>time.sleep\<close>.\<close>

definition sleep_once :: "'st env \<Rightarrow> 'st \<Rightarrow> ('st, unit) waiting" where
  "sleep_once env st = (case env of [] \<Rightarrow> None | others # env' \<Rightarrow> Some (Inr (), env', others st))"

section \<open>A store that follows the laws\<close>

text \<open>
  A pair of ordered dictionaries, and floats printed as a fraction: the hypotheses can be met. The
  witnesses of the theorems about the detector run on them.
\<close>

type_synonym dict_store = "(string, string) dict \<times> (string, string list) dict"

definition dict_client :: "dict_store redis_client" where
  "dict_client =
     \<lparr>rc_get = (\<lambda>k st. map_of (fst st) k),
      rc_set = (\<lambda>k v st. (AList.update k v (fst st), snd st)),
      rc_delete = (\<lambda>k st. (AList.delete k (fst st), snd st)),
      rc_lrange = (\<lambda>k st. dict_get (snd st) k []),
      rc_rpush = (\<lambda>k v st. (fst st, AList.update k (dict_get (snd st) k [] @ [v]) (snd st))),
      rc_clear_list = (\<lambda>k st. (fst st, AList.delete k (snd st))),
      rc_scan = (\<lambda>p st. filter (\<lambda>k. take (length p) k = p) (map fst (fst st)))\<rparr>"

lemma dict_client_laws: "redis_laws dict_client"
  by (auto simp: redis_laws_def dict_client_def update_conv' delete_conv' dict_get_def map_of_eq_None_iff)

definition fraction_io :: float_io where
  "fraction_io =
     \<lparr>fl_parse = (\<lambda>s. case py_split (CHR ''/'') s of
         [a, b] \<Rightarrow> (case py_int_str a of Inl e \<Rightarrow> Inl e
                  | Inr p \<Rightarrow> (case py_int_str b of Inl e \<Rightarrow> Inl e | Inr q \<Rightarrow> Inr (of_int p / of_int q)))
       | _ \<Rightarrow> Inl ValueError),
      fl_print = (\<lambda>x. py_join (CHR ''/'') [py_str_int (fst (quotient_of x)), py_str_int (snd (quotient_of x))])\<rparr>"

lemma fraction_io_text: "float_text fraction_io"
proof -
  have "fl_parse fraction_io (fl_print fraction_io x) = Inr x \<and> CHR ''_'' \<notin> set (fl_print fraction_io x)" for x
  proof -
    obtain p q where pq: "quotient_of x = (p, q)" by fastforce
    have no: "CHR ''/'' \<notin> set (py_str_int i)" "CHR ''_'' \<notin> set (py_str_int i)" for i
      using printed_chars [of "CHR ''/''" i] printed_chars [of "CHR ''_''" i] by (auto simp: py_digit_def)
    then have "py_split (CHR ''/'') (py_join (CHR ''/'') [py_str_int p, py_str_int q]) = [py_str_int p, py_str_int q]"
      by (intro split_join) auto
    moreover have "x = of_int p / of_int q" using pq by (rule quotient_of_div)
    ultimately show ?thesis using pq no by (simp add: fraction_io_def int_of_printed)
  qed
  then show ?thesis by (simp add: float_text_def)
qed

end
