(* ===== verification/Local_Control.thy ===== *)
theory Local_Control
  imports Slow_Detection Redis_Client
begin

text \<open>
  \<open>detector/control_plane/local_controller.py\<close>: one round of the monitoring loop of a node's controller, on
  the results of the analysis of its record buffer: ranks that stopped, ranks that became slow, the
  estimated iteration time, and how to go on. The sleeps and the waiting for the global controller are
  between the rounds. An exception ends the round and is logged; what the round had written stays.
\<close>

section \<open>The controller\<close>

record 'st local_controller =
  lc_prev_event_ids :: "(int, int) dict"
  lc_reported :: "string set"
  lc_client :: 'st

definition detect_failstop :: "(int, int) dict \<Rightarrow> (int, int) dict \<Rightarrow> int list" where
  "detect_failstop prev_event_ids cur_event_ids =
     (if length prev_event_ids = 0 then []
      else filter (\<lambda>rank. case map_of cur_event_ids rank of
                     None \<Rightarrow> True
                   | Some ev \<Rightarrow> map_of prev_event_ids rank = Some ev) (map fst prev_event_ids))"

definition failslow_iter_id :: "int \<Rightarrow> nat \<Rightarrow> string" where
  "failslow_iter_id rank i = py_str_int rank @ ''_'' @ nat_digits i"

fun report_failslow ::
    "'st redis_client \<Rightarrow> int \<Rightarrow> (nat \<times> rat) list \<Rightarrow> 'st local_controller \<Rightarrow> 'st local_controller" where
  "report_failslow rc rank [] s = s"
| "report_failslow rc rank (r # rows) s =
     (if failslow_iter_id rank (fst r) \<in> lc_reported s then report_failslow rc rank rows s
      else report_failslow rc rank rows
             (s\<lparr>lc_reported := insert (failslow_iter_id rank (fst r)) (lc_reported s),
                lc_client := rc_rpush rc ''failslow_ranks'' (py_str_int rank) (lc_client s)\<rparr>))"

text \<open>
  A stopped rank is pushed when its text is not in the list read from the store. The list holds byte
  strings, and a text is never equal to one, so the rank is pushed in every round.
\<close>

definition report_failstop :: "'st redis_client \<Rightarrow> int list \<Rightarrow> 'st \<Rightarrow> 'st" where
  "report_failstop rc ranks st = fold (\<lambda>r. rc_rpush rc ''failstop_ranks'' (py_str_int r)) ranks st"

fun report_all_failslow ::
    "'st redis_client \<Rightarrow> (int, (nat \<times> rat) list) dict \<Rightarrow> 'st local_controller \<Rightarrow> 'st local_controller" where
  "report_all_failslow rc [] s = s"
| "report_all_failslow rc ((rank, rows) # rest) s =
     report_all_failslow rc rest (if rows \<noteq> [] then report_failslow rc rank rows s else s)"

text \<open>The durations of one communicator; \<open>std\<close> is the standard deviation of \<open>numpy\<close>.\<close>

fun report_profiling_result ::
    "'st redis_client \<Rightarrow> float_io \<Rightarrow> (rat list \<Rightarrow> rat) \<Rightarrow> (int, (int \<times> int) list) dict \<Rightarrow> 'st local_controller
     \<Rightarrow> ('st local_controller, unit) py_run" where
  "report_profiling_result rc fl std [] s = (Inr (), s)"
| "report_profiling_result rc fl std ((comm_addr, comm_array) # rest) s =
     (let ds = map (of_int \<circ> snd) comm_array
      in if ds = [] then (Inl ValueError, s)
         else report_profiling_result rc fl std rest
                (s\<lparr>lc_client := rc_set rc (''Perf_'' @ py_str_int comm_addr)
                   (py_join (CHR ''_'') [fl_print fl (Min (set ds)), fl_print fl (Max (set ds)),
                      fl_print fl (sum_list ds / of_nat (length ds)), fl_print fl (std ds)]) (lc_client s)\<rparr>))"

text \<open>The estimated iteration time in microseconds is stored in milliseconds.\<close>

definition update_iter_time ::
    "'st redis_client \<Rightarrow> float_io \<Rightarrow> rat list \<Rightarrow> 'st \<Rightarrow> ('st, unit) py_run" where
  "update_iter_time rc fl vals st =
     (if vals = [] then (Inl ValueError, st)
      else
        let minval = Min (set vals)
        in case (case rc_get rc ''min_iter_time'' st of
                   None \<Rightarrow> Inr None
                 | Some t \<Rightarrow> (case fl_parse fl t of Inl e \<Rightarrow> Inl e | Inr x \<Rightarrow> Inr (Some x))) of
             Inl e \<Rightarrow> (Inl e, st)
           | Inr cur_min \<Rightarrow>
               (let st1 = rc_set rc ''cur_iter_time'' (fl_print fl (minval / 1000)) st
                in (Inr (), if (case cur_min of None \<Rightarrow> True | Some c \<Rightarrow> minval < c)
                            then rc_set rc ''min_iter_time'' (fl_print fl (minval / 1000)) st1 else st1)))"

datatype local_mode = Monitoring | Profiling | Waiting

definition monitor_round ::
    "'st redis_client \<Rightarrow> float_io \<Rightarrow> analysis option \<Rightarrow> 'st local_controller \<Rightarrow> ('st local_controller, local_mode) py_run" where
  "monitor_round rc fl results s =
     (case results of
        None \<Rightarrow> (Inr Monitoring, s)
      | Some an \<Rightarrow>
          (let stopped = detect_failstop (lc_prev_event_ids s) (an_event_ids an);
               s1 = s\<lparr>lc_client := report_failstop rc stopped (lc_client s), lc_prev_event_ids := an_event_ids an\<rparr>;
               s2 = report_all_failslow rc (an_failslow an) s1;
               failed_slow = list_ex (\<lambda>(rank, rows). rows \<noteq> []) (an_failslow an)
           in case update_iter_time rc fl (an_iter_time an) (lc_client s2) of
                (Inl e, st) \<Rightarrow> (Inl e, s2\<lparr>lc_client := st\<rparr>)
              | (Inr _, st) \<Rightarrow>
                  (case redis_text rc ''control_state'' st of
                     Inl e \<Rightarrow> (Inl e, s2\<lparr>lc_client := st\<rparr>)
                   | Inr curr_state \<Rightarrow>
                       (Inr (if failed_slow \<or> curr_state = ''1'' then Profiling
                             else if curr_state = ''2'' then Waiting else Monitoring),
                        s2\<lparr>lc_client := st\<rparr>))))"

text \<open>After profiling or waiting the record buffer is cleared too.\<close>

definition resume_monitoring :: "'st local_controller \<Rightarrow> 'st local_controller" where
  "resume_monitoring s = s\<lparr>lc_reported := {}\<rparr>"

section \<open>Each slow iteration is reported once\<close>

lemma report_failslow_keeps:
  assumes "redis_laws rc"
  shows "lc_prev_event_ids (report_failslow rc rank rows s) = lc_prev_event_ids s \<and>
    rc_get rc key (lc_client (report_failslow rc rank rows s)) = rc_get rc key (lc_client s)"
  by (induction rows arbitrary: s) (simp_all add: redis_simps [OF assms])

text \<open>
  Slow iterations are reported once. Reporting the change points of a rank pushes the rank once for
  every change point of it that was not reported before, and remembers them, so that reporting the
  same points in later rounds pushes nothing until monitoring is resumed.
\<close>

theorem failslow_reported_once:
  fixes s :: "'st local_controller" and rank :: int and rows :: "(nat \<times> rat) list"
  assumes "redis_laws rc"
  defines "ids \<equiv> failslow_iter_id rank ` fst ` set rows"
  defines "s' \<equiv> report_failslow rc rank rows s"
  shows "rc_lrange rc ''failslow_ranks'' (lc_client s') =
      rc_lrange rc ''failslow_ranks'' (lc_client s) @ replicate (card (ids - lc_reported s)) (py_str_int rank) \<and>
    lc_reported s' = lc_reported s \<union> ids \<and> report_failslow rc rank rows s' = s'"
proof -
  have once: "rc_lrange rc ''failslow_ranks'' (lc_client (report_failslow rc rank rows s)) =
      rc_lrange rc ''failslow_ranks'' (lc_client s) @
        replicate (card (failslow_iter_id rank ` fst ` set rows - lc_reported s)) (py_str_int rank) \<and>
    lc_reported (report_failslow rc rank rows s) = lc_reported s \<union> failslow_iter_id rank ` fst ` set rows" for rows s
  proof (induction rows arbitrary: s)
    case (Cons r rows)
    let ?i = "failslow_iter_id rank (fst r)"
    show ?case
    proof (cases "?i \<in> lc_reported s")
      case True
      then show ?thesis using Cons [of s] by (auto simp: insert_Diff_if)
    next
      case False
      let ?I = "failslow_iter_id rank ` fst ` set rows"
      have "card (insert ?i ?I - lc_reported s) = Suc (card (?I - insert ?i (lc_reported s)))"
      proof -
        have "insert ?i ?I - lc_reported s = insert ?i (?I - insert ?i (lc_reported s))" using False by auto
        then show ?thesis by simp
      qed
      then show ?thesis using False Cons [of "s\<lparr>lc_reported := insert ?i (lc_reported s),
          lc_client := rc_rpush rc ''failslow_ranks'' (py_str_int rank) (lc_client s)\<rparr>"]
        by (auto simp: redis_simps [OF assms(1)])
    qed
  qed simp
  have again: "report_failslow rc rank rows s = s" if "failslow_iter_id rank ` fst ` set rows \<subseteq> lc_reported s" for rows s
    using that by (induction rc rank rows s rule: report_failslow.induct) auto
  show ?thesis unfolding s'_def ids_def using once [of rows s] again [of rows "report_failslow rc rank rows s"] by simp
qed

definition demo_local :: "dict_store local_controller" where
  "demo_local = \<lparr>lc_prev_event_ids = [], lc_reported = {}, lc_client = ([(''control_state'', ''0'')], [])\<rparr>"

theorem failslow_reported_once_witness:
  "rc_lrange dict_client ''failslow_ranks'' (lc_client (report_failslow dict_client 3 [(20, 0), (40, 0), (20, 0)] demo_local)) =
     [''3'', ''3'']"
proof -
  have "failslow_iter_id 3 20 = ''3_20''" "failslow_iter_id 3 40 = ''3_40''" and p: "py_str_int 3 = ''3''" by code_simp+
  then have "failslow_iter_id 3 ` fst ` set [(20, 0), (40, 0), (20, 0)] = {''3_20'', ''3_40''}" by auto
  then have c: "card (failslow_iter_id 3 ` fst ` set [(20, 0), (40, 0), (20, 0)] - lc_reported demo_local) = 2"
    by (simp add: demo_local_def)
  have "rc_lrange dict_client ''failslow_ranks'' (lc_client demo_local) = []"
    by (simp add: demo_local_def dict_client_def dict_get_def)
  with failslow_reported_once [OF dict_client_laws, of 3 "[(20, 0), (40, 0), (20, 0)]" demo_local, unfolded c]
  show ?thesis by (simp only: p) (simp add: numeral_2_eq_2)
qed

section \<open>The normal iteration time\<close>

lemma failstop_get: "redis_laws rc \<Longrightarrow> rc_get rc key (report_failstop rc ranks st) = rc_get rc key st"
  unfolding report_failstop_def by (induction ranks arbitrary: st) (simp_all add: redis_simps)

lemma failslow_get:
  assumes "redis_laws rc"
  shows "rc_get rc key (lc_client (report_all_failslow rc evs s)) = rc_get rc key (lc_client s)"
  by (induction evs arbitrary: s) (use report_failslow_keeps [OF assms] in auto)

lemma update_iter_time_min:
  assumes "redis_laws rc" and "float_text fl" and "vals \<noteq> []"
  shows "rc_get rc ''min_iter_time'' st = None \<Longrightarrow>
      rc_get rc ''min_iter_time'' (snd (update_iter_time rc fl vals st)) = Some (fl_print fl (Min (set vals) / 1000))"
    and "rc_get rc ''min_iter_time'' st = Some (fl_print fl c) \<Longrightarrow>
      rc_get rc ''min_iter_time'' (snd (update_iter_time rc fl vals st)) =
        Some (fl_print fl (if Min (set vals) < c then Min (set vals) / 1000 else c))"
  using assms by (auto simp: update_iter_time_def Let_def redis_simps float_text_def)

lemma monitor_round_min:
  assumes "redis_laws rc"
  shows "\<exists>st. (\<forall>k. rc_get rc k st = rc_get rc k (lc_client s)) \<and>
    rc_get rc ''min_iter_time'' (lc_client (snd (monitor_round rc fl (Some an) s))) =
    rc_get rc ''min_iter_time'' (snd (update_iter_time rc fl (an_iter_time an) st))"
proof -
  let ?s1 = "s\<lparr>lc_client := report_failstop rc (detect_failstop (lc_prev_event_ids s) (an_event_ids an)) (lc_client s),
      lc_prev_event_ids := an_event_ids an\<rparr>"
  let ?st = "lc_client (report_all_failslow rc (an_failslow an) ?s1)"
  have "rc_get rc k ?st = rc_get rc k (lc_client s)" for k
    using failslow_get [OF assms, of k "an_failslow an" ?s1] failstop_get [OF assms] by simp
  moreover have "lc_client (snd (monitor_round rc fl (Some an) s)) = snd (update_iter_time rc fl (an_iter_time an) ?st)"
    by (auto simp: monitor_round_def Let_def split: prod.splits sum.splits)
  ultimately show ?thesis by (intro exI [of _ ?st]) simp
qed

lemma min_stays:
  assumes "redis_laws rc" and "float_text fl"
    and "\<forall>an\<in>set later. an_iter_time an \<noteq> [] \<and> c \<le> Min (set (an_iter_time an))"
    and "rc_get rc ''min_iter_time'' (lc_client s) = Some (fl_print fl c)"
  shows "rc_get rc ''min_iter_time'' (lc_client (fold (\<lambda>an s. snd (monitor_round rc fl (Some an) s)) later s)) = Some (fl_print fl c)"
  using assms(3,4)
proof (induction later arbitrary: s)
  case (Cons an later)
  obtain st where st: "\<forall>k. rc_get rc k st = rc_get rc k (lc_client s)"
    "rc_get rc ''min_iter_time'' (lc_client (snd (monitor_round rc fl (Some an) s))) =
     rc_get rc ''min_iter_time'' (snd (update_iter_time rc fl (an_iter_time an) st))"
    using monitor_round_min [OF assms(1)] by blast
  have "rc_get rc ''min_iter_time'' (lc_client (snd (monitor_round rc fl (Some an) s))) = Some (fl_print fl c)"
    using update_iter_time_min(2) [OF assms(1,2), of "an_iter_time an" st c] Cons.prems st by auto
  then have "rc_get rc ''min_iter_time'' (lc_client (fold (\<lambda>an s. snd (monitor_round rc fl (Some an) s)) later
      (snd (monitor_round rc fl (Some an) s)))) = Some (fl_print fl c)"
    using Cons.prems(1) by (intro Cons.IH) auto
  then show ?case by simp
qed simp

text \<open>
  The normal iteration time is never improved. The stored minimum is in milliseconds but compared with
  times in microseconds: from the first round on it stays what that round measured, however much
  faster later iterations are, as long as none is a thousand times faster.
\<close>

theorem min_iter_time_stuck:
  fixes s :: "'st local_controller"
  assumes "redis_laws rc" and "float_text fl" and "rc_get rc ''min_iter_time'' (lc_client s) = None"
    and "an_iter_time first \<noteq> []"
    and "\<forall>an\<in>set later. an_iter_time an \<noteq> [] \<and> Min (set (an_iter_time first)) / 1000 \<le> Min (set (an_iter_time an))"
  shows "rc_get rc ''min_iter_time'' (lc_client (fold (\<lambda>an s. snd (monitor_round rc fl (Some an) s)) (first # later) s)) =
    Some (fl_print fl (Min (set (an_iter_time first)) / 1000))"
proof -
  obtain st where st: "\<forall>k. rc_get rc k st = rc_get rc k (lc_client s)"
    "rc_get rc ''min_iter_time'' (lc_client (snd (monitor_round rc fl (Some first) s))) =
     rc_get rc ''min_iter_time'' (snd (update_iter_time rc fl (an_iter_time first) st))"
    using monitor_round_min [OF assms(1)] by blast
  have "rc_get rc ''min_iter_time'' (lc_client (snd (monitor_round rc fl (Some first) s))) =
      Some (fl_print fl (Min (set (an_iter_time first)) / 1000))"
    using update_iter_time_min(1) [OF assms(1,2,4), of st] assms(3) st by simp
  from min_stays [OF assms(1,2,5) this] show ?thesis by simp
qed

definition demo_analysis :: "rat \<Rightarrow> analysis" where
  "demo_analysis t = \<lparr>an_event_ids = [], an_failslow = [], an_iter_time = [t]\<rparr>"

theorem min_iter_time_stuck_witness:
  "rc_get dict_client ''min_iter_time'' (lc_client (fold (\<lambda>an s. snd (monitor_round dict_client fraction_io (Some an) s))
     [demo_analysis 5000000, demo_analysis 2000000] demo_local)) = Some (fl_print fraction_io 5000)"
proof -
  have "rc_get dict_client ''min_iter_time'' (lc_client demo_local) = None" by (simp add: dict_client_def demo_local_def)
  from min_iter_time_stuck [OF dict_client_laws fraction_io_text this, of "demo_analysis 5000000" "[demo_analysis 2000000]"]
  show ?thesis by (simp add: demo_analysis_def)
qed

end
