(* ===== verification/Nccl_Comm.thy ===== *)
theory Nccl_Comm
  imports Py_Prelude "HOL-Library.Word"
begin

text \<open>
  \<open>greyhound-metax/detector/control_plane/communicator.py\<close>: the communicators of a training job, which
  the probe in each training process writes to the shared store as raw bytes
  (\<open>Communicator::serialize\<close> of \<open>detector/shm_topo.cpp\<close>, on a little-endian machine) and the global
  controller reads with \<open>struct.unpack\<close>. Python integers are \<open>int\<close>; the widths of the fields appear in
  the byte formats.
\<close>

section \<open>The unpacked objects\<close>

record ring_node =
  rn_prev :: int
  rn_next :: int
  rn_user_ranks :: int
  rn_index :: int

record tree_node =
  tn_depth :: int
  tn_up :: int
  tn_down :: "int list"

record communicator =
  cm_id_hash :: int
  cm_num_channels :: int
  cm_last_ring_id :: int
  cm_last_tree_id :: int
  cm_comm_addr :: int
  cm_num_devices :: int
  cm_global_rank :: int
  cm_local_rank :: int
  cm_group_rank :: int
  cm_rings :: "ring_node list"
  cm_trees :: "tree_node list"

definition MAXCHANNELS :: nat where
  "MAXCHANNELS = 32"

definition NCCL_MAX_TREE_ARITY :: nat where
  "NCCL_MAX_TREE_ARITY = 3"

definition ring_node_size :: nat where
  "ring_node_size = 4 + 4 + 8 + 4 + 4"

definition tree_node_size :: nat where
  "tree_node_size = 4 + 4 + 4 * NCCL_MAX_TREE_ARITY"

section \<open>Unpacking\<close>

type_synonym bytes = "8 word list"

text \<open>
  \<open>struct.unpack\<close> with the format letters \<open>Q\<close> (eight bytes, unsigned) and \<open>i\<close> (four bytes, signed). In
  the three formats the code uses every \<open>Q\<close> starts at a multiple of eight, so that the native alignment
  adds no padding. Data of any other length than the format asks for raises.
\<close>

datatype format = FQ | Fi

fun format_size :: "format \<Rightarrow> nat" where
  "format_size FQ = 8"
| "format_size Fi = 4"

fun le_nat :: "bytes \<Rightarrow> nat" where
  "le_nat [] = 0"
| "le_nat (b # bs) = unat b + 256 * le_nat bs"

fun field_value :: "format \<Rightarrow> bytes \<Rightarrow> int" where
  "field_value FQ bs = int (le_nat bs)"
| "field_value Fi bs = sint (of_nat (le_nat bs) :: 32 word)"

fun unpack_fields :: "format list \<Rightarrow> bytes \<Rightarrow> int list" where
  "unpack_fields [] bs = []"
| "unpack_fields (f # fs) bs =
     field_value f (take (format_size f) bs) # unpack_fields fs (drop (format_size f) bs)"

definition struct_unpack :: "format list \<Rightarrow> bytes \<Rightarrow> int list py_result" where
  "struct_unpack fs bs =
     (if length bs = sum_list (map format_size fs) then Inr (unpack_fields fs bs) else Inl StructError)"

definition slice :: "bytes \<Rightarrow> nat \<Rightarrow> nat \<Rightarrow> bytes" where
  "slice bs from to = take (to - from) (drop from bs)"

definition ring_format :: "format list" where
  "ring_format = [Fi, Fi, FQ, Fi, Fi]"

definition tree_format :: "format list" where
  "tree_format = [Fi, Fi, Fi, Fi, Fi]"

definition header_format :: "format list" where
  "header_format = [FQ, FQ, FQ, FQ, FQ, Fi, Fi, Fi, Fi]"

text \<open>The two loops over the channels; the position moves on by the size of one node.\<close>

fun read_rings :: "nat \<Rightarrow> nat \<Rightarrow> bytes \<Rightarrow> (ring_node list \<times> nat) py_result" where
  "read_rings 0 pos data = Inr ([], pos)"
| "read_rings (Suc k) pos data =
     (case struct_unpack ring_format (slice data pos (pos + ring_node_size)) of
        Inl e \<Rightarrow> Inl e
      | Inr ring_data \<Rightarrow>
          (case read_rings k (pos + ring_node_size) data of
             Inl e \<Rightarrow> Inl e
           | Inr (rings, pos') \<Rightarrow>
               Inr (\<lparr>rn_prev = ring_data ! 0, rn_next = ring_data ! 1, rn_user_ranks = ring_data ! 2,
                     rn_index = ring_data ! 3\<rparr> # rings, pos')))"

fun read_trees :: "nat \<Rightarrow> nat \<Rightarrow> bytes \<Rightarrow> (tree_node list \<times> nat) py_result" where
  "read_trees 0 pos data = Inr ([], pos)"
| "read_trees (Suc k) pos data =
     (case struct_unpack tree_format (slice data pos (pos + tree_node_size)) of
        Inl e \<Rightarrow> Inl e
      | Inr tree_data \<Rightarrow>
          let down = drop 2 tree_data
          in if length down \<noteq> NCCL_MAX_TREE_ARITY then Inl AssertionError
             else case read_trees k (pos + tree_node_size) data of
                    Inl e \<Rightarrow> Inl e
                  | Inr (trees, pos') \<Rightarrow>
                      Inr (\<lparr>tn_depth = tree_data ! 0, tn_up = tree_data ! 1, tn_down = down\<rparr> # trees, pos'))"

definition deserialize_communicator_from_redis :: "bytes \<Rightarrow> communicator py_result" where
  "deserialize_communicator_from_redis data =
     (case struct_unpack header_format (take 56 data) of
        Inl e \<Rightarrow> Inl e
      | Inr h \<Rightarrow>
          (case read_rings MAXCHANNELS 56 data of
             Inl e \<Rightarrow> Inl e
           | Inr (rings, pos) \<Rightarrow>
               (case read_trees MAXCHANNELS pos data of
                  Inl e \<Rightarrow> Inl e
                | Inr (trees, pos') \<Rightarrow>
                    Inr \<lparr>cm_id_hash = h ! 0, cm_num_channels = h ! 1, cm_last_ring_id = h ! 2,
                         cm_last_tree_id = h ! 3, cm_comm_addr = h ! 4, cm_num_devices = h ! 5,
                         cm_global_rank = h ! 6, cm_local_rank = h ! 7, cm_group_rank = h ! 8,
                         cm_rings = rings, cm_trees = trees\<rparr>)))"

section \<open>Serialising in the training process\<close>

text \<open>
  The writer dumps its fields and the two channel arrays as they are in memory. A ring structure ends
  with four bytes of padding, whose content the language leaves open: \<open>pad i\<close> for channel \<open>i\<close>.
\<close>

fun le_bytes :: "nat \<Rightarrow> nat \<Rightarrow> bytes" where
  "le_bytes 0 n = []"
| "le_bytes (Suc k) n = of_nat n # le_bytes k (n div 256)"

fun field_bytes :: "format \<Rightarrow> int \<Rightarrow> bytes" where
  "field_bytes FQ v = le_bytes 8 (nat v)"
| "field_bytes Fi v = le_bytes 4 (unat (of_int v :: 32 word))"

definition ring_bytes :: "bytes \<Rightarrow> ring_node \<Rightarrow> bytes" where
  "ring_bytes padding r =
     field_bytes Fi (rn_prev r) @ field_bytes Fi (rn_next r) @ field_bytes FQ (rn_user_ranks r) @
     field_bytes Fi (rn_index r) @ padding"

definition tree_bytes :: "tree_node \<Rightarrow> bytes" where
  "tree_bytes t = field_bytes Fi (tn_depth t) @ field_bytes Fi (tn_up t) @ concat (map (field_bytes Fi) (tn_down t))"

definition serialize :: "(nat \<Rightarrow> bytes) \<Rightarrow> communicator \<Rightarrow> bytes" where
  "serialize pad c =
     field_bytes FQ (cm_id_hash c) @ field_bytes FQ (cm_num_channels c) @ field_bytes FQ (cm_last_ring_id c) @
     field_bytes FQ (cm_last_tree_id c) @ field_bytes FQ (cm_comm_addr c) @ field_bytes Fi (cm_num_devices c) @
     field_bytes Fi (cm_global_rank c) @ field_bytes Fi (cm_local_rank c) @ field_bytes Fi (cm_group_rank c) @
     concat (map (\<lambda>(i, r). ring_bytes (pad i) r) (enumerate 0 (cm_rings c))) @
     concat (map tree_bytes (cm_trees c))"

text \<open>The values a field can hold, and the communicators that exist in the writer.\<close>

fun fits :: "format \<Rightarrow> int \<Rightarrow> bool" where
  "fits FQ v \<longleftrightarrow> 0 \<le> v \<and> v < 2 ^ 64"
| "fits Fi v \<longleftrightarrow> - (2 ^ 31) \<le> v \<and> v < 2 ^ 31"

definition ring_fits :: "ring_node \<Rightarrow> bool" where
  "ring_fits r \<longleftrightarrow> fits Fi (rn_prev r) \<and> fits Fi (rn_next r) \<and> fits FQ (rn_user_ranks r) \<and> fits Fi (rn_index r)"

definition tree_fits :: "tree_node \<Rightarrow> bool" where
  "tree_fits t \<longleftrightarrow> fits Fi (tn_depth t) \<and> fits Fi (tn_up t) \<and> length (tn_down t) = NCCL_MAX_TREE_ARITY \<and>
     list_all (fits Fi) (tn_down t)"

definition comm_fits :: "communicator \<Rightarrow> bool" where
  "comm_fits c \<longleftrightarrow>
     list_all (fits FQ) [cm_id_hash c, cm_num_channels c, cm_last_ring_id c, cm_last_tree_id c, cm_comm_addr c] \<and>
     list_all (fits Fi) [cm_num_devices c, cm_global_rank c, cm_local_rank c, cm_group_rank c] \<and>
     length (cm_rings c) = MAXCHANNELS \<and> length (cm_trees c) = MAXCHANNELS \<and>
     list_all ring_fits (cm_rings c) \<and> list_all tree_fits (cm_trees c)"

section \<open>Round trip\<close>

lemma length_le_bytes [simp]: "length (le_bytes k n) = k"
  by (induction k arbitrary: n) auto

lemma length_field_bytes [simp]: "length (field_bytes f v) = format_size f"
  by (cases f) auto

lemma le_nat_bytes: "n < 256 ^ k \<Longrightarrow> le_nat (le_bytes k n) = n"
proof (induction k arbitrary: n)
  case (Suc k)
  then have "n div 256 < 256 ^ k" by (simp add: less_mult_imp_div_less mult.commute)
  then have "le_nat (le_bytes k (n div 256)) = n div 256" by (rule Suc.IH)
  moreover have "unat (of_nat n :: 8 word) = n mod 256" by (simp add: unat_of_nat)
  ultimately show ?case by simp
qed simp

lemma field_round_trip: "fits f v \<Longrightarrow> field_value f (field_bytes f v) = v"
proof (cases f)
  case FQ
  assume "fits f v"
  then have "nat v < 256 ^ 8" "0 \<le> v" using FQ by (simp_all add: nat_less_iff)
  then show ?thesis using FQ le_nat_bytes [of "nat v" 8] by simp
next
  case Fi
  assume "fits f v"
  then have v: "- (2 ^ 31) \<le> v" "v < 2 ^ 31" using Fi by simp_all
  have "unat (of_int v :: 32 word) < 2 ^ LENGTH(32)" by (rule unsigned_less)
  then have "le_nat (le_bytes 4 (unat (of_int v :: 32 word))) = unat (of_int v :: 32 word)"
    by (intro le_nat_bytes) simp
  moreover have "sint (of_int v :: 32 word) = v"
    using v by (simp add: sint_sbintrunc' signed_take_bit_int_eq_self)
  ultimately show ?thesis using Fi by simp
qed

lemma unpack_field [simp]:
  "fits f v \<Longrightarrow> unpack_fields (f # fs) (field_bytes f v @ bs) = v # unpack_fields fs bs"
  by (simp add: field_round_trip)

lemma unpack_pad: "length p = format_size f \<Longrightarrow> unpack_fields [f] p = [field_value f p]"
  by simp

declare unpack_fields.simps(2) [simp del] field_bytes.simps [simp del] field_value.simps [simp del] fits.simps [simp del]

lemma unpack_ring:
  assumes "ring_fits r" and "length p = 4"
  shows "struct_unpack ring_format (ring_bytes p r) =
    Inr [rn_prev r, rn_next r, rn_user_ranks r, rn_index r, field_value Fi p]"
  using assms by (simp add: struct_unpack_def ring_format_def ring_bytes_def ring_fits_def unpack_pad)

lemma unpack_tree:
  assumes "tree_fits t"
  shows "struct_unpack tree_format (tree_bytes t) = Inr (tn_depth t # tn_up t # tn_down t)"
proof -
  obtain a b c where d: "tn_down t = [a, b, c]"
    using assms by (auto simp: tree_fits_def NCCL_MAX_TREE_ARITY_def numeral_3_eq_3 length_Suc_conv)
  have "unpack_fields [Fi] (field_bytes Fi c) = [c]"
    using assms unpack_field [of Fi c "[]" "[]"] by (simp add: tree_fits_def d)
  then show ?thesis using assms by (simp add: struct_unpack_def tree_format_def tree_bytes_def tree_fits_def d)
qed

lemma slice_middle: "slice (pre @ xs @ post) (length pre) (length pre + length xs) = xs"
  by (simp add: slice_def)

lemma length_ring_bytes: "length p = 4 \<Longrightarrow> length (ring_bytes p r) = ring_node_size"
  by (simp add: ring_bytes_def ring_node_size_def)

lemma length_tree_bytes: "tree_fits t \<Longrightarrow> length (tree_bytes t) = tree_node_size"
  by (simp add: tree_bytes_def tree_node_size_def tree_fits_def NCCL_MAX_TREE_ARITY_def length_concat o_def
      sum_list_triv)

lemma read_rings_bytes:
  assumes "list_all ring_fits rs" and "\<And>i. length (pad i) = 4"
  shows "read_rings (length rs) (length pre)
      (pre @ concat (map (\<lambda>(i, r). ring_bytes (pad i) r) (enumerate n rs)) @ post) =
    Inr (rs, length pre + length rs * ring_node_size)"
  using assms(1)
proof (induction rs arbitrary: pre n)
  case (Cons r rs)
  let ?b = "ring_bytes (pad n) r"
  let ?rest = "concat (map (\<lambda>(i, r). ring_bytes (pad i) r) (enumerate (Suc n) rs)) @ post"
  have l: "length ?b = ring_node_size" using assms(2) by (rule length_ring_bytes)
  have s: "slice (pre @ ?b @ ?rest) (length pre) (length pre + ring_node_size) = ?b"
    using slice_middle [of pre ?b ?rest] by (simp only: l)
  have u: "struct_unpack ring_format ?b =
      Inr [rn_prev r, rn_next r, rn_user_ranks r, rn_index r, field_value Fi (pad n)]"
    using Cons.prems assms(2) by (intro unpack_ring) simp_all
  have ih: "read_rings (length rs) (length pre + ring_node_size) (pre @ ?b @ ?rest) =
      Inr (rs, length pre + ring_node_size + length rs * ring_node_size)"
    using Cons.IH [of "pre @ ?b" "Suc n"] Cons.prems by (simp add: l)
  show ?case using s u ih by simp
qed simp

lemma read_trees_bytes:
  assumes "list_all tree_fits ts"
  shows "read_trees (length ts) (length pre) (pre @ concat (map tree_bytes ts) @ post) =
    Inr (ts, length pre + length ts * tree_node_size)"
  using assms
proof (induction ts arbitrary: pre)
  case (Cons t ts)
  let ?b = "tree_bytes t"
  let ?rest = "concat (map tree_bytes ts) @ post"
  have t: "tree_fits t" using Cons.prems by simp
  have l: "length ?b = tree_node_size" using t by (rule length_tree_bytes)
  have s: "slice (pre @ ?b @ ?rest) (length pre) (length pre + tree_node_size) = ?b"
    using slice_middle [of pre ?b ?rest] by (simp only: l)
  have ih: "read_trees (length ts) (length pre + tree_node_size) (pre @ ?b @ ?rest) =
      Inr (ts, length pre + tree_node_size + length ts * tree_node_size)"
    using Cons.IH [of "pre @ ?b"] Cons.prems by (simp add: l)
  have d: "length (tn_down t) = NCCL_MAX_TREE_ARITY" using t by (simp add: tree_fits_def)
  show ?case using s unpack_tree [OF t] ih d by (simp add: Let_def)
qed simp

lemma unpack_header:
  assumes "list_all (fits FQ) [a, b, c, d, e]" and "list_all (fits Fi) [i, j, k, l]"
  shows "struct_unpack header_format (take 56 (field_bytes FQ a @ field_bytes FQ b @ field_bytes FQ c @
      field_bytes FQ d @ field_bytes FQ e @ field_bytes Fi i @ field_bytes Fi j @ field_bytes Fi k @
      field_bytes Fi l @ rest)) = Inr [a, b, c, d, e, i, j, k, l]"
proof -
  have "unpack_fields [Fi] (field_bytes Fi l) = [l]" using assms(2) unpack_field [of Fi l "[]" "[]"] by simp
  then show ?thesis using assms by (simp add: struct_unpack_def header_format_def)
qed

text \<open>
  C9. Communicators survive the shared store. Whatever communicator a training process serialises, with
  field values in the range of their types and any bytes in the padding of the ring structures, the
  global controller reads back exactly that communicator: all fields, all channels, signs included.
\<close>

theorem communicator_round_trip:
  assumes "comm_fits c" and "\<And>i. length (pad i) = 4"
  shows "deserialize_communicator_from_redis (serialize pad c) = Inr c"
proof -
  let ?h = "field_bytes FQ (cm_id_hash c) @ field_bytes FQ (cm_num_channels c) @ field_bytes FQ (cm_last_ring_id c) @
     field_bytes FQ (cm_last_tree_id c) @ field_bytes FQ (cm_comm_addr c) @ field_bytes Fi (cm_num_devices c) @
     field_bytes Fi (cm_global_rank c) @ field_bytes Fi (cm_local_rank c) @ field_bytes Fi (cm_group_rank c)"
  let ?r = "concat (map (\<lambda>(i, r). ring_bytes (pad i) r) (enumerate 0 (cm_rings c)))"
  let ?t = "concat (map tree_bytes (cm_trees c))"
  have f: "list_all ring_fits (cm_rings c)" "list_all tree_fits (cm_trees c)"
    "length (cm_rings c) = MAXCHANNELS" "length (cm_trees c) = MAXCHANNELS"
    using assms(1) by (simp_all add: comm_fits_def)
  have s: "serialize pad c = ?h @ ?r @ ?t" by (simp add: serialize_def)
  have lh: "length ?h = 56" by simp
  have lr: "length ?r = MAXCHANNELS * ring_node_size"
    using f(3) by (simp add: length_concat o_def split_def length_ring_bytes assms(2) sum_list_triv)
  have h: "struct_unpack header_format (take 56 (serialize pad c)) =
      Inr [cm_id_hash c, cm_num_channels c, cm_last_ring_id c, cm_last_tree_id c, cm_comm_addr c,
           cm_num_devices c, cm_global_rank c, cm_local_rank c, cm_group_rank c]"
    unfolding serialize_def using assms(1) by (intro unpack_header) (simp_all add: comm_fits_def)
  have r: "read_rings MAXCHANNELS 56 (serialize pad c) = Inr (cm_rings c, 56 + MAXCHANNELS * ring_node_size)"
    using read_rings_bytes [OF f(1) assms(2), where pre = ?h and n = 0 and post = ?t] by (simp only: s lh f(3))
  have "read_trees MAXCHANNELS (56 + MAXCHANNELS * ring_node_size) (serialize pad c) =
      Inr (cm_trees c, 56 + MAXCHANNELS * ring_node_size + MAXCHANNELS * tree_node_size)"
  proof -
    have l: "length (?h @ ?r) = 56 + MAXCHANNELS * ring_node_size" unfolding length_append [of ?h ?r] lh lr ..
    have "?h @ ?r @ ?t = (?h @ ?r) @ ?t @ []" by simp
    with read_trees_bytes [OF f(2), where pre = "?h @ ?r" and post = "[]"] show ?thesis
      unfolding s l f(4) by metis
  qed
  with h r show ?thesis by (simp add: deserialize_communicator_from_redis_def)
qed

definition demo_comm :: communicator where
  "demo_comm =
     \<lparr>cm_id_hash = 2 ^ 63, cm_num_channels = 2, cm_last_ring_id = 0, cm_last_tree_id = 0, cm_comm_addr = 94778436013328,
      cm_num_devices = 2, cm_global_rank = 0, cm_local_rank = 0, cm_group_rank = 0,
      cm_rings = replicate MAXCHANNELS \<lparr>rn_prev = 1, rn_next = 1, rn_user_ranks = 7, rn_index = 0\<rparr>,
      cm_trees = replicate MAXCHANNELS \<lparr>tn_depth = 1, tn_up = - 1, tn_down = [1, - 1, - 1]\<rparr>\<rparr>"

theorem communicator_round_trip_witness:
  "deserialize_communicator_from_redis (serialize (\<lambda>i. [1, 2, 3, 4]) demo_comm) = Inr demo_comm"
proof (rule communicator_round_trip)
  show "comm_fits demo_comm"
    by (simp add: comm_fits_def demo_comm_def list_all_iff ring_fits_def tree_fits_def NCCL_MAX_TREE_ARITY_def fits.simps)
qed simp

end
