(* ===== verification/Comm_Topology.thy ===== *)
theory Comm_Topology
  imports Nccl_Comm "HOL-Library.Tree"
begin

text \<open>
  \<open>detector/control_plane/global_topo.py\<close> and \<open>task_split.py\<close>: the rings and trees of the communicators
  that share an id, and the split of a ring or tree into point-to-point tasks that are run one after
  the other. Both loops over pointers read from the store may run forever on inconsistent pointers:
  they are partial functions, and \<open>None\<close> is a call that does not return.
\<close>

section \<open>Grouping communicators\<close>

definition comms_by_id_hash :: "communicator list \<Rightarrow> (int, communicator list) dict" where
  "comms_by_id_hash comms =
     group_all cm_id_hash (map snd (dict_merge [] (map (\<lambda>c. (cm_comm_addr c, c)) comms)))"

definition comms_by_rank :: "communicator list \<Rightarrow> (int, communicator) dict" where
  "comms_by_rank comms = dict_merge [] (map (\<lambda>cm. (cm_group_rank cm, cm)) comms)"

section \<open>Rings\<close>

definition first_ring :: "communicator \<Rightarrow> ring_node py_result" where
  "first_ring c = (case cm_rings c of [] \<Rightarrow> Inl IndexError | r # _ \<Rightarrow> Inr r)"

text \<open>The loop that follows the ring; the set \<open>visited\<close> holds the members of \<open>curr_ring\<close>.\<close>

partial_function (option) ring_walk ::
    "(int, communicator) dict \<Rightarrow> nat \<Rightarrow> int list \<Rightarrow> ring_node \<Rightarrow> int list py_result option" where
  "ring_walk by_rank n curr_ring curr_node =
     (if length (remdups curr_ring) = n then Some (Inr curr_ring)
      else case map_of by_rank (rn_next curr_node) of
             None \<Rightarrow> Some (Inl KeyError)
           | Some c \<Rightarrow>
               (case first_ring c of
                  Inl e \<Rightarrow> Some (Inl e)
                | Inr r \<Rightarrow> ring_walk by_rank n (curr_ring @ [rn_index curr_node]) r))"

definition build_ring :: "communicator list \<Rightarrow> int list py_result option" where
  "build_ring comms =
     (case comms of
        [] \<Rightarrow> Some (Inl IndexError)
      | c # _ \<Rightarrow>
          (case first_ring c of
             Inl e \<Rightarrow> Some (Inl e)
           | Inr r \<Rightarrow> ring_walk (comms_by_rank comms) (length comms) [] r))"

fun each_ring :: "communicator list list \<Rightarrow> int list list py_result option" where
  "each_ring [] = Some (Inr [])"
| "each_ring (comms # rest) =
     (case build_ring comms of
        None \<Rightarrow> None
      | Some (Inl e) \<Rightarrow> Some (Inl e)
      | Some (Inr r) \<Rightarrow>
          (case each_ring rest of None \<Rightarrow> None | Some (Inl e) \<Rightarrow> Some (Inl e) | Some (Inr rs) \<Rightarrow> Some (Inr (r # rs))))"

definition ring_key :: "int list \<Rightarrow> int list" where
  "ring_key ring = sort ring"

fun unique_rings :: "int list set \<Rightarrow> int list list \<Rightarrow> int list list" where
  "unique_rings seen [] = []"
| "unique_rings seen (r # rs) =
     (if ring_key r \<in> seen then unique_rings seen rs else r # unique_rings (insert (ring_key r) seen) rs)"

definition build_rings :: "(int, communicator list) dict \<Rightarrow> int list list py_result option" where
  "build_rings groups =
     (case each_ring (map snd groups) of
        None \<Rightarrow> None | Some (Inl e) \<Rightarrow> Some (Inl e) | Some (Inr rs) \<Rightarrow> Some (Inr (unique_rings {} rs)))"

section \<open>Trees\<close>

definition first_tree :: "communicator \<Rightarrow> tree_node py_result" where
  "first_tree c = (case cm_trees c of [] \<Rightarrow> Inl IndexError | t # _ \<Rightarrow> Inr t)"

text \<open>The search for the root stops at the first communicator without a parent.\<close>

fun find_root :: "communicator list \<Rightarrow> communicator option py_result" where
  "find_root [] = Inr None"
| "find_root (c # cs) =
     (case first_tree c of Inl e \<Rightarrow> Inl e | Inr t \<Rightarrow> if tn_up t = - 1 then Inr (Some c) else find_root cs)"

text \<open>The two children of a node; the third entry of \<open>down\<close> is not read.\<close>

definition child :: "(int, communicator) dict \<Rightarrow> int \<Rightarrow> communicator list py_result" where
  "child by_rank rank =
     (if rank = - 1 then Inr [] else case map_of by_rank rank of None \<Rightarrow> Inl KeyError | Some c \<Rightarrow> Inr [c])"

definition children :: "(int, communicator) dict \<Rightarrow> communicator \<Rightarrow> communicator list py_result" where
  "children by_rank c =
     (case first_tree c of
        Inl e \<Rightarrow> Inl e
      | Inr t \<Rightarrow>
          if length (tn_down t) < 2 then Inl IndexError
          else case child by_rank (tn_down t ! 0) of
                 Inl e \<Rightarrow> Inl e
               | Inr l \<Rightarrow> (case child by_rank (tn_down t ! 1) of Inl e \<Rightarrow> Inl e | Inr r \<Rightarrow> Inr (l @ r)))"

partial_function (option) tree_walk ::
    "(int, communicator) dict \<Rightarrow> (communicator \<times> nat) list \<Rightarrow> (nat, communicator list) dict
     \<Rightarrow> (nat, communicator list) dict py_result option" where
  "tree_walk by_rank q layers =
     (case q of
        [] \<Rightarrow> Some (Inr layers)
      | p # rest \<Rightarrow>
          (case children by_rank (fst p) of
             Inl e \<Rightarrow> Some (Inl e)
           | Inr cs \<Rightarrow>
               tree_walk by_rank (rest @ map (\<lambda>c. (c, snd p + 1)) cs) (group_add (snd p) (fst p) layers)))"

definition build_tree :: "communicator list \<Rightarrow> (nat, communicator list) dict py_result option" where
  "build_tree comms =
     (case find_root comms of
        Inl e \<Rightarrow> Some (Inl e)
      | Inr None \<Rightarrow> Some (Inl AttributeError)
      | Inr (Some rt) \<Rightarrow> tree_walk (comms_by_rank comms) [(rt, 0)] [])"

fun build_trees :: "communicator list list \<Rightarrow> (nat, communicator list) dict list py_result option" where
  "build_trees [] = Some (Inr [])"
| "build_trees (comms # rest) =
     (case build_tree comms of
        None \<Rightarrow> None
      | Some (Inl e) \<Rightarrow> Some (Inl e)
      | Some (Inr t) \<Rightarrow>
          (case build_trees rest of None \<Rightarrow> None | Some (Inl e) \<Rightarrow> Some (Inl e) | Some (Inr ts) \<Rightarrow> Some (Inr (t # ts))))"

record global_topo =
  gt_rings :: "int list list"
  gt_trees :: "(nat, communicator list) dict list"

definition new_global_topo :: "communicator list \<Rightarrow> global_topo py_result option" where
  "new_global_topo comms =
     (let groups = comms_by_id_hash comms
      in case build_rings groups of
           None \<Rightarrow> None
         | Some (Inl e) \<Rightarrow> Some (Inl e)
         | Some (Inr rings) \<Rightarrow>
             (case build_trees (map snd groups) of
                None \<Rightarrow> None
              | Some (Inl e) \<Rightarrow> Some (Inl e)
              | Some (Inr trees) \<Rightarrow> Some (Inr \<lparr>gt_rings = rings, gt_trees = trees\<rparr>)))"

section \<open>Tasks\<close>

text \<open>\<open>xs[0::2]\<close>; a slice with another start or end drops elements first.\<close>

fun slice_by_two :: "'a list \<Rightarrow> 'a list" where
  "slice_by_two [] = []"
| "slice_by_two [x] = [x]"
| "slice_by_two (x # y # xs) = x # slice_by_two xs"

type_synonym comm_task = "int list \<times> int list"

definition split_ring :: "int list \<Rightarrow> comm_task list py_result" where
  "split_ring ring =
     (if length ring = 2 then Inr [([ring ! 0], [ring ! 1]), ([ring ! 1], [ring ! 0])]
      else if length ring mod 2 = 0
      then if ring = [] then Inl IndexError
           else Inr [(slice_by_two ring, slice_by_two (drop 1 ring)),
                     (slice_by_two (drop 1 ring), slice_by_two (drop 2 (butlast ring)) @ [ring ! 0])]
      else Inr [(slice_by_two (butlast ring), slice_by_two (drop 1 ring)),
                (slice_by_two (drop 1 ring), slice_by_two (drop 2 ring)),
                ([last ring], [ring ! 0])])"

text \<open>
  \<open>split_tree\<close>: the loop over the layers \<open>i\<close>, \<open>i + 2\<close>, and so on, which looks at the first node of a layer only
  and collects the links to the left and to the right child.
\<close>

definition layer_task :: "nat \<Rightarrow> (nat, communicator list) dict \<Rightarrow> ((int \<times> int) option \<times> (int \<times> int) option) py_result" where
  "layer_task i tr =
     (case map_of tr i of
        None \<Rightarrow> Inl KeyError
      | Some [] \<Rightarrow> Inl IndexError
      | Some (c # _) \<Rightarrow>
          (case first_tree c of
             Inl e \<Rightarrow> Inl e
           | Inr t \<Rightarrow>
               if length (tn_down t) < 2 then Inl IndexError
               else Inr (if tn_down t ! 0 \<noteq> - 1 then Some (cm_group_rank c, tn_down t ! 0) else None,
                         if tn_down t ! 1 \<noteq> - 1 then Some (cm_group_rank c, tn_down t ! 1) else None)))"

fun layer_tasks :: "nat list \<Rightarrow> (nat, communicator list) dict \<Rightarrow> ((int \<times> int) list \<times> (int \<times> int) list) py_result" where
  "layer_tasks [] tr = Inr ([], [])"
| "layer_tasks (i # is) tr =
     (case layer_task i tr of
        Inl e \<Rightarrow> Inl e
      | Inr (l, r) \<Rightarrow>
          (case layer_tasks is tr of
             Inl e \<Rightarrow> Inl e
           | Inr (ls, rs) \<Rightarrow>
               Inr (case l of None \<Rightarrow> ls | Some x \<Rightarrow> x # ls, case r of None \<Rightarrow> rs | Some x \<Rightarrow> x # rs)))"

definition split_tree :: "(nat, communicator list) dict \<Rightarrow> comm_task list py_result" where
  "split_tree tr =
     (let total_layers = length tr
      in case layer_tasks (slice_by_two [0..<total_layers]) tr of
           Inl e \<Rightarrow> Inl e
         | Inr (first, second) \<Rightarrow>
             (case layer_tasks (slice_by_two (drop 1 [0..<total_layers])) tr of
                Inl e \<Rightarrow> Inl e
              | Inr (third, forth) \<Rightarrow>
                  Inr (map (\<lambda>ps. (map fst ps, map snd ps)) [first, second, third, forth])))"

section \<open>Splitting a ring\<close>

lemma length_slice_by_two [simp]: "length (slice_by_two xs) = (length xs + 1) div 2"
  by (induction xs rule: slice_by_two.induct) auto

lemma nth_slice_by_two: "2 * i < length xs \<Longrightarrow> slice_by_two xs ! i = xs ! (2 * i)"
proof (induction xs arbitrary: i rule: slice_by_two.induct)
  case (3 x y xs)
  then show ?case by (cases i) auto
qed auto

lemma set_slice_by_two: "set (slice_by_two xs) \<subseteq> set xs"
  by (induction xs rule: slice_by_two.induct) auto

lemma slice_by_two_butlast:
  "slice_by_two (butlast xs) = (if even (length xs) then slice_by_two xs else butlast (slice_by_two xs))"
proof (induction xs rule: slice_by_two.induct)
  case (3 x y xs)
  then show ?case by (cases xs rule: slice_by_two.cases) auto
qed auto

lemma slice_by_two_drop2: "slice_by_two (drop 2 xs) = tl (slice_by_two xs)"
  by (cases xs rule: slice_by_two.cases) auto

lemma distinct_seconds: "distinct ring \<Longrightarrow> distinct (slice_by_two ring @ slice_by_two (drop 1 ring))"
proof (induction ring rule: slice_by_two.induct)
  case (3 x y xs)
  have s: "set (slice_by_two xs) \<subseteq> set xs" "set (slice_by_two (drop 1 xs)) \<subseteq> set xs"
    using set_slice_by_two [of xs] set_slice_by_two [of "drop 1 xs"] set_drop_subset [of 1 xs] by blast+
  have "slice_by_two (drop 1 (x # y # xs)) = y # slice_by_two (drop 1 xs)" by (cases xs) auto
  with 3 s show ?case by auto
qed auto

definition ring_links :: "int list \<Rightarrow> (int \<times> int) list" where
  "ring_links ring = map (\<lambda>i. (ring ! i, ring ! (Suc i mod length ring))) [0..<length ring]"

definition task_links :: "comm_task \<Rightarrow> (int \<times> int) list" where
  "task_links task = zip (fst task) (snd task)"

lemma mset_evens_odds:
  "mset (map f [0..<2 * k]) = mset (map (\<lambda>i. f (2 * i)) [0..<k]) + mset (map (\<lambda>i. f (2 * i + 1)) [0..<k])"
  by (induction k) auto

lemma split_ring_even:
  assumes "length ring = 2 * k" and "1 \<le> k"
  shows "split_ring ring = Inr [(slice_by_two ring, slice_by_two (drop 1 ring)),
      (slice_by_two (drop 1 ring), rotate1 (slice_by_two ring))]"
proof (cases "k = 1")
  case True
  then obtain a b where "ring = [a, b]" using assms(1) by (auto simp: numeral_2_eq_2 length_Suc_conv)
  then show ?thesis by (simp add: split_ring_def)
next
  case False
  then have "2 < length ring" using assms by simp
  then obtain x y xs where r: "ring = x # y # xs" "xs \<noteq> []" by (cases ring rule: slice_by_two.cases) auto
  then have "length xs = 2 * (k - 1)" using assms by simp
  then have "even (length xs)" by simp
  then have "slice_by_two (drop 2 (butlast ring)) = slice_by_two xs"
    using slice_by_two_butlast [of xs] r by simp
  then show ?thesis using assms r False by (auto simp: split_ring_def)
qed

lemma split_ring_odd:
  assumes "length ring = 2 * k + 1"
  shows "split_ring ring = Inr [(butlast (slice_by_two ring), slice_by_two (drop 1 ring)),
      (slice_by_two (drop 1 ring), tl (slice_by_two ring)), ([last ring], [ring ! 0])]"
  using assms slice_by_two_butlast [of ring] slice_by_two_drop2 [of ring] by (auto simp: split_ring_def)

lemma ring_links_even:
  assumes "length ring = 2 * k" and "1 \<le> k"
  shows "mset (zip (slice_by_two ring) (slice_by_two (drop 1 ring))) +
    mset (zip (slice_by_two (drop 1 ring)) (rotate1 (slice_by_two ring))) = mset (ring_links ring)"
proof -
  let ?f = "\<lambda>i. (ring ! i, ring ! (Suc i mod length ring))"
  have "zip (slice_by_two ring) (slice_by_two (drop 1 ring)) = map (\<lambda>i. ?f (2 * i)) [0..<k]"
    using assms by (intro nth_equalityI) (auto simp: nth_slice_by_two)
  moreover have "rotate1 (slice_by_two ring) ! i = ring ! (Suc (2 * i + 1) mod length ring)" if "i < k" for i
  proof -
    have "rotate1 (slice_by_two ring) ! i = slice_by_two ring ! (Suc i mod k)"
      using nth_rotate1 [of i "slice_by_two ring"] assms that by simp
    moreover have "Suc (2 * i + 1) mod length ring = 2 * (Suc i mod k)" using assms(1) by (simp add: mult_mod_right)
    ultimately show ?thesis using assms that by (simp add: nth_slice_by_two)
  qed
  then have "zip (slice_by_two (drop 1 ring)) (rotate1 (slice_by_two ring)) = map (\<lambda>i. ?f (2 * i + 1)) [0..<k]"
    using assms by (intro nth_equalityI) (auto simp: nth_slice_by_two)
  ultimately show ?thesis using mset_evens_odds [of ?f k] assms(1) by (simp add: ring_links_def)
qed

lemma ring_links_odd:
  assumes "length ring = 2 * k + 1"
  shows "mset (zip (butlast (slice_by_two ring)) (slice_by_two (drop 1 ring))) +
    (mset (zip (slice_by_two (drop 1 ring)) (tl (slice_by_two ring))) + {#(last ring, ring ! 0)#}) = mset (ring_links ring)"
proof -
  let ?f = "\<lambda>i. (ring ! i, ring ! (Suc i mod length ring))"
  have "zip (butlast (slice_by_two ring)) (slice_by_two (drop 1 ring)) = map (\<lambda>i. ?f (2 * i)) [0..<k]"
    using assms by (intro nth_equalityI) (auto simp: nth_slice_by_two nth_butlast)
  moreover have "zip (slice_by_two (drop 1 ring)) (tl (slice_by_two ring)) = map (\<lambda>i. ?f (2 * i + 1)) [0..<k]"
    using assms by (intro nth_equalityI) (auto simp: nth_slice_by_two nth_tl)
  moreover have "ring \<noteq> []" using assms by auto
  then have "(last ring, ring ! 0) = ?f (2 * k)" using assms by (simp add: last_conv_nth)
  moreover have "[0..<length ring] = [0..<2 * k] @ [2 * k]" using assms by simp
  ultimately show ?thesis using mset_evens_odds [of ?f k] by (simp add: ring_links_def)
qed

lemma split_ring_parts:
  assumes "distinct ring" and "2 \<le> length ring"
  shows "\<exists>tasks. split_ring ring = Inr tasks \<and>
    mset (concat (map task_links tasks)) = mset (ring_links ring) \<and>
    list_all (\<lambda>(senders, recvers). length senders = length recvers \<and> distinct (senders @ recvers)) tasks"
proof (cases "even (length ring)")
  case True
  then obtain k where k: "length ring = 2 * k" "1 \<le> k" using assms(2) by (auto elim!: evenE)
  then show ?thesis using split_ring_even [OF k] ring_links_even [OF k] distinct_seconds [OF assms(1)]
    by (auto simp: task_links_def)
next
  case False
  then obtain k where k: "length ring = 2 * k + 1" by (auto elim!: oddE)
  have d: "distinct (slice_by_two ring @ slice_by_two (drop 1 ring))" using assms(1) by (rule distinct_seconds)
  have "last ring \<noteq> ring ! 0" using assms by (cases ring) auto
  moreover have "set (butlast (slice_by_two ring)) \<subseteq> set (slice_by_two ring)" "set (tl (slice_by_two ring)) \<subseteq> set (slice_by_two ring)"
    by (auto dest: in_set_butlastD list.set_sel(2) [rotated]) (metis list.set_sel(2) list.sel(2))
  ultimately show ?thesis using split_ring_odd [OF k] ring_links_odd [OF k] d k
    by (auto simp: task_links_def distinct_butlast distinct_tl)
qed

text \<open>
  C17. Splitting a ring into tasks. For a ring of at least two ranks the tasks together contain every link
  of the ring from a rank to its successor exactly once; in each task as many ranks send as receive
  and no rank appears twice, so that a rank has one partner at a time.
\<close>

theorem split_ring_exact:
  assumes "distinct ring" and "2 \<le> length ring"
  shows "\<exists>tasks. split_ring ring = Inr tasks \<and>
    mset (concat (map task_links tasks)) = mset (ring_links ring) \<and>
    list_all (\<lambda>(senders, recvers). length senders = length recvers \<and> distinct (senders @ recvers)) tasks"
  using assms by (rule split_ring_parts)

theorem split_ring_exact_witness:
  "\<exists>tasks. split_ring [4, 1, 0, 2, 3] = Inr tasks \<and>
     mset (concat (map task_links tasks)) = {#(4, 1), (1, 0), (0, 2), (2, 3), (3, 4)#}"
  using split_ring_exact [of "[4, 1, 0, 2, 3]"] by (auto simp: ring_links_def upt_rec)

section \<open>Following a ring\<close>

text \<open>
  The communicators of one ring in ring order, starting with the first of the group: each points to
  the next, the last to the first, and their positions in the ring differ.
\<close>

definition ring_order :: "communicator list \<Rightarrow> communicator list \<Rightarrow> bool" where
  "ring_order comms rs \<longleftrightarrow>
     rs \<noteq> [] \<and> mset rs = mset comms \<and> hd rs = hd comms \<and> distinct (map cm_group_rank comms) \<and>
     list_all (\<lambda>c. cm_rings c \<noteq> []) rs \<and> distinct (map (\<lambda>c. rn_index (hd (cm_rings c))) rs) \<and>
     list_all (\<lambda>i. rn_next (hd (cm_rings (rs ! i))) = cm_group_rank (rs ! (Suc i mod length rs))) [0..<length rs]"

lemma by_rank_lookup:
  assumes "distinct (map cm_group_rank comms)" and "c \<in> set comms"
  shows "map_of (comms_by_rank comms) (cm_group_rank c) = Some c"
proof -
  have e: "comms_by_rank comms = map (\<lambda>cm. (cm_group_rank cm, cm)) comms"
    unfolding comms_by_rank_def using assms(1) by (subst dict_merge_append) (auto simp: o_def)
  show ?thesis unfolding e using assms by (intro map_of_is_SomeI) (auto simp: o_def)
qed

lemma ring_walk_in_order:
  assumes o: "ring_order comms rs" and "k \<le> length rs"
  shows "ring_walk (comms_by_rank comms) (length comms) (map (\<lambda>c. rn_index (hd (cm_rings c))) (take k rs))
      (hd (cm_rings (rs ! (k mod length rs)))) = Some (Inr (map (\<lambda>c. rn_index (hd (cm_rings c))) rs))"
  using assms(2)
proof (induction "length rs - k" arbitrary: k)
  case 0
  have l: "length comms = length rs" using o by (metis ring_order_def size_mset)
  have "distinct (map (\<lambda>c. rn_index (hd (cm_rings c))) rs)" using o by (simp add: ring_order_def)
  then show ?case using 0 l by (subst ring_walk.simps) (simp add: distinct_remdups_id)
next
  case (Suc d)
  let ?n = "length rs" and ?idx = "\<lambda>c. rn_index (hd (cm_rings c))"
  have l: "length comms = ?n" "set rs = set comms" using o by (metis ring_order_def size_mset, metis ring_order_def set_mset_mset)
  have k: "k < ?n" using Suc.hyps(2) by simp
  have "distinct (map ?idx rs)" using o by (simp add: ring_order_def)
  then have "distinct (map ?idx (take k rs))" by (metis distinct_take take_map)
  then have go: "length (remdups (map ?idx (take k rs))) \<noteq> length comms" using k l by (simp add: distinct_remdups_id)
  let ?c = "rs ! (Suc k mod ?n)"
  have c: "?c \<in> set comms" unfolding l(2) [symmetric] using k by (intro nth_mem mod_less_divisor) auto
  have nx: "rn_next (hd (cm_rings (rs ! k))) = cm_group_rank ?c" using o k by (auto simp: ring_order_def list_all_iff)
  have "map_of (comms_by_rank comms) (cm_group_rank ?c) = Some ?c"
    using o c by (intro by_rank_lookup) (simp_all add: ring_order_def)
  moreover have "first_ring ?c = Inr (hd (cm_rings ?c))"
    using o c l(2) by (auto simp: ring_order_def list_all_iff first_ring_def split: list.splits)
  moreover have "map ?idx (take k rs) @ [?idx (rs ! k)] = map ?idx (take (Suc k) rs)" using k by (simp add: take_Suc_conv_app_nth)
  moreover have "ring_walk (comms_by_rank comms) (length comms) (map ?idx (take (Suc k) rs)) (hd (cm_rings ?c)) =
      Some (Inr (map ?idx rs))"
    using Suc.hyps k by (intro Suc.hyps(1)) auto
  ultimately show ?case using go k nx by (subst ring_walk.simps) simp
qed

lemma build_ring_in_order:
  assumes "ring_order comms rs"
  shows "build_ring comms = Some (Inr (map (\<lambda>c. rn_index (hd (cm_rings c))) rs))"
proof -
  have rs: "rs \<noteq> []" "set rs = set comms" "hd rs = hd comms"
    using assms by (auto simp: ring_order_def dest: mset_eq_setD)
  then obtain c cs where c: "comms = c # cs" "rs ! 0 = c" by (cases comms) (auto simp: hd_conv_nth)
  then have "first_ring c = Inr (hd (cm_rings c))"
    using assms rs by (auto simp: ring_order_def list_all_iff first_ring_def split: list.splits)
  then show ?thesis using ring_walk_in_order [OF assms, of 0] c by (simp add: build_ring_def)
qed

text \<open>
  When the pointers close a cycle on too few positions (a set of ring nodes that the pointers do not
  leave), the loop never ends.
\<close>

definition ring_closed :: "(int, communicator) dict \<Rightarrow> ring_node set \<Rightarrow> bool" where
  "ring_closed by_rank R \<longleftrightarrow>
     (\<forall>r\<in>R. \<exists>c r'. map_of by_rank (rn_next r) = Some c \<and> first_ring c = Inr r' \<and> r' \<in> R)"

lemma ring_walk_leaves:
  assumes "ring_walk by_rank n acc node = Some res"
  shows "ring_closed by_rank R \<longrightarrow> node \<in> R \<longrightarrow> finite R \<longrightarrow> n \<le> card (set acc \<union> rn_index ` R)"
proof (rule ring_walk.raw_induct [OF _ assms])
  fix walk by_rank n acc and node :: ring_node and res
  assume IH: "\<And>by_rank n acc (node :: ring_node) res. walk by_rank n acc node = Some res \<Longrightarrow>
      ring_closed by_rank R \<longrightarrow> node \<in> R \<longrightarrow> finite R \<longrightarrow> n \<le> card (set acc \<union> rn_index ` R)"
    and eq: "(if length (remdups acc) = n then Some (Inr acc)
      else case map_of by_rank (rn_next node) of
             None \<Rightarrow> Some (Inl KeyError)
           | Some c \<Rightarrow>
               (case first_ring c of
                  Inl e \<Rightarrow> Some (Inl e)
                | Inr r \<Rightarrow> walk by_rank n (acc @ [rn_index node]) r)) = Some res"
  show "ring_closed by_rank R \<longrightarrow> node \<in> R \<longrightarrow> finite R \<longrightarrow> n \<le> card (set acc \<union> rn_index ` R)"
  proof (intro impI)
    assume R: "ring_closed by_rank R" "node \<in> R" "finite R"
    show "n \<le> card (set acc \<union> rn_index ` R)"
    proof (cases "length (remdups acc) = n")
      case True
      then show ?thesis using R(3) by (auto simp: length_remdups_card_conv intro: card_mono)
    next
      case False
      obtain c r' where c: "map_of by_rank (rn_next node) = Some c" "first_ring c = Inr r'" "r' \<in> R"
        using R unfolding ring_closed_def by blast
      then have "walk by_rank n (acc @ [rn_index node]) r' = Some res" using eq False by simp
      from IH [OF this] show ?thesis using R c by (simp add: insert_absorb)
    qed
  qed
qed

lemma ring_walk_diverges:
  assumes "ring_closed by_rank R" and "node \<in> R" and "finite R" and "card (set acc \<union> rn_index ` R) < n"
  shows "ring_walk by_rank n acc node = None"
  using ring_walk_leaves [of by_rank n acc node _ R] assms
  by (cases "ring_walk by_rank n acc node") auto

lemma unique_rings_mem: "r \<in> set (unique_rings seen rs) \<Longrightarrow> r \<in> set rs"
  by (induction seen rs rule: unique_rings.induct) (auto split: if_splits)

lemma unique_rings_distinct:
  "distinct (map ring_key (unique_rings seen rs)) \<and> ring_key ` set (unique_rings seen rs) \<inter> seen = {}"
  by (induction seen rs rule: unique_rings.induct) auto

lemma unique_rings_cover: "r \<in> set rs \<Longrightarrow> ring_key r \<in> seen \<or> ring_key r \<in> ring_key ` set (unique_rings seen rs)"
  by (induction seen rs rule: unique_rings.induct) auto

lemma each_ring_in_order:
  assumes "list_all2 ring_order gs os"
  shows "each_ring gs = Some (Inr (map (map (\<lambda>c. rn_index (hd (cm_rings c)))) os))"
  using assms by (induction gs os rule: list_all2_induct) (simp_all add: build_ring_in_order)

text \<open>
  C18. Rings are followed to the end. When the first channels of the communicators of every group point
  around one ring, following the pointers ends, and yields for every group the positions of its
  communicators in ring order, each once; of groups with the same positions the first is kept.
\<close>

theorem rings_are_built:
  assumes "list_all2 ring_order (map snd groups) orders"
  shows "\<exists>rings. build_rings groups = Some (Inr rings) \<and> list_all distinct rings \<and> distinct (map ring_key rings) \<and>
    set rings \<subseteq> set (map (map (\<lambda>c. rn_index (hd (cm_rings c)))) orders) \<and>
    ring_key ` set rings = ring_key ` set (map (map (\<lambda>c. rn_index (hd (cm_rings c)))) orders)"
proof -
  let ?rs = "map (map (\<lambda>c. rn_index (hd (cm_rings c)))) orders"
  have "distinct r" if "r \<in> set ?rs" for r
    using assms that by (auto simp: list_all2_conv_all_nth ring_order_def in_set_conv_nth)
  moreover have "build_rings groups = Some (Inr (unique_rings {} ?rs))"
    using each_ring_in_order [OF assms] by (simp add: build_rings_def)
  moreover have "set (unique_rings {} ?rs) \<subseteq> set ?rs" by (auto dest: unique_rings_mem simp del: set_map)
  moreover have "ring_key ` set (unique_rings {} ?rs) = ring_key ` set ?rs"
    using unique_rings_cover [where seen = "{}" and rs = ?rs] \<open>set (unique_rings {} ?rs) \<subseteq> set ?rs\<close> by blast
  ultimately show ?thesis using unique_rings_distinct [of "{}" ?rs] by (auto simp: list_all_iff simp del: set_map)
qed

definition demo_member :: "int \<Rightarrow> int \<Rightarrow> communicator" where
  "demo_member rank nx =
     demo_comm\<lparr>cm_comm_addr := rank, cm_group_rank := rank, cm_global_rank := rank,
       cm_rings := [\<lparr>rn_prev = 0, rn_next = nx, rn_user_ranks = 0, rn_index = rank\<rparr>]\<rparr>"

theorem rings_are_built_witness:
  "\<exists>rings. build_rings [(1, [demo_member 0 2, demo_member 1 0, demo_member 2 1])] = Some (Inr rings) \<and>
     list_all distinct rings \<and> ring_key ` set rings = {[0, 1, 2]}"
proof -
  let ?o = "[demo_member 0 2, demo_member 2 1, demo_member 1 0]"
  have "list_all2 ring_order (map snd [(1 :: int, [demo_member 0 2, demo_member 1 0, demo_member 2 1])]) [?o]"
    by (simp add: ring_order_def demo_member_def upt_rec)
  from rings_are_built [OF this] show ?thesis by (auto simp: demo_member_def ring_key_def)
qed

section \<open>Layers of a tree\<close>

text \<open>The binary tree that the first channels of the communicators describe, and its nodes at a depth.\<close>

fun root_rank :: "communicator tree \<Rightarrow> int" where
  "root_rank Leaf = - 1"
| "root_rank (Node l c r) = cm_group_rank c"

fun tree_shape :: "(int, communicator) dict \<Rightarrow> communicator tree \<Rightarrow> bool" where
  "tree_shape by_rank Leaf \<longleftrightarrow> True"
| "tree_shape by_rank (Node l c r) \<longleftrightarrow>
     cm_trees c \<noteq> [] \<and> 2 \<le> length (tn_down (hd (cm_trees c))) \<and>
     tn_down (hd (cm_trees c)) ! 0 = root_rank l \<and> tn_down (hd (cm_trees c)) ! 1 = root_rank r \<and>
     cm_group_rank c \<noteq> - 1 \<and> map_of by_rank (cm_group_rank c) = Some c \<and>
     tree_shape by_rank l \<and> tree_shape by_rank r"

fun at_depth :: "nat \<Rightarrow> 'a tree \<Rightarrow> 'a multiset" where
  "at_depth d Leaf = {#}"
| "at_depth 0 (Node l c r) = {#c#}"
| "at_depth (Suc d) (Node l c r) = at_depth d l + at_depth d r"

text \<open>A queue entry with the subtrees behind it.\<close>

type_synonym queued = "communicator tree \<times> communicator \<times> communicator tree \<times> nat"

fun enqueue :: "nat \<Rightarrow> communicator tree \<Rightarrow> queued list" where
  "enqueue k Leaf = []"
| "enqueue k (Node l c r) = [(l, c, r, k)]"

definition queue_entry :: "queued \<Rightarrow> communicator \<times> nat" where
  "queue_entry = (\<lambda>(l, c, r, k). (c, k))"

definition queued_tree :: "queued \<Rightarrow> communicator tree" where
  "queued_tree = (\<lambda>(l, c, r, k). Node l c r)"

definition below :: "nat \<Rightarrow> queued list \<Rightarrow> communicator multiset" where
  "below j ts = (\<Sum>(l, c, r, k)\<leftarrow>ts. if k \<le> j then at_depth (j - k) (Node l c r) else {#})"

lemma child_of_root:
  "tree_shape by_rank t \<Longrightarrow> child by_rank (root_rank t) = Inr (map (fst \<circ> queue_entry) (enqueue k t))"
  by (cases t) (auto simp: child_def queue_entry_def)

lemma children_shape:
  assumes "tree_shape by_rank (Node l c r)"
  shows "children by_rank c = Inr (map (fst \<circ> queue_entry) (enqueue k l @ enqueue k r))"
proof -
  obtain t ts where t: "cm_trees c = t # ts" using assms by (cases "cm_trees c") auto
  then show ?thesis using assms child_of_root [of by_rank l k] child_of_root [of by_rank r k]
    by (simp add: children_def first_tree_def)
qed

lemma entries_enqueue: "map (\<lambda>c. (c, k)) (map (fst \<circ> queue_entry) (enqueue k t)) = map queue_entry (enqueue k t)"
  by (cases t) (auto simp: queue_entry_def)

lemma below_step:
  "below j ((l, c, r, k) # ts) = (if j = k then {#c#} else {#}) + below j (ts @ enqueue (k + 1) l @ enqueue (k + 1) r)"
proof -
  have e: "below j (enqueue (k + 1) t) = (if k < j then at_depth (j - Suc k) t else {#})" for t
    by (cases t) (auto simp: below_def)
  have a: "below j (xs @ ys) = below j xs + below j ys" for xs ys by (simp add: below_def)
  have "at_depth (j - k) (Node l c r) = at_depth (j - Suc k) l + at_depth (j - Suc k) r" if "k < j"
    using that by (simp add: Suc_diff_Suc [symmetric])
  then show ?thesis unfolding a e by (auto simp: below_def)
qed

lemma tree_walk_layers:
  assumes "\<forall>q\<in>set ts. tree_shape by_rank (queued_tree q)"
  shows "\<exists>layers'. tree_walk by_rank (map queue_entry ts) layers = Some (Inr layers') \<and>
    (\<forall>j. mset (dict_get layers' j []) = mset (dict_get layers j []) + below j ts)"
  using assms
proof (induction "\<Sum>q\<leftarrow>ts. size (queued_tree q)" arbitrary: ts layers rule: less_induct)
  case less
  show ?case
  proof (cases ts)
    case Nil
    then show ?thesis by (subst tree_walk.simps) (simp add: below_def)
  next
    case (Cons q rest)
    obtain l c r k where q: "q = (l, c, r, k)" by (metis prod_cases4)
    have sh: "tree_shape by_rank (Node l c r)" using less.prems Cons q by (simp add: queued_tree_def)
    let ?ts = "rest @ enqueue (k + 1) l @ enqueue (k + 1) r"
    have sz: "(\<Sum>q\<leftarrow>enqueue (k + 1) t. size (queued_tree q)) = size t" for t
      by (cases t) (simp_all add: queued_tree_def)
    have shp: "\<forall>q\<in>set (enqueue (k + 1) t). tree_shape by_rank (queued_tree q)" if "tree_shape by_rank t" for t
      using that by (cases t) (simp_all add: queued_tree_def)
    have entry: "queue_entry q = (c, k)" by (simp add: q queue_entry_def)
    have 1: "(\<Sum>q\<leftarrow>?ts. size (queued_tree q)) < (\<Sum>q\<leftarrow>ts. size (queued_tree q))"
      using Cons q sz by (simp add: queued_tree_def)
    have "\<forall>q\<in>set ?ts. tree_shape by_rank (queued_tree q)"
      using less.prems Cons sh shp [of l] shp [of r] by auto
    from less.hyps [OF 1 this, of "group_add k c layers"] obtain layers' where
      w: "tree_walk by_rank (map queue_entry ?ts) (group_add k c layers) = Some (Inr layers')"
      and m: "\<forall>j. mset (dict_get layers' j []) = mset (dict_get (group_add k c layers) j []) + below j ?ts"
      by blast
    have "tree_walk by_rank (map queue_entry ts) layers =
        tree_walk by_rank (map queue_entry ?ts) (group_add k c layers)"
      using children_shape [OF sh, of "k + 1"] Cons q entry entries_enqueue [of "k + 1" l] entries_enqueue [of "k + 1" r]
      by (subst tree_walk.simps) (simp del: map_map add: comp_def)
    moreover have "mset (dict_get layers' j []) = mset (dict_get layers j []) + below j ts" for j
      using m Cons q below_step [of j l c r k rest] by (simp add: group_add_get)
    ultimately show ?thesis using w by auto
  qed
qed

text \<open>
  C19. Trees are labelled by layer. When the first channels of a group describe a binary tree, the
  breadth-first search ends, and every layer holds exactly the communicators at that depth.
\<close>

theorem tree_is_layered:
  assumes "find_root comms = Inr (Some c)" and "tree_shape (comms_by_rank comms) (Node l c r)"
  shows "\<exists>layers. build_tree comms = Some (Inr layers) \<and>
    (\<forall>j. mset (dict_get layers j []) = at_depth j (Node l c r))"
  using tree_walk_layers [of "[(l, c, r, 0)]" "comms_by_rank comms" "[]"] assms
  by (auto simp: build_tree_def queue_entry_def queued_tree_def below_def dict_get_def)

definition demo_node :: "int \<Rightarrow> int \<Rightarrow> int \<Rightarrow> int \<Rightarrow> communicator" where
  "demo_node rank up dl dr =
     demo_comm\<lparr>cm_comm_addr := rank, cm_group_rank := rank, cm_global_rank := rank,
       cm_trees := [\<lparr>tn_depth = 0, tn_up = up, tn_down = [dl, dr, - 1]\<rparr>]\<rparr>"

theorem tree_is_layered_witness:
  "\<exists>layers. build_tree [demo_node 1 0 (- 1) (- 1), demo_node 0 (- 1) 1 2, demo_node 2 0 (- 1) (- 1)] =
       Some (Inr layers) \<and>
     mset (dict_get layers 1 []) = {#demo_node 1 0 (- 1) (- 1), demo_node 2 0 (- 1) (- 1)#}"
proof -
  let ?cs = "[demo_node 1 0 (- 1) (- 1), demo_node 0 (- 1) 1 2, demo_node 2 0 (- 1) (- 1)]"
  let ?l = "Node Leaf (demo_node 1 0 (- 1) (- 1)) Leaf" and ?r = "Node Leaf (demo_node 2 0 (- 1) (- 1)) Leaf"
  have "find_root ?cs = Inr (Some (demo_node 0 (- 1) 1 2))" by (simp add: demo_node_def first_tree_def)
  moreover have "comms_by_rank ?cs = [(1, ?cs ! 0), (0, ?cs ! 1), (2, ?cs ! 2)]"
    by (simp add: comms_by_rank_def dict_merge_def demo_node_def)
  then have "tree_shape (comms_by_rank ?cs) (Node ?l (demo_node 0 (- 1) 1 2) ?r)" by (simp add: demo_node_def)
  ultimately show ?thesis using tree_is_layered by fastforce
qed

text \<open>
  The tasks of a tree test at most two links per layer, those of the layer's first node, however many
  communicators the layer has.
\<close>

lemma layer_tasks_bound:
  "layer_tasks is tr = Inr (ls, rs) \<Longrightarrow> length ls \<le> length is \<and> length rs \<le> length is"
proof (induction "is" arbitrary: ls rs)
  case (Cons i "is")
  then show ?case by (fastforce split: sum.splits prod.splits option.splits)
qed simp

lemma split_tree_few_links:
  assumes "split_tree tr = Inr tasks"
  shows "length (concat (map task_links tasks)) \<le> 2 * length tr"
proof -
  obtain a b c d where t: "layer_tasks (slice_by_two [0..<length tr]) tr = Inr (a, b)"
      "layer_tasks (slice_by_two (drop 1 [0..<length tr])) tr = Inr (c, d)"
      "tasks = map (\<lambda>ps. (map fst ps, map snd ps)) [a, b, c, d]"
    using assms by (auto simp: split_tree_def Let_def split: sum.splits prod.splits)
  have "length (concat (map task_links tasks)) = length a + length b + length c + length d"
    by (simp add: t(3) task_links_def)
  also have "\<dots> \<le> 2 * length tr"
  proof -
    have e: "length (slice_by_two [0..<length tr]) = (length tr + 1) div 2"
      "length (slice_by_two (drop 1 [0..<length tr])) = (length tr - 1 + 1) div 2" by simp_all
    show ?thesis using layer_tasks_bound [OF t(1)] layer_tasks_bound [OF t(2)] unfolding e by presburger
  qed
  finally show ?thesis .
qed

end
