(* ===== verification/Slow_Clique.thy ===== *)
theory Slow_Clique
  imports Comm_Topology Redis_Client
begin

text \<open>
  \<open>detector/control_plane/global_analyzer.py\<close>: the parallel groups of a training job, the cliques of
  communicators (tensor, data and pipeline parallel groups), and the search for the cliques whose
  communication is slower than that of the cliques at the same position. Latencies are exact
  rationals. The median of \<open>numpy\<close> is a function argument with the documented behaviour as
  hypothesis. The order in which Python lists a set of groups is the argument of a shuffle.
\<close>

section \<open>Metrics and cliques\<close>

record perf_metric =
  pm_min_lat :: rat
  pm_max_lat :: rat
  pm_avg_lat :: rat
  pm_std_lat :: rat

record clique =
  cq_comms :: "communicator list"
  cq_ranks :: "int list"
  cq_is_special :: bool
  cq_is_tp :: bool
  cq_is_dp :: bool
  cq_is_pp :: bool
  cq_pp_stage :: "int option"

definition new_clique :: "communicator list \<Rightarrow> bool \<Rightarrow> bool \<Rightarrow> bool \<Rightarrow> bool \<Rightarrow> int option \<Rightarrow> clique" where
  "new_clique comms is_special is_tp is_dp is_pp pp_stage =
     \<lparr>cq_comms = comms, cq_ranks = sort (map cm_global_rank comms), cq_is_special = is_special,
      cq_is_tp = is_tp, cq_is_dp = is_dp, cq_is_pp = is_pp, cq_pp_stage = pp_stage\<rparr>"

text \<open>
  The tag is only compared with other tags; its four kinds of texts (\<open>special_[..]\<close>, \<open>pp\<close>, \<open>ppstage<n>_dp\<close>
  and \<open>ppstage<n>_tp\<close>) are the constructors.
\<close>

datatype clique_tag = TagSpecial "int list" | TagPP | TagDP int | TagTP int

definition cq_tag :: "clique \<Rightarrow> clique_tag py_result" where
  "cq_tag c =
     (if cq_is_special c then Inr (TagSpecial (cq_ranks c))
      else if cq_is_pp c then Inr TagPP
      else case cq_pp_stage c of
             None \<Rightarrow> Inl AssertionError
           | Some stage \<Rightarrow>
               if \<not> (cq_is_dp c \<or> cq_is_tp c) then Inl AssertionError
               else if cq_is_dp c then Inr (TagDP stage) else Inr (TagTP stage))"

fun index_of :: "'a list \<Rightarrow> 'a \<Rightarrow> int" where
  "index_of [] x = 0"
| "index_of (y # ys) x = (if y = x then 0 else 1 + index_of ys x)"

fun find_ppstage :: "int list list \<Rightarrow> int \<Rightarrow> int py_result" where
  "find_ppstage [] rep_rank = Inl AssertionError"
| "find_ppstage (ppg # pp) rep_rank =
     (if rep_rank \<in> set ppg then Inr (index_of ppg rep_rank) else find_ppstage pp rep_rank)"

definition build_clique ::
    "communicator list \<Rightarrow> int list list \<Rightarrow> int list list \<Rightarrow> int list list \<Rightarrow> clique py_result" where
  "build_clique comms tp dp pp =
     (let comm_ranks = sort (map cm_global_rank comms)
      in if comm_ranks \<in> set pp then Inr (new_clique comms False False False True None)
         else if comm_ranks \<in> set tp
         then (if comm_ranks = [] then Inl IndexError
               else case find_ppstage pp (comm_ranks ! 0) of
                      Inl e \<Rightarrow> Inl e
                    | Inr st \<Rightarrow> Inr (new_clique comms False True False False (Some st)))
         else if comm_ranks \<in> set dp
         then (if comm_ranks = [] then Inl IndexError
               else case find_ppstage pp (comm_ranks ! 0) of
                      Inl e \<Rightarrow> Inl e
                    | Inr st \<Rightarrow> Inr (new_clique comms False False True False (Some st)))
         else Inr (new_clique comms True False False False None))"

section \<open>The global analyzer\<close>

record global_analyzer =
  ga_world_size :: int
  ga_tp :: "int list list"
  ga_dp :: "int list list"
  ga_pp :: "int list list"

fun parse_ints :: "string list \<Rightarrow> int list py_result" where
  "parse_ints [] = Inr []"
| "parse_ints (w # ws) =
     (case py_int_str w of
        Inl e \<Rightarrow> Inl e
      | Inr i \<Rightarrow> (case parse_ints ws of Inl e \<Rightarrow> Inl e | Inr is \<Rightarrow> Inr (i # is)))"

definition parse_rankstr :: "string \<Rightarrow> int list py_result" where
  "parse_rankstr s = parse_ints (py_split (CHR ''_'') s)"

definition rank_group :: "'st redis_client \<Rightarrow> int \<Rightarrow> string \<Rightarrow> 'st \<Rightarrow> int list py_result" where
  "rank_group rc rank suffix st =
     (case redis_text rc (py_str_int rank @ suffix) st of Inl e \<Rightarrow> Inl e | Inr s \<Rightarrow> parse_rankstr s)"

fun rank_groups ::
    "'st redis_client \<Rightarrow> int list \<Rightarrow> 'st \<Rightarrow> (int list list \<times> int list list \<times> int list list) py_result" where
  "rank_groups rc [] st = Inr ([], [], [])"
| "rank_groups rc (r # rs) st =
     (case rank_group rc r ''_tp'' st of
        Inl e \<Rightarrow> Inl e
      | Inr tp_r \<Rightarrow>
          (case rank_group rc r ''_dp'' st of
             Inl e \<Rightarrow> Inl e
           | Inr dp_r \<Rightarrow>
               (case rank_group rc r ''_pp'' st of
                  Inl e \<Rightarrow> Inl e
                | Inr pp_r \<Rightarrow>
                    (case rank_groups rc rs st of
                       Inl e \<Rightarrow> Inl e
                     | Inr (tp, dp, pp) \<Rightarrow> Inr (tp_r # tp, dp_r # dp, pp_r # pp)))))"

text \<open>\<open>list(set(groups))\<close> lists the groups without repetition in some order.\<close>

definition get_parallel_states ::
    "'st redis_client \<Rightarrow> nat list \<times> nat list \<times> nat list \<Rightarrow> int \<Rightarrow> 'st
     \<Rightarrow> (int list list \<times> int list list \<times> int list list) py_result" where
  "get_parallel_states rc order world_size st =
     (case rank_groups rc [0..world_size - 1] st of
        Inl e \<Rightarrow> Inl e
      | Inr (tp, dp, pp) \<Rightarrow>
          (case order of (p, q, r) \<Rightarrow>
             Inr (shuffle_by p (remdups tp), shuffle_by q (remdups dp), shuffle_by r (remdups pp))))"

text \<open>
  \<open>build_comm_cliques\<close> tests whether a clique object is in a set of hash values. An object without
  \<open>__eq__\<close> is never equal to a number, so the test always passes and every communicator gets a clique.
\<close>

fun clique_entries ::
    "global_analyzer \<Rightarrow> communicator list \<Rightarrow> communicator list \<Rightarrow> (int, clique) dict \<Rightarrow> (int, clique) dict py_result" where
  "clique_entries ga comm_clique [] d = Inr d"
| "clique_entries ga comm_clique (c # cs) d =
     (case build_clique comm_clique (ga_tp ga) (ga_dp ga) (ga_pp ga) of
        Inl e \<Rightarrow> Inl e
      | Inr cli \<Rightarrow> clique_entries ga comm_clique cs (AList.update (cm_comm_addr c) cli d))"

fun all_clique_entries ::
    "global_analyzer \<Rightarrow> communicator list list \<Rightarrow> (int, clique) dict \<Rightarrow> (int, clique) dict py_result" where
  "all_clique_entries ga [] d = Inr d"
| "all_clique_entries ga (g # gs) d =
     (case clique_entries ga g g d of Inl e \<Rightarrow> Inl e | Inr d' \<Rightarrow> all_clique_entries ga gs d')"

definition build_comm_cliques :: "global_analyzer \<Rightarrow> communicator list \<Rightarrow> (int, clique) dict py_result" where
  "build_comm_cliques ga comms = all_clique_entries ga (map snd (group_all cm_id_hash comms)) []"

text \<open>\<open>GlobalAnalyzer.__init__\<close> polls for the number of ranks and reads the groups.\<close>

fun wait_world_size :: "'st redis_client \<Rightarrow> 'st env \<Rightarrow> 'st \<Rightarrow> ('st, int) waiting" where
  "wait_world_size rc [] st = None"
| "wait_world_size rc (others # env) st =
     (case rc_get rc ''world_size'' st of
        None \<Rightarrow> wait_world_size rc env (others st)
      | Some t \<Rightarrow> Some (py_int_str t, env, others st))"

definition new_global_analyzer ::
    "'st redis_client \<Rightarrow> nat list \<times> nat list \<times> nat list \<Rightarrow> 'st env \<Rightarrow> 'st \<Rightarrow> ('st, global_analyzer) waiting" where
  "new_global_analyzer rc order env st =
     wait_then (wait_world_size rc env st) (\<lambda>world_size env st.
       Some (case get_parallel_states rc order world_size st of
               Inl e \<Rightarrow> Inl e
             | Inr (tp, dp, pp) \<Rightarrow> Inr \<lparr>ga_world_size = world_size, ga_tp = tp, ga_dp = dp, ga_pp = pp\<rparr>, env, st))"

text \<open>
  \<open>wait_and_build_performance_map\<close> polls the store until the number of results stops growing, and then
  deletes them from the store.
\<close>

definition strip_chars :: "char list \<Rightarrow> string \<Rightarrow> string" where
  "strip_chars cs s = rev (dropWhile (\<lambda>c. c \<in> set cs) (rev (dropWhile (\<lambda>c. c \<in> set cs) s)))"

fun parse_floats :: "float_io \<Rightarrow> string list \<Rightarrow> rat list py_result" where
  "parse_floats fl [] = Inr []"
| "parse_floats fl (w # ws) =
     (case fl_parse fl w of
        Inl e \<Rightarrow> Inl e
      | Inr x \<Rightarrow> (case parse_floats fl ws of Inl e \<Rightarrow> Inl e | Inr xs \<Rightarrow> Inr (x # xs)))"

definition parse_metric :: "float_io \<Rightarrow> string \<Rightarrow> perf_metric py_result" where
  "parse_metric fl perf_str =
     (case parse_floats fl (py_split (CHR ''_'') perf_str) of
        Inl e \<Rightarrow> Inl e
      | Inr [a, b, c, d] \<Rightarrow> Inr \<lparr>pm_min_lat = a, pm_max_lat = b, pm_avg_lat = c, pm_std_lat = d\<rparr>
      | Inr _ \<Rightarrow> Inl TypeError)"

fun scan_perfs ::
    "'st redis_client \<Rightarrow> float_io \<Rightarrow> string list \<Rightarrow> (int, perf_metric) dict \<Rightarrow> 'st \<Rightarrow> (int, perf_metric) dict py_result" where
  "scan_perfs rc fl [] comm_perfs st = Inr comm_perfs"
| "scan_perfs rc fl (key # keys) comm_perfs st =
     (case py_int_str (strip_chars ''Perf_'' key) of
        Inl e \<Rightarrow> Inl e
      | Inr comm_addr \<Rightarrow>
          (case redis_text rc key st of
             Inl e \<Rightarrow> Inl e
           | Inr perf_str \<Rightarrow>
               (case parse_metric fl perf_str of
                  Inl e \<Rightarrow> Inl e
                | Inr m \<Rightarrow> scan_perfs rc fl keys (AList.update comm_addr m comm_perfs) st)))"

fun wait_perfs ::
    "'st redis_client \<Rightarrow> float_io \<Rightarrow> (int, perf_metric) dict \<Rightarrow> nat \<Rightarrow> 'st env \<Rightarrow> 'st
     \<Rightarrow> ('st, (int, perf_metric) dict) waiting" where
  "wait_perfs rc fl comm_perfs old_num_records env st =
     (case scan_perfs rc fl (rc_scan rc ''Perf_'' st) comm_perfs st of
        Inl e \<Rightarrow> Some (Inl e, env, st)
      | Inr comm_perfs' \<Rightarrow>
          if length comm_perfs' \<noteq> 0 \<and> length comm_perfs' = old_num_records then Some (Inr comm_perfs', env, st)
          else
            case env of
              [] \<Rightarrow> None
            | others # env' \<Rightarrow>
                wait_perfs rc fl comm_perfs'
                  (if length comm_perfs' = 0 then old_num_records else length comm_perfs') env' (others st))"

definition wait_and_build_performance_map ::
    "'st redis_client \<Rightarrow> float_io \<Rightarrow> 'st env \<Rightarrow> 'st \<Rightarrow> ('st, (int, perf_metric) dict) waiting" where
  "wait_and_build_performance_map rc fl env st =
     wait_then (wait_perfs rc fl [] 0 env st) (\<lambda>comm_perfs env st.
       Some (Inr comm_perfs, env, fold (rc_delete rc) (rc_scan rc ''Perf_'' st) st))"

declare wait_perfs.simps [simp del]

section \<open>Slow cliques\<close>

type_synonym perf_item = "int \<times> int list \<times> perf_metric"

fun tag_perfs :: "(int, clique) dict \<Rightarrow> (int, perf_metric) dict \<Rightarrow> (clique_tag \<times> perf_item) list py_result" where
  "tag_perfs cliques [] = Inr []"
| "tag_perfs cliques ((comm_addr, perf) # perfs) =
     (case map_of cliques comm_addr of
        None \<Rightarrow> Inl KeyError
      | Some c \<Rightarrow>
          (case cq_tag c of
             Inl e \<Rightarrow> Inl e
           | Inr tag \<Rightarrow>
               (case tag_perfs cliques perfs of
                  Inl e \<Rightarrow> Inl e
                | Inr items \<Rightarrow> Inr ((tag, comm_addr, cq_ranks c, perf) # items))))"

text \<open>The slowest communicator of a clique: the later one of two with the same time.\<close>

definition slowest :: "perf_item list \<Rightarrow> int option \<times> rat" where
  "slowest items =
     fold (\<lambda>(i_addr, ranks, i_metric) (max_addr, max_lat).
       if pm_avg_lat i_metric \<ge> max_lat then (Some i_addr, pm_avg_lat i_metric) else (max_addr, max_lat))
     items (None, 0)"

definition same_pos_comm_times :: "perf_item list \<Rightarrow> (int option \<times> rat) list" where
  "same_pos_comm_times items = map (slowest \<circ> snd) (group_all (fst \<circ> snd) items)"

definition slow_at_position :: "(rat list \<Rightarrow> rat) \<Rightarrow> (int option \<times> rat) list \<Rightarrow> int option list" where
  "slow_at_position median ts =
     (if length ts = 1 then map fst ts
      else if length ts \<ge> 2
      then map fst (filter (\<lambda>(addr, t). t \<ge> 12 / 10 * median (map snd ts)) ts)
      else [])"

fun look_up_cliques :: "(int, clique) dict \<Rightarrow> int option list \<Rightarrow> clique list py_result" where
  "look_up_cliques cliques [] = Inr []"
| "look_up_cliques cliques (a # as) =
     (case Option.bind a (map_of cliques) of
        None \<Rightarrow> Inl KeyError
      | Some c \<Rightarrow> (case look_up_cliques cliques as of Inl e \<Rightarrow> Inl e | Inr cs \<Rightarrow> Inr (c # cs)))"

definition find_slow_clique ::
    "(rat list \<Rightarrow> rat) \<Rightarrow> (int, perf_metric) dict \<Rightarrow> (int, clique) dict \<Rightarrow> clique list py_result" where
  "find_slow_clique median perfs cliques =
     (case tag_perfs cliques perfs of
        Inl e \<Rightarrow> Inl e
      | Inr items \<Rightarrow>
          look_up_cliques cliques
            (concat (map (slow_at_position median \<circ> same_pos_comm_times \<circ> map snd \<circ> snd) (group_all fst items))))"

section \<open>Exactly the slow cliques are found\<close>

text \<open>The documented behaviour of \<open>numpy.median\<close>: the middle of the sorted values, or the mean of the two.\<close>

definition numpy_median :: "(rat list \<Rightarrow> rat) \<Rightarrow> bool" where
  "numpy_median median \<longleftrightarrow>
     (\<forall>xs. xs \<noteq> [] \<longrightarrow> median xs = (sort xs ! ((length xs - 1) div 2) + sort xs ! (length xs div 2)) / 2)"

lemma median_cong:
  assumes "numpy_median median" and "xs \<noteq> []" and "mset xs = mset ys"
  shows "median xs = median ys"
proof -
  have ys: "ys \<noteq> []" "length xs = length ys" using assms(2,3) by (auto dest: mset_eq_length)
  have s: "sort xs = sort ys" using assms(3) by (intro properties_for_sort) simp_all
  have "median zs = (sort zs ! ((length zs - 1) div 2) + sort zs ! (length zs div 2)) / 2" if "zs \<noteq> []" for zs
    using assms(1) that unfolding numpy_median_def by blast
  from this [OF assms(2)] this [OF ys(1)] show ?thesis by (simp only: ys(2) s)
qed

text \<open>
  The position and the ranks of the clique of a result, the cliques at a position, the time of a
  clique (that of its slowest communicator) and the times at a position.
\<close>

definition clique_key :: "(int, clique) dict \<Rightarrow> int \<Rightarrow> clique_tag \<times> int list" where
  "clique_key cliques a = (case map_of cliques a of
     Some c \<Rightarrow> (case cq_tag c of Inr tag \<Rightarrow> (tag, cq_ranks c) | Inl _ \<Rightarrow> (TagPP, [])) | None \<Rightarrow> (TagPP, []))"

definition cliques_at :: "(int, clique) dict \<Rightarrow> (int, perf_metric) dict \<Rightarrow> clique_tag \<Rightarrow> int list set" where
  "cliques_at cliques perfs tag = {ranks. (tag, ranks) \<in> clique_key cliques ` fst ` set perfs}"

definition clique_time :: "(int, clique) dict \<Rightarrow> (int, perf_metric) dict \<Rightarrow> clique_tag \<Rightarrow> int list \<Rightarrow> rat" where
  "clique_time cliques perfs tag ranks = Max {pm_avg_lat p |a p. (a, p) \<in> set perfs \<and> clique_key cliques a = (tag, ranks)}"

definition position_times :: "(int, clique) dict \<Rightarrow> (int, perf_metric) dict \<Rightarrow> clique_tag \<Rightarrow> rat list" where
  "position_times cliques perfs tag =
     sorted_list_of_multiset (image_mset (clique_time cliques perfs tag) (mset_set (cliques_at cliques perfs tag)))"

definition slow_keys ::
    "(rat list \<Rightarrow> rat) \<Rightarrow> (int, clique) dict \<Rightarrow> (int, perf_metric) dict \<Rightarrow> (clique_tag \<times> int list) set" where
  "slow_keys median cliques perfs =
     {(tag, ranks). ranks \<in> cliques_at cliques perfs tag \<and>
        (card (cliques_at cliques perfs tag) = 1 \<or>
         clique_time cliques perfs tag ranks \<ge> 12 / 10 * median (position_times cliques perfs tag))}"

definition known :: "(int, clique) dict \<Rightarrow> int \<Rightarrow> bool" where
  "known cliques a \<longleftrightarrow> (case map_of cliques a of None \<Rightarrow> False | Some c \<Rightarrow> (case cq_tag c of Inl _ \<Rightarrow> False | Inr _ \<Rightarrow> True))"

lemma tag_perfs_known:
  "list_all (\<lambda>(a, p). known cliques a) perfs \<Longrightarrow>
   tag_perfs cliques perfs = Inr (map (\<lambda>(a, p). (fst (clique_key cliques a), a, snd (clique_key cliques a), p)) perfs)"
  by (induction perfs) (auto simp: known_def clique_key_def split: option.splits sum.splits)

lemma slowest_snoc:
  "slowest (items @ [(a, r, p)]) =
     (if pm_avg_lat p \<ge> snd (slowest items) then (Some a, pm_avg_lat p) else slowest items)"
  by (simp add: slowest_def split_def)

lemma slowest_max:
  assumes "items \<noteq> []" and "\<forall>(a, r, p)\<in>set items. 0 \<le> pm_avg_lat p"
  shows "snd (slowest items) = Max ((\<lambda>(a, r, p). pm_avg_lat p) ` set items) \<and>
    (\<exists>x\<in>set items. fst (slowest items) = Some (fst x))"
  using assms
proof (induction items rule: rev_induct)
  case (snoc x items)
  obtain a r p where x: "x = (a, r, p)" by (metis prod_cases3)
  show ?case
  proof (cases "items = []")
    case True
    have "slowest [x] = (Some a, pm_avg_lat p)" using slowest_snoc [of "[]" a r p] snoc.prems(2) x True by (simp add: slowest_def)
    then show ?thesis using True x by simp
  next
    case False
    then have IH: "snd (slowest items) = Max ((\<lambda>(a, r, p). pm_avg_lat p) ` set items)"
      "\<exists>x\<in>set items. fst (slowest items) = Some (fst x)"
      using snoc by auto
    have "Max ((\<lambda>(a, r, p). pm_avg_lat p) ` set (items @ [x])) =
        max (pm_avg_lat p) (Max ((\<lambda>(a, r, p). pm_avg_lat p) ` set items))"
      using False x by simp
    moreover have "slowest (items @ [x]) =
        (if pm_avg_lat p \<ge> snd (slowest items) then (Some a, pm_avg_lat p) else slowest items)"
      unfolding x by (rule slowest_snoc)
    ultimately show ?thesis using IH x
      by (cases "pm_avg_lat p \<ge> snd (slowest items)") (simp_all add: max_def)
  qed
qed simp

lemma look_up_known:
  "list_all (\<lambda>a. \<exists>b. a = Some b \<and> known cliques b) as \<Longrightarrow>
   \<exists>res. look_up_cliques cliques as = Inr res \<and>
     map (\<lambda>c. (cq_tag c, cq_ranks c)) res = map (\<lambda>a. (Inr (fst (clique_key cliques (the a))), snd (clique_key cliques (the a)))) as"
  by (induction as) (auto simp: known_def clique_key_def split: option.splits sum.splits)

text \<open>The results at one position, and what the inner loops make of them.\<close>

definition items_at :: "(int, clique) dict \<Rightarrow> (int, perf_metric) dict \<Rightarrow> clique_tag \<Rightarrow> perf_item list" where
  "items_at cliques perfs tag =
     map (\<lambda>(a, p). (a, snd (clique_key cliques a), p)) (filter (\<lambda>(a, p). fst (clique_key cliques a) = tag) perfs)"

lemma items_at_ranks: "(fst \<circ> snd) ` set (items_at cliques perfs tag) = cliques_at cliques perfs tag"
proof (rule set_eqI)
  fix r
  have "r \<in> (fst \<circ> snd) ` set (items_at cliques perfs tag) \<longleftrightarrow>
      (\<exists>x\<in>set perfs. fst (clique_key cliques (fst x)) = tag \<and> snd (clique_key cliques (fst x)) = r)"
    unfolding items_at_def by (force simp: image_iff split_def)
  also have "\<dots> \<longleftrightarrow> r \<in> cliques_at cliques perfs tag" by (auto simp: cliques_at_def image_iff prod_eq_iff)
  finally show "r \<in> (fst \<circ> snd) ` set (items_at cliques perfs tag) \<longleftrightarrow> r \<in> cliques_at cliques perfs tag" .
qed

lemma finite_cliques_at: "finite (cliques_at cliques perfs tag)"
  unfolding items_at_ranks [symmetric] by simp

lemma items_at_group:
  fixes cliques perfs tag ranks
  assumes "list_all (\<lambda>(a, p). known cliques a \<and> 0 \<le> pm_avg_lat p) perfs" and "ranks \<in> cliques_at cliques perfs tag"
  defines "g \<equiv> filter (\<lambda>x. (fst \<circ> snd) x = ranks) (items_at cliques perfs tag)"
  shows "snd (slowest g) = clique_time cliques perfs tag ranks"
    and "\<exists>a. fst (slowest g) = Some a \<and> known cliques a \<and> clique_key cliques a = (tag, ranks)"
proof -
  have mem: "(a, r, p) \<in> set g \<longleftrightarrow> (a, p) \<in> set perfs \<and> clique_key cliques a = (tag, ranks) \<and> r = ranks" for a r p
    by (auto simp: g_def items_at_def prod_eq_iff)
  have ne: "g \<noteq> []"
    using assms(2) unfolding items_at_ranks [symmetric] g_def filter_empty_conv by blast
  have nn: "\<forall>(a, r, p)\<in>set g. 0 \<le> pm_avg_lat p" using assms(1) mem by (auto simp: list_all_iff)
  note s = slowest_max [OF ne nn]
  have "(\<lambda>(a, r, p). pm_avg_lat p) ` set g = {pm_avg_lat p |a p. (a, p) \<in> set perfs \<and> clique_key cliques a = (tag, ranks)}"
    (is "?A = ?B")
  proof (intro set_eqI iffI)
    fix t assume "t \<in> ?A"
    then obtain a r p where "(a, r, p) \<in> set g" "t = pm_avg_lat p" by auto
    then show "t \<in> ?B" using mem [of a r p] by blast
  next
    fix t assume "t \<in> ?B"
    then obtain a p where "t = pm_avg_lat p" "(a, ranks, p) \<in> set g" using mem by blast
    then show "t \<in> ?A" by (intro rev_image_eqI [of "(a, ranks, p)"]) auto
  qed
  then show "snd (slowest g) = clique_time cliques perfs tag ranks" using s by (simp add: clique_time_def)
  show "\<exists>a. fst (slowest g) = Some a \<and> known cliques a \<and> clique_key cliques a = (tag, ranks)"
  proof -
    obtain a r p where x: "(a, r, p) \<in> set g" "fst (slowest g) = Some a" using s by auto
    then show ?thesis using mem [of a r p] assms(1) by (auto simp: list_all_iff)
  qed
qed

lemma list_all2_refl_on: "(\<And>x. x \<in> set xs \<Longrightarrow> P x x) \<Longrightarrow> list_all2 P xs xs"
  by (simp add: list_all2_same)

lemma position_addresses:
  assumes ok: "list_all (\<lambda>(a, p). known cliques a \<and> 0 \<le> pm_avg_lat p) perfs" and "numpy_median median"
    and "cliques_at cliques perfs tag \<noteq> {}"
  shows "\<exists>G. distinct G \<and> set G = {ranks. (tag, ranks) \<in> slow_keys median cliques perfs} \<and>
    list_all2 (\<lambda>a ranks. \<exists>b. a = Some b \<and> known cliques b \<and> clique_key cliques b = (tag, ranks))
      (slow_at_position median (same_pos_comm_times (items_at cliques perfs tag))) G"
proof -
  let ?D = "group_all (fst \<circ> snd) (items_at cliques perfs tag)"
  let ?R = "cliques_at cliques perfs tag"
  let ?ts = "same_pos_comm_times (items_at cliques perfs tag)"
  have D: "\<And>r g. (r, g) \<in> set ?D \<Longrightarrow> r \<in> ?R \<and> g = filter (\<lambda>x. (fst \<circ> snd) x = r) (items_at cliques perfs tag)"
    unfolding group_all_mem items_at_ranks by blast
  have time: "snd (slowest g) = clique_time cliques perfs tag r"
    and addr: "\<exists>b. fst (slowest g) = Some b \<and> known cliques b \<and> clique_key cliques b = (tag, r)"
    if "(r, g) \<in> set ?D" for r g
    using items_at_group [OF ok] D [OF that] by blast+
  have keys: "set (map fst ?D) = ?R" "distinct (map fst ?D)"
    unfolding set_map group_all_keys(1) items_at_ranks by (rule refl) (rule group_all_keys(2))
  then have len: "length ?ts = card ?R" using distinct_card [of "map fst ?D"] by (simp add: same_pos_comm_times_def)
  have "mset (map snd ?ts) = image_mset (clique_time cliques perfs tag) (mset_set ?R)"
  proof -
    have "map snd ?ts = map (clique_time cliques perfs tag) (map fst ?D)"
      using time by (force simp: same_pos_comm_times_def)
    then show ?thesis using keys by (metis mset_map mset_set_set)
  qed
  then have med: "median (map snd ?ts) = median (position_times cliques perfs tag)"
    using assms(2,3) len finite_cliques_at [of cliques perfs tag]
    by (intro median_cong) (auto simp: position_times_def simp flip: length_0_conv)
  let ?sel = "filter (\<lambda>r. card ?R = 1 \<or> clique_time cliques perfs tag r \<ge> 12 / 10 * median (position_times cliques perfs tag))"
  have pos: "0 < card ?R" using assms(3) finite_cliques_at by (simp add: card_gt_0_iff)
  let ?P = "\<lambda>x. card ?R = 1 \<or> snd (slowest (snd x)) \<ge> 12 / 10 * median (position_times cliques perfs tag)"
  have sl: "slow_at_position median ?ts = map (fst \<circ> slowest \<circ> snd) (filter ?P ?D)"
  proof (cases "card ?R = 1")
    case True
    then show ?thesis using len by (simp add: slow_at_position_def same_pos_comm_times_def)
  next
    case False
    then have "length ?ts \<ge> 2" "length ?ts \<noteq> 1" using pos len by linarith+
    then show ?thesis using False med
      by (simp add: slow_at_position_def same_pos_comm_times_def filter_map o_def split_def)
  qed
  have "filter (\<lambda>x. card ?R = 1 \<or> clique_time cliques perfs tag (fst x) \<ge> 12 / 10 * median (position_times cliques perfs tag)) ?D =
      filter ?P ?D"
    using time by (intro filter_cong) auto
  then have ss: "?sel (map fst ?D) = map fst (filter ?P ?D)" by (simp add: filter_map o_def)
  have l2: "list_all2 (\<lambda>a ranks. \<exists>b. a = Some b \<and> known cliques b \<and> clique_key cliques b = (tag, ranks))
      (map (fst \<circ> slowest \<circ> snd) (filter ?P ?D)) (map fst (filter ?P ?D))"
    unfolding list_all2_map1 list_all2_map2 using addr by (intro list_all2_refl_on) auto
  have st: "set (?sel (map fst ?D)) = {ranks. (tag, ranks) \<in> slow_keys median cliques perfs}"
    using keys(1) by (auto simp: slow_keys_def)
  have ds: "distinct (?sel (map fst ?D))" using keys(2) by (rule distinct_filter)
  show ?thesis by (intro exI [of _ "?sel (map fst ?D)"] conjI ds st) (unfold sl ss, rule l2)
qed

definition tagged_items :: "(int, clique) dict \<Rightarrow> (int, perf_metric) dict \<Rightarrow> (clique_tag \<times> perf_item) list" where
  "tagged_items cliques perfs = map (\<lambda>(a, p). (fst (clique_key cliques a), a, snd (clique_key cliques a), p)) perfs"

lemma tagged_tags: "fst ` set (tagged_items cliques perfs) = fst ` clique_key cliques ` fst ` set perfs"
  by (force simp: tagged_items_def)

lemma positions:
  assumes "(tag, g) \<in> set (group_all fst (tagged_items cliques perfs))"
  shows "map snd g = items_at cliques perfs tag \<and> cliques_at cliques perfs tag \<noteq> {}"
proof -
  have g: "tag \<in> fst ` set (tagged_items cliques perfs)" "g = filter (\<lambda>x. fst x = tag) (tagged_items cliques perfs)"
    using assms unfolding group_all_mem by auto
  have "map snd g = items_at cliques perfs tag"
    by (simp add: g(2) items_at_def tagged_items_def filter_map o_def split_def)
  moreover obtain a where a: "a \<in> fst ` set perfs" "tag = fst (clique_key cliques a)"
    using g(1) unfolding tagged_tags by blast
  then have "snd (clique_key cliques a) \<in> cliques_at cliques perfs tag" by (simp add: cliques_at_def)
  then have "cliques_at cliques perfs tag \<noteq> {}" by blast
  ultimately show ?thesis ..
qed

lemma list_all2_concat_map:
  "(\<And>d. d \<in> set D \<Longrightarrow> list_all2 R (f d) (g d)) \<Longrightarrow> list_all2 R (concat (map f D)) (concat (map g D))"
  by (induction D) (auto intro: list_all2_appendI)

lemma distinct_tagged:
  "distinct (map fst D) \<Longrightarrow> (\<And>d. d \<in> set D \<Longrightarrow> distinct (G d)) \<Longrightarrow>
   distinct (concat (map (\<lambda>d. map (Pair (fst d)) (G d)) D))"
  by (induction D) (auto simp: distinct_map inj_on_def image_iff)

text \<open>
  C7. The search for slow cliques. When every reported communicator belongs to a known clique and no
  latency is negative, the search returns without error, and it names, each once, exactly these
  cliques: a clique that is alone at its position in the parallel layout, and a clique whose slowest
  communicator took at least 1.2 times the median over the cliques at its position.
\<close>

theorem slow_cliques_exact:
  assumes "numpy_median median" and ok: "list_all (\<lambda>(a, p). known cliques a \<and> 0 \<le> pm_avg_lat p) perfs"
  shows "\<exists>found. find_slow_clique median perfs cliques = Inr found \<and>
    distinct (map (\<lambda>c. (cq_tag c, cq_ranks c)) found) \<and>
    set (map (\<lambda>c. (cq_tag c, cq_ranks c)) found) = (\<lambda>(tag, ranks). (Inr tag, ranks)) ` slow_keys median cliques perfs"
proof -
  let ?D = "group_all fst (tagged_items cliques perfs)"
  let ?sel = "\<lambda>d. slow_at_position median (same_pos_comm_times (map snd (snd d)))"
  let ?ok = "\<lambda>a k. \<exists>b. a = Some b \<and> known cliques b \<and> clique_key cliques b = k"
  have "\<exists>G. distinct G \<and> set G = {ranks. (fst d, ranks) \<in> slow_keys median cliques perfs} \<and>
      list_all2 (\<lambda>a ranks. ?ok a (fst d, ranks)) (?sel d) G" if "d \<in> set ?D" for d
    using position_addresses [OF ok assms(1), of "fst d"] positions [of "fst d" "snd d" cliques perfs] that by simp
  from bchoice [OF ballI [OF this]] obtain G where "\<forall>d\<in>set ?D. distinct (G d) \<and>
      set (G d) = {ranks. (fst d, ranks) \<in> slow_keys median cliques perfs} \<and>
      list_all2 (\<lambda>a ranks. ?ok a (fst d, ranks)) (?sel d) (G d)"
    by (rule exE)
  then have G: "distinct (G d)" "set (G d) = {ranks. (fst d, ranks) \<in> slow_keys median cliques perfs}"
      "list_all2 (\<lambda>a ranks. ?ok a (fst d, ranks)) (?sel d) (G d)" if "d \<in> set ?D" for d
    using that by simp_all
  let ?as = "concat (map ?sel ?D)" and ?ks = "concat (map (\<lambda>d. map (Pair (fst d)) (G d)) ?D)"
  have l2: "list_all2 ?ok ?as ?ks"
    using G(3) by (intro list_all2_concat_map) (simp add: list_all2_map2)
  then have "list_all (\<lambda>a. \<exists>b. a = Some b \<and> known cliques b) ?as"
    by (auto simp: list_all2_conv_all_nth list_all_length)
  from look_up_known [OF this] obtain found where found: "look_up_cliques cliques ?as = Inr found"
    "map (\<lambda>c. (cq_tag c, cq_ranks c)) found =
      map (\<lambda>a. (Inr (fst (clique_key cliques (the a))), snd (clique_key cliques (the a)))) ?as" by blast
  have "map (\<lambda>a. (Inr (fst (clique_key cliques (the a))), snd (clique_key cliques (the a)))) ?as =
      map (\<lambda>(tag, ranks). (Inr tag :: clique_tag py_result, ranks)) ?ks"
    using l2 by (intro nth_equalityI) (auto simp: list_all2_conv_all_nth split_def)
  note keys = found(2) [unfolded this]
  have "distinct ?ks" using G(1) group_all_keys(2) by (rule distinct_tagged [rotated])
  then have "distinct (map (\<lambda>c. (cq_tag c, cq_ranks c)) found)"
    unfolding keys by (simp add: distinct_map inj_on_def split_def prod_eq_iff)
  moreover have "set ?ks = slow_keys median cliques perfs"
  proof -
    have "\<exists>d\<in>set ?D. fst d = fst k" if "k \<in> slow_keys median cliques perfs" for k
    proof -
      have "k \<in> clique_key cliques ` fst ` set perfs" using that by (auto simp: slow_keys_def cliques_at_def)
      then have "fst k \<in> fst ` set ?D" unfolding group_all_keys tagged_tags by (rule imageI)
      then show ?thesis by (auto intro: bexI [rotated])
    qed
    moreover have "set ?ks = {k. \<exists>d\<in>set ?D. fst d = fst k \<and> k \<in> slow_keys median cliques perfs}"
      using G(2) by (auto intro: bexI [rotated])
    ultimately show ?thesis by blast
  qed
  moreover have "list_all (\<lambda>(a, p). known cliques a) perfs" using ok by (auto simp: list_all_iff)
  then have "find_slow_clique median perfs cliques = Inr found"
    using found(1) tag_perfs_known [of cliques perfs] by (simp add: find_slow_clique_def tagged_items_def o_def)
  moreover have "set (map (\<lambda>c. (cq_tag c, cq_ranks c)) found) = (\<lambda>(tag, ranks). (Inr tag, ranks)) ` set ?ks"
    unfolding keys by (rule set_map)
  ultimately show ?thesis by (intro exI [of _ found]) simp
qed

definition middle :: "rat list \<Rightarrow> rat" where
  "middle xs = (sort xs ! ((length xs - 1) div 2) + sort xs ! (length xs div 2)) / 2"

definition demo_clique :: "int list \<Rightarrow> clique" where
  "demo_clique ranks = (new_clique [] False True False False (Some 0))\<lparr>cq_ranks := ranks\<rparr>"

definition demo_perf :: "rat \<Rightarrow> perf_metric" where
  "demo_perf t = \<lparr>pm_min_lat = t, pm_max_lat = t, pm_avg_lat = t, pm_std_lat = 0\<rparr>"

theorem slow_cliques_exact_witness:
  "\<exists>found. find_slow_clique middle [(1, demo_perf 10), (2, demo_perf 30), (3, demo_perf 11)]
      [(1, demo_clique [0, 1]), (2, demo_clique [2, 3]), (3, demo_clique [4, 5])] = Inr found \<and>
    distinct (map (\<lambda>c. (cq_tag c, cq_ranks c)) found) \<and> map cq_ranks found = [[2, 3]]"
proof -
  let ?perfs = "[(1, demo_perf 10), (2, demo_perf 30), (3, demo_perf 11)]"
  let ?cliques = "[(1, demo_clique [0, 1]), (2, demo_clique [2, 3]), (3, demo_clique [4, 5])]"
  have "numpy_median middle" by (simp add: numpy_median_def middle_def)
  moreover have "list_all (\<lambda>(a, p). known ?cliques a \<and> 0 \<le> pm_avg_lat p) ?perfs"
    by (simp add: known_def demo_clique_def demo_perf_def new_clique_def cq_tag_def)
  ultimately obtain found where f: "find_slow_clique middle ?perfs ?cliques = Inr found"
    "distinct (map (\<lambda>c. (cq_tag c, cq_ranks c)) found)"
    using slow_cliques_exact by blast
  have "map_sum id (map cq_ranks) (find_slow_clique middle ?perfs ?cliques) = Inr [[2, 3]]" by code_simp
  with f show ?thesis by simp
qed

end
