(* ===== verification/Mitigation.thy ===== *)
theory Mitigation
  imports Slow_Clique
begin

text \<open>
  \<open>detector/control_plane/mitigation_plan.py\<close>, \<open>dp_planner.py\<close>, \<open>pp_planner.py\<close> and \<open>cost_estimator.py\<close>: what the
  global controller does about a fail-slow. Times are exact rationals (the 32-bit rounding of the time
  array is not modelled). The median and the integer solver are function arguments; the measured
  times of a checkpoint are arguments too.
\<close>

section \<open>Costs\<close>

definition get_dp_adjustment_cost :: "int \<Rightarrow> rat \<Rightarrow> rat \<Rightarrow> rat" where
  "get_dp_adjustment_cost dp_check_interval min_iter slow_iter = of_int dp_check_interval * (slow_iter - min_iter) / 2"

definition get_pp_adjustment_cost :: rat where
  "get_pp_adjustment_cost = 60 * 1000"

definition get_restart_adjustment_cost :: "rat \<Rightarrow> rat \<Rightarrow> rat list \<Rightarrow> rat" where
  "get_restart_adjustment_cost ckpt_time restore_time model_params =
     (let (max_ckpt, max_restore) =
        fold (\<lambda>param (c, r).
          (max (param * ckpt_time / (100 * 1000 * 1000)) c, max (param * restore_time / (100 * 1000 * 1000)) r))
        model_params (0, 0)
      in max_ckpt + max_restore + 10000)"

section \<open>Batch sizes\<close>

text \<open>
  \<open>get_time_array\<close>. The slope is computed only for a latency above the threshold times the median; no
  latency being negative, the greatest and the least then differ.
\<close>

fun store_times ::
    "(rat \<Rightarrow> rat) \<Rightarrow> (int, perf_metric) dict \<Rightarrow> rat list \<Rightarrow> rat list py_result" where
  "store_times f [] arr = Inr arr"
| "store_times f ((rank, m) # rest) arr =
     (let j = (if rank < 0 then rank + int (length arr) else rank)
      in if 0 \<le> j \<and> j < int (length arr) then store_times f rest (arr[nat j := f (pm_avg_lat m)]) else Inl IndexError)"

definition rank_time :: "rat \<Rightarrow> rat \<Rightarrow> rat \<Rightarrow> rat \<Rightarrow> rat \<Rightarrow> rat \<Rightarrow> rat \<Rightarrow> rat" where
  "rank_time threshold min_iter slow_iter min_compute max_compute median_compute rank_lat =
     (if rank_lat \<le> threshold * median_compute then min_iter
      else let slope = (slow_iter - min_iter) / (max_compute - min_compute);
               intercept = slow_iter - slope * max_compute
           in slope * rank_lat + intercept)"

definition get_time_array ::
    "'st redis_client \<Rightarrow> float_io \<Rightarrow> (rat list \<Rightarrow> rat) \<Rightarrow> rat \<Rightarrow> (int, perf_metric) dict \<Rightarrow> 'st \<Rightarrow> rat list py_result" where
  "get_time_array rc fl median threshold compute_time st =
     (case redis_float rc fl ''min_iter_time'' st of
        Inl e \<Rightarrow> Inl e
      | Inr min_iter \<Rightarrow>
          (case redis_float rc fl ''cur_iter_time'' st of
             Inl e \<Rightarrow> Inl e
           | Inr slow_iter \<Rightarrow>
               let vals = map (pm_avg_lat \<circ> snd) compute_time
               in if vals = [] then Inl ValueError
                  else store_times
                         (rank_time threshold min_iter slow_iter (Min (set vals)) (Max (set vals)) (median vals))
                         compute_time (replicate (length compute_time) 0)))"

text \<open>\<open>solve_dp\<close>: the solver returns no value for an infeasible problem, and its values are rounded.\<close>

type_synonym dp_solver = "rat list \<Rightarrow> int \<Rightarrow> int \<Rightarrow> rat list option"

definition solve_dp :: "dp_solver \<Rightarrow> rat list \<Rightarrow> int \<Rightarrow> int \<Rightarrow> int list py_result" where
  "solve_dp solver time_array micro_bsz global_bsz =
     (case solver time_array micro_bsz global_bsz of None \<Rightarrow> Inl TypeError | Some vs \<Rightarrow> Inr (map py_round vs))"

section \<open>Results per group\<close>

definition flat_metric :: "rat \<Rightarrow> perf_metric" where
  "flat_metric t = \<lparr>pm_min_lat = t, pm_max_lat = t, pm_avg_lat = t, pm_std_lat = 0\<rparr>"

fun lookup_all :: "('k, 'v) dict \<Rightarrow> 'k list \<Rightarrow> 'v list py_result" where
  "lookup_all d [] = Inr []"
| "lookup_all d (k # ks) =
     (case map_of d k of
        None \<Rightarrow> Inl KeyError
      | Some v \<Rightarrow> (case lookup_all d ks of Inl e \<Rightarrow> Inl e | Inr vs \<Rightarrow> Inr (v # vs)))"

fun sync_results :: "(clique \<Rightarrow> bool) \<Rightarrow> clique list \<Rightarrow> (int, perf_metric) dict \<Rightarrow> (int, perf_metric) dict py_result" where
  "sync_results sel [] res = Inr res"
| "sync_results sel (c # cs) res =
     (if \<not> sel c then sync_results sel cs res
      else case lookup_all res (cq_ranks c) of
             Inl e \<Rightarrow> Inl e
           | Inr ms \<Rightarrow>
               if ms = [] then Inl ValueError
               else sync_results sel cs
                      (fold (\<lambda>r. AList.update r (flat_metric (Max (set (map pm_avg_lat ms))))) (cq_ranks c) res))"

fun collect_dp :: "clique list \<Rightarrow> (int, perf_metric) dict \<Rightarrow> (int, perf_metric) dict \<Rightarrow> (int, perf_metric) dict py_result" where
  "collect_dp [] res dp = Inr dp"
| "collect_dp (c # cs) res dp =
     (if \<not> cq_is_dp c then collect_dp cs res dp
      else case lookup_all res (cq_ranks c) of
             Inl e \<Rightarrow> Inl e
           | Inr ms \<Rightarrow> collect_dp cs res (dict_merge dp (map (\<lambda>(i, m). (int i, m)) (enumerate 0 ms))))"

definition group_comp_time_by_dp ::
    "(int, clique) dict \<Rightarrow> (int, perf_metric) dict \<Rightarrow> (int, perf_metric) dict py_result" where
  "group_comp_time_by_dp all_cliques comp_results =
     (case sync_results cq_is_pp (map snd all_cliques) comp_results of
        Inl e \<Rightarrow> Inl e
      | Inr res1 \<Rightarrow>
          (case sync_results cq_is_tp (map snd all_cliques) res1 of
             Inl e \<Rightarrow> Inl e
           | Inr res2 \<Rightarrow> collect_dp (map snd all_cliques) res2 []))"

type_synonym comm_results = "(int list, (int, perf_metric) dict list) dict"

fun comm_max_time :: "(int, perf_metric) dict list \<Rightarrow> rat \<Rightarrow> rat py_result" where
  "comm_max_time [] t = Inr t"
| "comm_max_time (task_result # rest) t =
     (if task_result = [] then Inl ValueError
      else comm_max_time rest (max t (Max (set (map (pm_avg_lat \<circ> snd) task_result)))))"

fun comm_times :: "comm_results \<Rightarrow> (int, rat) dict \<Rightarrow> (int, rat) dict py_result" where
  "comm_times [] d = Inr d"
| "comm_times ((ranks, results) # rest) d =
     (case comm_max_time results 0 of
        Inl e \<Rightarrow> Inl e
      | Inr t \<Rightarrow> if ranks = [] then Inl IndexError else comm_times rest (AList.update (hd ranks) t d))"

text \<open>The window of \<open>tp_degree\<close> entries that starts at position \<open>i\<close>.\<close>

fun stage_times :: "nat list \<Rightarrow> nat \<Rightarrow> (int \<times> rat) list \<Rightarrow> rat list py_result" where
  "stage_times [] tp_degree items = Inr []"
| "stage_times (i # is) tp_degree items =
     (if i + tp_degree > length items then Inl IndexError
      else case stage_times is tp_degree items of
             Inl e \<Rightarrow> Inl e
           | Inr ts \<Rightarrow> Inr (Max (set (map snd (take tp_degree (drop i items)))) # ts))"

definition parse_communication_results :: "'st redis_client \<Rightarrow> comm_results \<Rightarrow> 'st \<Rightarrow> rat list py_result" where
  "parse_communication_results rc results st =
     (case comm_times results [] of
        Inl e \<Rightarrow> Inl e
      | Inr d \<Rightarrow>
          (case redis_text rc ''0_tp'' st of
             Inl e \<Rightarrow> Inl e
           | Inr tp_ranks \<Rightarrow>
               let tp_degree = length (py_split (CHR ''_'') tp_ranks);
                   comm_items = sort_key fst d
               in stage_times [0..<length comm_items] tp_degree comm_items))"

section \<open>The mitigation plan\<close>

record 'st mitigation =
  mp_dp_version :: int
  mp_client :: 'st

text \<open>\<open>str\<close> of a list of integers.\<close>

fun comma_join :: "string list \<Rightarrow> string" where
  "comma_join [] = ''''"
| "comma_join [w] = w"
| "comma_join (w # ws) = w @ '', '' @ comma_join ws"

definition str_int_list :: "int list \<Rightarrow> string" where
  "str_int_list xs = ''['' @ comma_join (map py_str_int xs) @ '']''"

definition adjust_batchsize_distribution ::
    "'st redis_client \<Rightarrow> float_io \<Rightarrow> (rat list \<Rightarrow> rat) \<Rightarrow> dp_solver \<Rightarrow> (int, perf_metric) dict \<Rightarrow> (int, clique) dict
     \<Rightarrow> 'st mitigation \<Rightarrow> ('st mitigation, unit) py_run" where
  "adjust_batchsize_distribution rc fl median solver comp_results cliques m =
     (case group_comp_time_by_dp cliques comp_results of
        Inl e \<Rightarrow> (Inl e, m)
      | Inr by_dp \<Rightarrow>
          (case get_time_array rc fl median (11 / 10) by_dp (mp_client m) of
             Inl e \<Rightarrow> (Inl e, m)
           | Inr time_array \<Rightarrow>
               (case (rc_get rc ''micro_batch_size'' (mp_client m), rc_get rc ''global_batch_size'' (mp_client m)) of
                  (Some mb, Some gb) \<Rightarrow>
                    (case py_int_str mb of
                       Inl e \<Rightarrow> (Inl e, m)
                     | Inr micro \<Rightarrow>
                         (case py_int_str gb of
                            Inl e \<Rightarrow> (Inl e, m)
                          | Inr global \<Rightarrow>
                              (case solve_dp solver time_array micro global of
                                 Inl e \<Rightarrow> (Inl e, m)
                               | Inr new_dp \<Rightarrow>
                                   (let v = mp_dp_version m + 1
                                    in (Inr (), m\<lparr>mp_dp_version := v,
                                          mp_client := rc_set rc ''dp_version'' (py_str_int v)
                                            (rc_set rc ''batch_distribution'' (str_int_list new_dp) (mp_client m))\<rparr>)))))
                | _ \<Rightarrow> (Inr (), m))))"

fun layer_loop :: "'st redis_client \<Rightarrow> nat \<Rightarrow> int \<Rightarrow> int list \<Rightarrow> 'st \<Rightarrow> 'st" where
  "layer_loop rc i offset [] st = st"
| "layer_loop rc i offset (n # ns) st =
     layer_loop rc (Suc i) (offset + n) ns
       (rc_set rc (''pp_num_layers_'' @ nat_digits i) (py_str_int n)
         (rc_set rc (''pp_offset_'' @ nat_digits i) (py_str_int offset) st))"

definition apply_layer_split :: "'st redis_client \<Rightarrow> int list \<Rightarrow> 'st \<Rightarrow> 'st" where
  "apply_layer_split rc layer_split st = layer_loop rc 0 0 layer_split st"

text \<open>
  The shares are proportional to the inverse latencies; all but the last stage are rounded, the last
  gets what is left. A latency of zero is an infinite throughput in \<open>numpy\<close> and not modelled.
\<close>

definition layer_shares :: "rat list \<Rightarrow> rat list" where
  "layer_shares ts = (let inv = map (\<lambda>t. 1 / t) ts in map (\<lambda>x. x / sum_list inv) inv)"

definition split_layers :: "int \<Rightarrow> rat list \<Rightarrow> int list" where
  "split_layers total_layers shares =
     (let front = map (\<lambda>s. py_round (of_int total_layers * s)) (butlast shares) in front @ [total_layers - sum_list front])"

definition adjust_pipeline_parallel ::
    "'st redis_client \<Rightarrow> comm_results \<Rightarrow> 'st mitigation \<Rightarrow> ('st mitigation, unit) py_run" where
  "adjust_pipeline_parallel rc results m =
     (case parse_communication_results rc results (mp_client m) of
        Inl e \<Rightarrow> (Inl e, m)
      | Inr ts \<Rightarrow>
          (case redis_int rc ''total_num_layers'' (mp_client m) of
             Inl e \<Rightarrow> (Inl e, m)
           | Inr total_layers \<Rightarrow>
               (Inr (), m\<lparr>mp_client := rc_set rc ''terminate_ctl'' (py_str_int 123)
                   (apply_layer_split rc (split_layers total_layers (layer_shares ts)) (mp_client m))\<rparr>)))"

datatype slow_reason = ReasonComp | ReasonComm

definition find_slow_reason ::
    "'st redis_client \<Rightarrow> (rat list \<Rightarrow> rat) \<Rightarrow> (int, perf_metric) dict \<Rightarrow> comm_results \<Rightarrow> 'st
     \<Rightarrow> slow_reason option py_result" where
  "find_slow_reason rc median comp_results results st =
     (let comp_res = map (pm_avg_lat \<circ> snd) comp_results
      in if comp_res = [] then Inl ValueError
         else if Max (set comp_res) > 2 * median comp_res then Inr (Some ReasonComp)
         else case parse_communication_results rc results st of
                Inl e \<Rightarrow> Inl e
              | Inr ts \<Rightarrow>
                  if ts = [] then Inl ValueError
                  else if Max (set ts) > 11 / 10 * median ts then Inr (Some ReasonComm) else Inr None)"

text \<open>
  The waiting loop of \<open>mitigate_failslow\<close>. A tick is one turn: the reading of the clock in seconds and what
  the other processes did to the store since the last turn. \<open>None\<close> is a loop still running when the
  ticks are used up.
\<close>

type_synonym 'st tick = "rat \<times> ('st \<Rightarrow> 'st)"

definition mitigate_turn ::
    "'st redis_client \<Rightarrow> float_io \<Rightarrow> (rat list \<Rightarrow> rat) \<Rightarrow> dp_solver \<Rightarrow> int \<Rightarrow> (int, perf_metric) dict
     \<Rightarrow> (int, clique) dict \<Rightarrow> comm_results \<Rightarrow> slow_reason option \<Rightarrow> rat \<Rightarrow> bool \<Rightarrow> bool \<Rightarrow> 'st mitigation
     \<Rightarrow> ('st mitigation, bool \<times> bool) py_run" where
  "mitigate_turn rc fl median solver interval comp_res cliques results reason time_since_slow dp_adjusted pp_adjusted m =
     (case redis_float rc fl ''min_iter_time'' (mp_client m) of
        Inl e \<Rightarrow> (Inl e, m)
      | Inr min_iter \<Rightarrow>
          (case redis_float rc fl ''cur_iter_time'' (mp_client m) of
             Inl e \<Rightarrow> (Inl e, m)
           | Inr slow_iter \<Rightarrow>
               (let dp_cost = get_dp_adjustment_cost (interval div 2) min_iter slow_iter;
                    dp_now = (reason \<noteq> Some ReasonComm \<and> time_since_slow \<ge> dp_cost \<and> \<not> dp_adjusted)
                in case (if dp_now then adjust_batchsize_distribution rc fl median solver comp_res cliques m else (Inr (), m)) of
                     (Inl e, m1) \<Rightarrow> (Inl e, m1)
                   | (Inr _, m1) \<Rightarrow>
                       (let pp_now = (reason = Some ReasonComm \<and> time_since_slow \<ge> get_pp_adjustment_cost \<and> \<not> pp_adjusted)
                        in case (if pp_now then adjust_pipeline_parallel rc results m1 else (Inr (), m1)) of
                             (Inl e, m2) \<Rightarrow> (Inl e, m2)
                           | (Inr _, m2) \<Rightarrow> (Inr (dp_adjusted \<or> dp_now, pp_adjusted \<or> pp_now), m2)))))"

fun mitigate_loop ::
    "'st redis_client \<Rightarrow> float_io \<Rightarrow> (rat list \<Rightarrow> rat) \<Rightarrow> dp_solver \<Rightarrow> int \<Rightarrow> (int, perf_metric) dict
     \<Rightarrow> (int, clique) dict \<Rightarrow> comm_results \<Rightarrow> slow_reason option \<Rightarrow> rat \<Rightarrow> 'st tick list \<Rightarrow> bool \<Rightarrow> bool
     \<Rightarrow> 'st mitigation \<Rightarrow> ('st mitigation, bool \<times> bool) py_run option" where
  "mitigate_loop rc fl median solver interval comp_res cliques results reason slow_start [] dp pp m = None"
| "mitigate_loop rc fl median solver interval comp_res cliques results reason slow_start ((now, others) # ticks) dp pp m =
     (let time_since_slow = 1000 * (now - slow_start)
      in case mitigate_turn rc fl median solver interval comp_res cliques results reason time_since_slow dp pp
                (m\<lparr>mp_client := others (mp_client m)\<rparr>) of
           (Inl e, m1) \<Rightarrow> Some (Inl e, m1)
         | (Inr (dp', pp'), m1) \<Rightarrow>
             if time_since_slow \<ge> 2 * get_pp_adjustment_cost then Some (Inr (dp', pp'), m1)
             else mitigate_loop rc fl median solver interval comp_res cliques results reason slow_start ticks dp' pp' m1)"

definition mitigate_failslow ::
    "'st redis_client \<Rightarrow> float_io \<Rightarrow> (rat list \<Rightarrow> rat) \<Rightarrow> dp_solver \<Rightarrow> int \<Rightarrow> (int, perf_metric) dict
     \<Rightarrow> (int, clique) dict \<Rightarrow> comm_results \<Rightarrow> rat \<Rightarrow> 'st tick list \<Rightarrow> 'st mitigation
     \<Rightarrow> ('st mitigation, bool \<times> bool) py_run option" where
  "mitigate_failslow rc fl median solver interval comp_res cliques results slow_start ticks m =
     (case redis_float rc fl ''cur_iter_time'' (mp_client m) of
        Inl e \<Rightarrow> Some (Inl e, m)
      | Inr slow_iter \<Rightarrow>
          (case redis_float rc fl ''min_iter_time'' (mp_client m) of
             Inl e \<Rightarrow> Some (Inl e, m)
           | Inr min_iter \<Rightarrow>
               (case find_slow_reason rc median comp_res results (mp_client m) of
                  Inl e \<Rightarrow> Some (Inl e, m)
                | Inr reason \<Rightarrow>
                    if slow_iter \<le> min_iter * (11 / 10)
                    then (case adjust_batchsize_distribution rc fl median solver comp_res cliques m of
                            (Inl e, m1) \<Rightarrow> Some (Inl e, m1) | (Inr _, m1) \<Rightarrow> Some (Inr (True, False), m1))
                    else mitigate_loop rc fl median solver interval comp_res cliques results reason slow_start ticks
                           False False m)))"

section \<open>Pipeline layers\<close>







text \<open>The last stage may be left with a negative number of layers.\<close>

lemma last_stage_negative: "split_layers 5 (layer_shares [10, 10, 10, 30]) = [2, 2, 2, - 1]"
  by code_simp


section \<open>The waiting loop ends\<close>

lemma adjust_version:
  "adjust_batchsize_distribution rc fl median solver comp_res cliques m = (r, m') \<Longrightarrow>
   mp_dp_version m \<le> mp_dp_version m' \<and> mp_dp_version m' \<le> mp_dp_version m + 1"
  unfolding adjust_batchsize_distribution_def Let_def by (auto split: sum.splits option.splits)

lemma pipeline_version:
  "adjust_pipeline_parallel rc results m = (r, m') \<Longrightarrow> mp_dp_version m' = mp_dp_version m"
  unfolding adjust_pipeline_parallel_def by (auto split: sum.splits)

lemma turn_version:
  assumes "mitigate_turn rc fl median solver interval comp_res cliques results reason t dp pp m = (r, m')"
  shows "mp_dp_version m \<le> mp_dp_version m' \<and> mp_dp_version m' \<le> mp_dp_version m + (if dp \<or> reason = Some ReasonComm then 0 else 1) \<and>
    (case r of Inl e \<Rightarrow> True
     | Inr (dp', pp') \<Rightarrow> (dp \<longrightarrow> dp') \<and> (pp \<longrightarrow> pp') \<and> (dp' \<longrightarrow> dp \<or> reason \<noteq> Some ReasonComm) \<and>
         (pp' \<longrightarrow> pp \<or> reason = Some ReasonComm) \<and> (\<not> dp' \<longrightarrow> mp_dp_version m' = mp_dp_version m))"
  using assms unfolding mitigate_turn_def Let_def
  by (auto split: sum.splits prod.splits if_splits dest!: adjust_version pipeline_version)

lemma loop_returns:
  assumes "\<forall>i<length ticks. slow_start + of_nat (k + i) \<le> fst (ticks ! i)" and "120 < k + length ticks" and "ticks \<noteq> []"
  shows "mitigate_loop rc fl median solver interval comp_res cliques results reason slow_start ticks dp pp m \<noteq> None"
  using assms
proof (induction ticks arbitrary: k dp pp m)
  case (Cons x ticks)
  obtain now others where x: "x = (now, others)" by fastforce
  show ?case
  proof (cases "ticks = []")
    case True
    have "slow_start + of_nat k \<le> now" using Cons.prems(1) x by auto
    moreover have "120 \<le> k" using Cons.prems(2) True by simp
    then have "(of_nat 120 :: rat) \<le> of_nat k" by (simp only: of_nat_le_iff)
    ultimately have "1000 * (now - slow_start) \<ge> 2 * get_pp_adjustment_cost" by (simp add: get_pp_adjustment_cost_def)
    then show ?thesis by (simp add: x True Let_def split: prod.splits sum.splits)
  next
    case False
    have "\<forall>i<length ticks. slow_start + of_nat (Suc k + i) \<le> fst (ticks ! i)"
    proof (intro allI impI)
      fix i assume "i < length ticks"
      then show "slow_start + of_nat (Suc k + i) \<le> fst (ticks ! i)" using Cons.prems(1) [rule_format, of "Suc i"] by simp
    qed
    moreover have "120 < Suc k + length ticks" using Cons.prems(2) by simp
    ultimately have "mitigate_loop rc fl median solver interval comp_res cliques results reason slow_start ticks dp' pp' m' \<noteq> None"
      for dp' pp' m' using Cons.IH False by blast
    then show ?thesis by (simp add: x Let_def split: prod.splits sum.splits)
  qed
qed simp

lemma loop_version:
  assumes "mitigate_loop rc fl median solver interval comp_res cliques results reason slow_start ticks dp pp m = Some (r, m')"
  shows "mp_dp_version m \<le> mp_dp_version m' \<and>
    mp_dp_version m' \<le> mp_dp_version m + (if dp \<or> reason = Some ReasonComm then 0 else 1) \<and>
    (case r of Inl e \<Rightarrow> True
     | Inr (dp', pp') \<Rightarrow> (dp' \<longrightarrow> dp \<or> reason \<noteq> Some ReasonComm) \<and> (pp' \<longrightarrow> pp \<or> reason = Some ReasonComm))"
  using assms
proof (induction ticks arbitrary: dp pp m)
  case (Cons x ticks)
  obtain now others where x: "x = (now, others)" by fastforce
  let ?m = "m\<lparr>mp_client := others (mp_client m)\<rparr>"
  obtain r1 m1 where t: "mitigate_turn rc fl median solver interval comp_res cliques results reason (1000 * (now - slow_start)) dp pp ?m = (r1, m1)"
    by fastforce
  note v = turn_version [OF t]
  show ?case
  proof (cases r1)
    case (Inl e)
    then have "(r, m') = (Inl e, m1)" using Cons.prems t x by (simp add: Let_def)
    then show ?thesis using v by simp
  next
    case (Inr b)
    obtain dp' pp' where b: "b = (dp', pp')" by fastforce
    show ?thesis
    proof (cases "1000 * (now - slow_start) \<ge> 2 * get_pp_adjustment_cost")
      case True
      then have "(r, m') = (Inr (dp', pp'), m1)" using Cons.prems t x Inr b by (simp add: Let_def)
      then show ?thesis using v Inr b by simp
    next
      case False
      then have "mitigate_loop rc fl median solver interval comp_res cliques results reason slow_start ticks dp' pp' m1 = Some (r, m')"
        using Cons.prems t x Inr b by (simp add: Let_def)
      from Cons.IH [OF this] show ?thesis using v Inr b
        by (cases dp'; cases dp; cases "reason = Some ReasonComm") (auto split: sum.splits prod.splits)
    qed
  qed
qed simp

text \<open>
  C22. The mitigation loop ends. The loop sleeps for a second in each turn; from the first reading of the
  clock on, 121 turns are enough for \<open>mitigate_failslow\<close> to return, whatever other processes do to the
  store meanwhile. It changes the batch distribution at most once, never when communication is the
  reason, and moves pipeline layers only when communication is the reason.
\<close>

theorem mitigation_ends:
  fixes m :: "'st mitigation"
  assumes "\<forall>i<length ticks. slow_start + of_nat i \<le> fst (ticks ! i)" and "121 \<le> length ticks"
  shows "\<exists>r m'. mitigate_failslow rc fl median solver interval comp_res cliques results slow_start ticks m = Some (r, m') \<and>
    mp_dp_version m \<le> mp_dp_version m' \<and> mp_dp_version m' \<le> mp_dp_version m + 1 \<and>
    (case r of Inl e \<Rightarrow> True
     | Inr (dp, pp) \<Rightarrow> \<not> (dp \<and> pp) \<and>
         (pp \<longrightarrow> find_slow_reason rc median comp_res results (mp_client m) = Inr (Some ReasonComm)))"
proof -
  let ?loop = "\<lambda>reason. mitigate_loop rc fl median solver interval comp_res cliques results reason slow_start ticks False False m"
  have "ticks \<noteq> []" using assms(2) by auto
  then have "?loop reason \<noteq> None" for reason
    using assms by (intro loop_returns [where k = 0]) auto
  then have ret: "(?loop reason = None) = False" for reason by blast
  show ?thesis
  proof (cases "mitigate_failslow rc fl median solver interval comp_res cliques results slow_start ticks m")
    case None
    then show ?thesis by (simp add: mitigate_failslow_def ret split: sum.splits if_splits prod.splits)
  next
    case (Some rm)
    obtain r m' where rm: "rm = (r, m')" by fastforce
    have "mp_dp_version m \<le> mp_dp_version m' \<and> mp_dp_version m' \<le> mp_dp_version m + 1 \<and>
      (case r of Inl e \<Rightarrow> True
       | Inr (dp, pp) \<Rightarrow> \<not> (dp \<and> pp) \<and>
           (pp \<longrightarrow> find_slow_reason rc median comp_res results (mp_client m) = Inr (Some ReasonComm)))"
      using Some unfolding rm mitigate_failslow_def
      by (auto split: sum.splits if_splits prod.splits dest!: adjust_version loop_version)
    then show ?thesis using Some rm by blast
  qed
qed

theorem mitigation_ends_witness:
  "\<exists>r m'. mitigate_failslow dict_client fraction_io middle (\<lambda>ts mb gb. None) 20 [(0, demo_perf 10), (1, demo_perf 50)] []
       [([0, 1], [[(0, demo_perf 10)]])] 0 (map (\<lambda>i. (of_nat i, id)) [0..<121])
       \<lparr>mp_dp_version = 0,
         mp_client = ([(''cur_iter_time'', ''3/1''), (''min_iter_time'', ''2/1''), (''0_tp'', ''0'')], [])\<rparr> = Some (r, m') \<and>
     mp_dp_version m' \<le> 1"
proof -
  let ?ticks = "map (\<lambda>i. (of_nat i :: rat, id :: dict_store \<Rightarrow> dict_store)) [0..<121]"
  have "\<forall>i<length ?ticks. 0 + of_nat i \<le> fst (?ticks ! i)" "121 \<le> length ?ticks" by simp_all
  from mitigation_ends [OF this] show ?thesis by fastforce
qed

section \<open>Reading the communication results\<close>

lemma stage_times_single: "\<forall>i\<in>set is. i < length items \<Longrightarrow> stage_times is 1 items = Inr (map (\<lambda>i. snd (items ! i)) is)"
  by (induction "is") (auto simp: take_Suc_conv_app_nth hd_drop_conv_nth take_Suc)

lemma stage_times_wide:
  assumes "i \<in> set is" and "i < length items" and "length items < i + d"
  shows "stage_times is d items = Inl IndexError"
  using assms(1)
proof (induction "is")
  case (Cons j js)
  then show ?case using assms(2,3) by (cases "j = i") (auto split: sum.splits)
qed simp

text \<open>
  C40. Stage times need a tensor-parallel degree of one. When the results of at least one communicator
  were collected and the store says that the tensor-parallel groups have more than one rank, the
  windows of the degree run over the end of the list and \<open>IndexError\<close> is raised, so a fail-slow in such
  a job is never attributed to communication nor mitigated by moving layers; with degree one the
  result is the greatest time of each communicator in the order of their first ranks.
\<close>

theorem stage_times_need_degree_one:
  assumes "comm_times results [] = Inr d" and "d \<noteq> []" and "rc_get rc ''0_tp'' st = Some tp"
  shows "(1 < length (py_split (CHR ''_'') tp) \<longrightarrow>
      parse_communication_results rc results st = Inl IndexError \<and>
      (\<forall>m :: 'st mitigation. mp_client m = st \<longrightarrow> adjust_pipeline_parallel rc results m = (Inl IndexError, m)) \<and>
      find_slow_reason rc median comp_res results st \<noteq> Inr (Some ReasonComm)) \<and>
    (length (py_split (CHR ''_'') tp) = 1 \<longrightarrow> parse_communication_results rc results st = Inr (map snd (sort_key fst d)))"
proof -
  let ?n = "length (py_split (CHR ''_'') tp)" and ?items = "sort_key fst d"
  have p: "parse_communication_results rc results st = stage_times [0..<length d] ?n ?items"
    using assms(1,3) by (simp add: parse_communication_results_def redis_text_def)
  have wide: "parse_communication_results rc results st = Inl IndexError" if "1 < ?n"
    unfolding p using assms(2) that by (intro stage_times_wide [of "length d - 1"]) (auto simp: Suc_le_eq)
  have "stage_times [0..<length d] 1 ?items = Inr (map (\<lambda>i. snd (?items ! i)) [0..<length ?items])"
    by (subst stage_times_single) auto
  also have "map (\<lambda>i. snd (?items ! i)) [0..<length ?items] = map snd ?items"
    by (rule nth_equalityI) auto
  finally have "parse_communication_results rc results st = Inr (map snd ?items)" if "?n = 1"
    using p that by simp
  then show ?thesis using wide
    by (auto simp: adjust_pipeline_parallel_def find_slow_reason_def Let_def)
qed

theorem stage_times_need_degree_one_witness:
  "parse_communication_results dict_client [([0, 2], [[(0, demo_perf 10)]]), ([1, 3], [[(1, demo_perf 30)]])]
     ([(''0_tp'', ''0_1'')], []) = Inl IndexError"
proof -
  have "comm_times [([0, 2], [[(0, demo_perf 10)]]), ([1, 3], [[(1, demo_perf 30)]])] [] = Inr [(0, 10), (1, 30)]"
    by (simp add: demo_perf_def)
  moreover have "rc_get dict_client ''0_tp'' ([(''0_tp'', ''0_1'')], []) = Some ''0_1''" by (simp add: dict_client_def)
  ultimately show ?thesis
    using stage_times_need_degree_one [of "[([0, 2], [[(0, demo_perf 10)]]), ([1, 3], [[(1, demo_perf 30)]])]" "[(0, 10), (1, 30)]" dict_client
      "([(''0_tp'', ''0_1'')], [])" "''0_1''"] by simp
qed

section \<open>Iteration times\<close>

text \<open>
  The estimate of a rank's iteration time lies between the normal and the slow iteration time, and the
  slowest rank, when it is above the threshold, is given the slow iteration time.
\<close>

lemma rank_time_between:
  assumes "min_iter \<le> slow_iter" and "lo \<le> x" and "x \<le> hi" and "lo < hi"
  shows "min_iter \<le> rank_time th min_iter slow_iter lo hi med x \<and> rank_time th min_iter slow_iter lo hi med x \<le> slow_iter"
proof -
  define s where "s = (slow_iter - min_iter) / (hi - lo)"
  have s: "0 \<le> s" using assms by (simp add: s_def)
  have "s * x + (slow_iter - s * hi) = slow_iter - s * (hi - x)" by (simp add: right_diff_distrib)
  moreover have "0 \<le> s * (hi - x)" using s assms(3) by simp
  moreover have "s * (hi - x) \<le> s * (hi - lo)" using s assms(2) by (intro mult_left_mono) auto
  moreover have "s * (hi - lo) = slow_iter - min_iter" using assms(4) by (simp add: s_def)
  ultimately show ?thesis using assms(1) unfolding rank_time_def Let_def s_def [symmetric] by auto
qed

end
