(* ===== verification/Global_Control.thy ===== *)
theory Global_Control
  imports Mitigation
begin

text \<open>
  \<open>detector/control_plane/global_controller.py\<close>: the controller that pauses the training when a fail-slow is
  reported, has the suspicious rings validated link by link, resumes the training and starts the
  mitigation; and the side of a training process (\<open>detector/event_handler.cpp\<close>) that executes the tasks.
  The list of what other processes do to the store while the controller sleeps is an argument, and so is
  the function that unpacks four doubles. \<open>None\<close> is a call that does not return (a topology whose pointers
  run in circles, or polling without an answer).
\<close>

section \<open>Control state and tasks\<close>

definition STATE_MONITOR :: int where
  "STATE_MONITOR = 0"

definition STATE_PROFILE :: int where
  "STATE_PROFILE = 1"

definition STATE_VALIDATE :: int where
  "STATE_VALIDATE = 2"

definition ROLE_SENDER :: int where
  "ROLE_SENDER = 0"

definition ROLE_RECVER :: int where
  "ROLE_RECVER = 1"

definition DP_CHECK_INTERVAL :: int where
  "DP_CHECK_INTERVAL = 20"

definition pause_training :: "'st redis_client \<Rightarrow> 'st \<Rightarrow> 'st" where
  "pause_training rc = rc_set rc ''control_state'' (py_str_int STATE_VALIDATE)"

definition set_profiling :: "'st redis_client \<Rightarrow> 'st \<Rightarrow> 'st" where
  "set_profiling rc = rc_set rc ''control_state'' (py_str_int STATE_PROFILE)"

definition set_monitoring :: "'st redis_client \<Rightarrow> 'st \<Rightarrow> 'st" where
  "set_monitoring rc = rc_set rc ''control_state'' (py_str_int STATE_MONITOR)"

text \<open>The texts of the byte strings in the list.\<close>

definition check_failslow_events :: "'st redis_client \<Rightarrow> 'st \<Rightarrow> string list" where
  "check_failslow_events rc st = map (\<lambda>b. ''b'' @ [CHR 0x27] @ b @ [CHR 0x27]) (rc_lrange rc ''failslow_ranks'' st)"

definition task_key :: "int \<Rightarrow> string" where
  "task_key rank = ''validtask_rank_'' @ py_str_int rank"

definition task_text :: "int \<Rightarrow> int \<Rightarrow> int \<Rightarrow> string" where
  "task_text role peer addr = py_join (CHR ''_'') [py_str_int role, py_str_int peer, py_str_int addr]"

text \<open>
  The first loop of \<open>dispatch_comm_task\<close>: for each pair both global ranks are looked up, then the sender's
  address and task, then the receiver's.
\<close>

fun send_tasks ::
    "'st redis_client \<Rightarrow> (int \<times> int) list \<Rightarrow> (int, int) dict \<Rightarrow> (int, int) dict \<Rightarrow> 'st \<Rightarrow> ('st, unit) py_run" where
  "send_tasks rc [] comm_addrs group2global st = (Inr (), st)"
| "send_tasks rc ((s, r) # pairs) comm_addrs group2global st =
     (case (map_of group2global s, map_of group2global r) of
        (Some gs, Some gr) \<Rightarrow>
          (case map_of comm_addrs s of
             None \<Rightarrow> (Inl KeyError, st)
           | Some addr_s \<Rightarrow>
               (let st1 = rc_set rc (task_key gs) (task_text ROLE_SENDER r addr_s) st
                in case map_of comm_addrs r of
                     None \<Rightarrow> (Inl KeyError, st1)
                   | Some addr_r \<Rightarrow>
                       send_tasks rc pairs comm_addrs group2global
                         (rc_set rc (task_key gr) (task_text ROLE_RECVER s addr_r) st1)))
      | _ \<Rightarrow> (Inl KeyError, st))"

text \<open>The second loop: for each pair poll until both ranks have acknowledged.\<close>

definition TASK_ACKED :: string where
  "TASK_ACKED = ''TASK_ACKED''"

fun all_acked :: "'st redis_client \<Rightarrow> string list \<Rightarrow> 'st \<Rightarrow> bool py_result" where
  "all_acked rc [] st = Inr True"
| "all_acked rc (key # keys) st =
     (case redis_text rc key st of
        Inl e \<Rightarrow> Inl e
      | Inr t \<Rightarrow> (case all_acked rc keys st of Inl e \<Rightarrow> Inl e | Inr b \<Rightarrow> Inr (t = TASK_ACKED \<and> b)))"

fun wait_acked :: "'st redis_client \<Rightarrow> string list \<Rightarrow> 'st env \<Rightarrow> 'st \<Rightarrow> ('st, unit) waiting" where
  "wait_acked rc keys env st =
     (case all_acked rc keys st of
        Inl e \<Rightarrow> Some (Inl e, env, st)
      | Inr acked \<Rightarrow>
          if acked then Some (Inr (), env, st)
          else case env of [] \<Rightarrow> None | others # env' \<Rightarrow> wait_acked rc keys env' (others st))"

fun wait_all :: "'st redis_client \<Rightarrow> string list list \<Rightarrow> 'st env \<Rightarrow> 'st \<Rightarrow> ('st, unit) waiting" where
  "wait_all rc [] env st = Some (Inr (), env, st)"
| "wait_all rc (keys # rest) env st = wait_then (wait_acked rc keys env st) (\<lambda>_ env st. wait_all rc rest env st)"

declare wait_acked.simps [simp del]

definition dispatch_comm_task ::
    "'st redis_client \<Rightarrow> comm_task \<Rightarrow> (int, int) dict \<Rightarrow> (int, int) dict \<Rightarrow> 'st env \<Rightarrow> 'st \<Rightarrow> ('st, unit) waiting" where
  "dispatch_comm_task rc task comm_addrs group2global env st =
     (let pairs = zip (fst task) (snd task)
      in case send_tasks rc pairs comm_addrs group2global st of
           (Inl e, st1) \<Rightarrow> Some (Inl e, env, st1)
         | (Inr _, st1) \<Rightarrow>
             wait_all rc (map (\<lambda>(s, r). [task_key (dict_get group2global s 0), task_key (dict_get group2global r 0)]) pairs)
               env st1)"

text \<open>
  One pass over the ranks picks up and deletes the results that are there; passes are repeated until
  there is one for each rank. \<open>global_of\<close> is the lookup of the global rank, \<open>from_bytes\<close> unpacks a metric.
\<close>

definition result_key :: "int \<Rightarrow> string" where
  "result_key rank = task_key rank @ ''_result''"

fun collect_pass ::
    "'st redis_client \<Rightarrow> (string \<Rightarrow> perf_metric py_result) \<Rightarrow> (int \<Rightarrow> int py_result) \<Rightarrow> int list
     \<Rightarrow> (int, perf_metric) dict \<Rightarrow> 'st \<Rightarrow> ('st, (int, perf_metric) dict) py_run" where
  "collect_pass rc from_bytes global_of [] results st = (Inr results, st)"
| "collect_pass rc from_bytes global_of (rank # ranks) results st =
     (case global_of rank of
        Inl e \<Rightarrow> (Inl e, st)
      | Inr r \<Rightarrow>
          (case rc_get rc (result_key r) st of
             None \<Rightarrow> collect_pass rc from_bytes global_of ranks results st
           | Some res \<Rightarrow>
               (case from_bytes res of
                  Inl e \<Rightarrow> (Inl e, st)
                | Inr m \<Rightarrow>
                    collect_pass rc from_bytes global_of ranks (AList.update r m results) (rc_delete rc (result_key r) st))))"

fun collect_loop ::
    "'st redis_client \<Rightarrow> (string \<Rightarrow> perf_metric py_result) \<Rightarrow> (int \<Rightarrow> int py_result) \<Rightarrow> int list \<Rightarrow> int
     \<Rightarrow> (int, perf_metric) dict \<Rightarrow> 'st env \<Rightarrow> 'st \<Rightarrow> ('st, (int, perf_metric) dict) waiting" where
  "collect_loop rc from_bytes global_of ranks n results env st =
     (if int (length results) = n then Some (Inr results, env, st)
      else case collect_pass rc from_bytes global_of ranks results st of
             (Inl e, st1) \<Rightarrow> Some (Inl e, env, st1)
           | (Inr results1, st1) \<Rightarrow>
               (case env of
                  [] \<Rightarrow> None
                | others # env' \<Rightarrow> collect_loop rc from_bytes global_of ranks n results1 env' (others st1)))"

declare collect_loop.simps [simp del]

text \<open>The ranks of a task form a set; its order has no influence on which results are collected.\<close>

definition collect_comm_task_results ::
    "'st redis_client \<Rightarrow> (string \<Rightarrow> perf_metric py_result) \<Rightarrow> comm_task \<Rightarrow> (int, int) dict \<Rightarrow> 'st env \<Rightarrow> 'st
     \<Rightarrow> ('st, (int, perf_metric) dict) waiting" where
  "collect_comm_task_results rc from_bytes task group2global env st =
     (let all_ranks = remdups (fst task @ snd task)
      in collect_loop rc from_bytes
           (\<lambda>r. case map_of group2global r of None \<Rightarrow> Inl KeyError | Some g \<Rightarrow> Inr g)
           all_ranks (int (length all_ranks)) [] env st)"

fun run_tasks ::
    "'st redis_client \<Rightarrow> (string \<Rightarrow> perf_metric py_result) \<Rightarrow> comm_task list \<Rightarrow> (int, int) dict \<Rightarrow> (int, int) dict
     \<Rightarrow> 'st env \<Rightarrow> 'st \<Rightarrow> ('st, (int, perf_metric) dict list) waiting" where
  "run_tasks rc from_bytes [] comm_addrs group2global env st = Some (Inr [], env, st)"
| "run_tasks rc from_bytes (task # tasks) comm_addrs group2global env st =
     wait_then (dispatch_comm_task rc task comm_addrs group2global env st) (\<lambda>_ env st.
       wait_then (collect_comm_task_results rc from_bytes task group2global env st) (\<lambda>task_result env st.
         wait_then (run_tasks rc from_bytes tasks comm_addrs group2global env st) (\<lambda>all_results env st.
           Some (Inr (task_result # all_results), env, st))))"

type_synonym task_results = "comm_task list \<times> (int, perf_metric) dict list"

definition validate_ring ::
    "'st redis_client \<Rightarrow> (string \<Rightarrow> perf_metric py_result) \<Rightarrow> int list \<Rightarrow> (int, int) dict \<Rightarrow> (int, int) dict
     \<Rightarrow> 'st env \<Rightarrow> 'st \<Rightarrow> ('st, task_results) waiting" where
  "validate_ring rc from_bytes ring comm_addrs group2global env st =
     (case split_ring ring of
        Inl e \<Rightarrow> Some (Inl e, env, st)
      | Inr tasks \<Rightarrow>
          wait_then (run_tasks rc from_bytes tasks comm_addrs group2global env st) (\<lambda>all_results env st.
            Some (Inr (tasks, all_results), env, st)))"

definition validate_tree ::
    "'st redis_client \<Rightarrow> (string \<Rightarrow> perf_metric py_result) \<Rightarrow> (nat, communicator list) dict \<Rightarrow> (int, int) dict \<Rightarrow> (int, int) dict
     \<Rightarrow> 'st env \<Rightarrow> 'st \<Rightarrow> ('st, task_results) waiting" where
  "validate_tree rc from_bytes tree comm_addrs group2global env st =
     (case split_tree tree of
        Inl e \<Rightarrow> Some (Inl e, env, st)
      | Inr tasks \<Rightarrow>
          wait_then (run_tasks rc from_bytes (filter (\<lambda>task. fst task \<noteq> []) tasks) comm_addrs group2global env st)
            (\<lambda>all_results env st. Some (Inr (tasks, all_results), env, st)))"

definition validate_computation ::
    "'st redis_client \<Rightarrow> (string \<Rightarrow> perf_metric py_result) \<Rightarrow> int \<Rightarrow> 'st env \<Rightarrow> 'st
     \<Rightarrow> ('st, (int, perf_metric) dict) waiting" where
  "validate_computation rc from_bytes world_size env st =
     (let ranks = [0..world_size - 1]
      in wait_then
           (wait_all rc (map (\<lambda>i. [task_key i]) ranks) env
             (fold (\<lambda>i. rc_set rc (task_key i) ''ComputationTest'') ranks st))
           (\<lambda>_ env st. collect_loop rc from_bytes Inr ranks world_size [] env st))"

section \<open>Validation\<close>

definition bytes_of_text :: "string \<Rightarrow> bytes" where
  "bytes_of_text t = map of_char t"

fun read_communicators :: "'st redis_client \<Rightarrow> string list \<Rightarrow> 'st \<Rightarrow> communicator list py_result" where
  "read_communicators rc [] st = Inr []"
| "read_communicators rc (key # keys) st =
     (case rc_get rc key st of
        None \<Rightarrow> Inl TypeError
      | Some t \<Rightarrow>
          (case deserialize_communicator_from_redis (bytes_of_text t) of
             Inl e \<Rightarrow> Inl e
           | Inr c \<Rightarrow> (case read_communicators rc keys st of Inl e \<Rightarrow> Inl e | Inr cs \<Rightarrow> Inr (c # cs))))"

definition get_communicators :: "'st redis_client \<Rightarrow> 'st \<Rightarrow> communicator list py_result" where
  "get_communicators rc st = read_communicators rc (rc_scan rc ''Communicator_'' st) st"

fun clique_topos :: "clique list \<Rightarrow> (clique \<times> global_topo) list py_result option" where
  "clique_topos [] = Some (Inr [])"
| "clique_topos (c # cs) =
     (case new_global_topo (cq_comms c) of
        None \<Rightarrow> None
      | Some (Inl e) \<Rightarrow> Some (Inl e)
      | Some (Inr t) \<Rightarrow>
          (case clique_topos cs of
             None \<Rightarrow> None | Some (Inl e) \<Rightarrow> Some (Inl e) | Some (Inr ts) \<Rightarrow> Some (Inr ((c, t) # ts))))"

text \<open>
  The data-parallel cliques that are validated in any case, one for each hash; cliques with the same tag
  and ranks have the same hash, and others are taken to have different ones.
\<close>

fun unique_dp :: "(clique_tag py_result \<times> int list) set \<Rightarrow> clique list \<Rightarrow> clique list" where
  "unique_dp seen [] = []"
| "unique_dp seen (c # cs) =
     (if cq_is_dp c \<and> (cq_tag c, cq_ranks c) \<notin> seen
      then c # unique_dp (insert (cq_tag c, cq_ranks c) seen) cs else unique_dp seen cs)"

fun unique_by_ranks :: "int list set \<Rightarrow> clique list \<Rightarrow> clique list" where
  "unique_by_ranks seen [] = []"
| "unique_by_ranks seen (c # cs) =
     (if cq_ranks c \<notin> seen \<and> length (cq_ranks c) > 1
      then c # unique_by_ranks (insert (cq_ranks c) seen) cs else unique_by_ranks seen cs)"

type_synonym validation = "(int list, comm_task list) dict \<times> comm_results"

fun validate_topos ::
    "'st redis_client \<Rightarrow> (string \<Rightarrow> perf_metric py_result) \<Rightarrow> (clique \<times> global_topo) list \<Rightarrow> validation \<Rightarrow> 'st env \<Rightarrow> 'st
     \<Rightarrow> ('st, validation) waiting" where
  "validate_topos rc from_bytes [] acc env st = Some (Inr acc, env, st)"
| "validate_topos rc from_bytes ((c, topo) # topos) acc env st =
     (case (gt_rings topo, gt_trees topo) of
        (ring # _, tree # _) \<Rightarrow>
          if length ring = 1 \<or> length tree = 1 then validate_topos rc from_bytes topos acc env st
          else
            let comm_addrs = dict_merge [] (map (\<lambda>cm. (cm_group_rank cm, cm_comm_addr cm)) (cq_comms c));
                group2global = dict_merge [] (map (\<lambda>cm. (cm_group_rank cm, cm_global_rank cm)) (cq_comms c));
                global_ranks = sort (map snd group2global)
            in wait_then (validate_ring rc from_bytes ring comm_addrs group2global env st) (\<lambda>(tasks, results) env st.
                 validate_topos rc from_bytes topos
                   (AList.update global_ranks tasks (fst acc), AList.update global_ranks results (snd acc)) env st)
      | (ring # _, []) \<Rightarrow> if length ring = 1 then validate_topos rc from_bytes topos acc env st else Some (Inl IndexError, env, st)
      | _ \<Rightarrow> Some (Inl IndexError, env, st))"

text \<open>Steps (1) and (2) of \<open>handle_failslow\<close>: the communicators, their cliques and the topologies to validate.\<close>

definition select_topos ::
    "'st redis_client \<Rightarrow> (rat list \<Rightarrow> rat) \<Rightarrow> global_analyzer \<Rightarrow> (int, perf_metric) dict \<Rightarrow> 'st
     \<Rightarrow> ((int, clique) dict \<times> (clique \<times> global_topo) list) py_result option" where
  "select_topos rc median ga perfs st =
     (case get_communicators rc st of
        Inl e \<Rightarrow> Some (Inl e)
      | Inr comms \<Rightarrow>
          (case build_comm_cliques ga comms of
             Inl e \<Rightarrow> Some (Inl e)
           | Inr cliques \<Rightarrow>
               (case find_slow_clique median perfs cliques of
                  Inl e \<Rightarrow> Some (Inl e)
                | Inr slow \<Rightarrow>
                    (case clique_topos (slow @ unique_dp {} (map snd cliques)) of
                       None \<Rightarrow> None
                     | Some (Inl e) \<Rightarrow> Some (Inl e)
                     | Some (Inr topos) \<Rightarrow> Some (Inr (cliques, topos))))))"

text \<open>Step (3): pause the training, test the computation and then the rings.\<close>

definition run_validation ::
    "'st redis_client \<Rightarrow> (string \<Rightarrow> perf_metric py_result) \<Rightarrow> int \<Rightarrow> (clique \<times> global_topo) list \<Rightarrow> 'st env \<Rightarrow> 'st
     \<Rightarrow> ('st, (int, perf_metric) dict \<times> validation) waiting" where
  "run_validation rc from_bytes world_size topos env st =
     wait_then (sleep_once env (pause_training rc st)) (\<lambda>_ env st.
       wait_then (validate_computation rc from_bytes world_size env st) (\<lambda>comp_results env st.
         wait_then (validate_topos rc from_bytes topos ([], []) env st) (\<lambda>acc env st.
           Some (Inr (comp_results, acc), env, st))))"

definition validate_failslow ::
    "'st redis_client \<Rightarrow> float_io \<Rightarrow> (string \<Rightarrow> perf_metric py_result) \<Rightarrow> (rat list \<Rightarrow> rat) \<Rightarrow> global_analyzer \<Rightarrow> 'st env \<Rightarrow> 'st
     \<Rightarrow> ('st, (int, perf_metric) dict \<times> (int, clique) dict \<times> validation) waiting" where
  "validate_failslow rc fl from_bytes median ga env st =
     wait_then (wait_and_build_performance_map rc fl env (set_profiling rc st)) (\<lambda>perfs env st.
       case select_topos rc median ga perfs st of
         None \<Rightarrow> None
       | Some (Inl e) \<Rightarrow> Some (Inl e, env, st)
       | Some (Inr (cliques, topos)) \<Rightarrow>
           wait_then (run_validation rc from_bytes (ga_world_size ga) topos env st) (\<lambda>(comp_results, acc) env st.
             Some (Inr (comp_results, cliques, acc), env, set_monitoring rc (rc_clear_list rc ''failslow_ranks'' st))))"

text \<open>The ticks are the turns of the loop of the mitigation.\<close>

definition handle_failslow ::
    "'st redis_client \<Rightarrow> float_io \<Rightarrow> (string \<Rightarrow> perf_metric py_result) \<Rightarrow> (rat list \<Rightarrow> rat) \<Rightarrow> dp_solver \<Rightarrow> global_analyzer
     \<Rightarrow> rat \<Rightarrow> 'st tick list \<Rightarrow> 'st env \<Rightarrow> 'st mitigation \<Rightarrow> ('st mitigation, bool \<times> bool) py_run option" where
  "handle_failslow rc fl from_bytes median solver ga slow_start ticks env m =
     (case validate_failslow rc fl from_bytes median ga env (mp_client m) of
        None \<Rightarrow> None
      | Some (Inl e, _, st) \<Rightarrow> Some (Inl e, m\<lparr>mp_client := st\<rparr>)
      | Some (Inr (comp_results, cliques, (tasks, results)), _, st) \<Rightarrow>
          mitigate_failslow rc fl median solver DP_CHECK_INTERVAL comp_results cliques results slow_start ticks
            (m\<lparr>mp_client := st\<rparr>))"

definition do_precheck ::
    "'st redis_client \<Rightarrow> (string \<Rightarrow> perf_metric py_result) \<Rightarrow> global_analyzer \<Rightarrow> 'st env \<Rightarrow> 'st \<Rightarrow> ('st, unit) waiting" where
  "do_precheck rc from_bytes ga env st =
     (case get_communicators rc st of
        Inl e \<Rightarrow> Some (Inl e, env, st)
      | Inr comms \<Rightarrow>
          (case build_comm_cliques ga comms of
             Inl e \<Rightarrow> Some (Inl e, env, st)
           | Inr cliques \<Rightarrow>
               (case clique_topos (unique_by_ranks {} (map snd cliques)) of
                  None \<Rightarrow> None
                | Some (Inl e) \<Rightarrow> Some (Inl e, env, st)
                | Some (Inr topos) \<Rightarrow>
                    wait_then (run_validation rc from_bytes (ga_world_size ga) topos env st)
                      (\<lambda>_ env st. Some (Inr (), env, set_monitoring rc st)))))"

section \<open>The server\<close>

record 'st global_server =
  gs_analyzer :: global_analyzer
  gs_precheck :: bool
  gs_handler :: "'st mitigation"

text \<open>
  One turn of the loop of \<open>run\<close>: the first one does the pre-check, after ten seconds; every turn handles
  the reported slow ranks. An exception ends the loop.
\<close>

definition precheck_phase ::
    "'st redis_client \<Rightarrow> (string \<Rightarrow> perf_metric py_result) \<Rightarrow> global_analyzer \<Rightarrow> bool \<Rightarrow> 'st env \<Rightarrow> 'st \<Rightarrow> ('st, unit) waiting" where
  "precheck_phase rc from_bytes ga precheck env st =
     wait_then (sleep_once env st) (\<lambda>_ env st.
       if precheck then Some (Inr (), env, st)
       else
         wait_then (sleep_once env st) (\<lambda>_ env st.
           wait_then (do_precheck rc from_bytes ga env st) (\<lambda>_ env st.
             Some (Inr (), env, rc_set rc ''precheck_done'' ''1'' st))))"

definition server_turn ::
    "'st redis_client \<Rightarrow> float_io \<Rightarrow> (string \<Rightarrow> perf_metric py_result) \<Rightarrow> (rat list \<Rightarrow> rat) \<Rightarrow> dp_solver
     \<Rightarrow> rat \<Rightarrow> 'st tick list \<Rightarrow> 'st env \<Rightarrow> 'st global_server \<Rightarrow> ('st global_server, unit) py_run option" where
  "server_turn rc fl from_bytes median solver slow_start ticks env gs =
     (case precheck_phase rc from_bytes (gs_analyzer gs) (gs_precheck gs) env (mp_client (gs_handler gs)) of
        None \<Rightarrow> None
      | Some (r, env1, st1) \<Rightarrow>
          (let m1 = (gs_handler gs)\<lparr>mp_client := st1\<rparr>; gs1 = gs\<lparr>gs_precheck := True, gs_handler := m1\<rparr>
           in case r of
                Inl e \<Rightarrow> Some (Inl e, gs1)
              | Inr _ \<Rightarrow>
                  if check_failslow_events rc st1 = [] then Some (Inr (), gs1)
                  else
                    (case handle_failslow rc fl from_bytes median solver (gs_analyzer gs) slow_start ticks env1 m1 of
                       None \<Rightarrow> None
                     | Some (Inl e, m2) \<Rightarrow> Some (Inl e, gs1\<lparr>gs_handler := m2\<rparr>)
                     | Some (Inr _, m2) \<Rightarrow> Some (Inr (), gs1\<lparr>gs_handler := m2\<rparr>))))"

section \<open>The training processes\<close>


section \<open>Every rank of a task gets its part\<close>

lemma py_str_int_inj: "py_str_int i = py_str_int j \<longleftrightarrow> i = j"
  by (metis int_of_printed sum.inject(2))

lemma task_key_inj [simp]: "task_key i = task_key j \<longleftrightarrow> i = j"
  by (simp add: task_key_def py_str_int_inj)

lemma no_underscore: "CHR ''_'' \<notin> set (py_str_int i)"
  using printed_chars [of "CHR ''_''" i] by (auto simp: py_digit_def)

lemma result_key_neq [simp]: "result_key i \<noteq> task_key j" "task_key j \<noteq> result_key i"
proof -
  have "CHR ''_'' \<in> set (py_str_int j)" if "py_str_int i @ ''_result'' = py_str_int j"
    unfolding that [symmetric] by simp
  then have "py_str_int i @ ''_result'' \<noteq> py_str_int j" using no_underscore by blast
  then show "result_key i \<noteq> task_key j" "task_key j \<noteq> result_key i" by (auto simp: result_key_def task_key_def)
qed

lemma result_key_inj [simp]: "result_key i = result_key j \<longleftrightarrow> i = j"
  by (simp add: result_key_def)

lemma send_other:
  assumes "redis_laws rc" and "\<And>x. x \<in> fst ` set pairs \<union> snd ` set pairs \<Longrightarrow> map_of group2global x \<noteq> Some g \<or> (\<forall>g. k \<noteq> task_key g)"
    and "k = task_key g \<or> (\<forall>g. k \<noteq> task_key g)"
  shows "rc_get rc k (snd (send_tasks rc pairs comm_addrs group2global st)) = rc_get rc k st"
  using assms(2)
proof (induction pairs arbitrary: st)
  case (Cons p pairs)
  obtain s r where p: "p = (s, r)" by fastforce
  have IH: "rc_get rc k (snd (send_tasks rc pairs comm_addrs group2global st')) = rc_get rc k st'" for st'
    using Cons by auto
  show ?case using Cons.prems [of s] Cons.prems [of r] IH assms(3)
    by (auto simp: p Let_def redis_simps [OF assms(1)] split: option.splits)
qed simp

lemma send_pairs:
  assumes "redis_laws rc" and "inj_on (map_of group2global) (set (map fst pairs @ map snd pairs))"
    and "\<forall>x\<in>set (map fst pairs @ map snd pairs). map_of group2global x \<noteq> None \<and> map_of comm_addrs x \<noteq> None"
    and "distinct (map fst pairs @ map snd pairs)"
  shows "fst (send_tasks rc pairs comm_addrs group2global st) = Inr () \<and>
    (\<forall>(s, r)\<in>set pairs.
      rc_get rc (task_key (the (map_of group2global s))) (snd (send_tasks rc pairs comm_addrs group2global st)) =
        Some (task_text ROLE_SENDER r (the (map_of comm_addrs s))) \<and>
      rc_get rc (task_key (the (map_of group2global r))) (snd (send_tasks rc pairs comm_addrs group2global st)) =
        Some (task_text ROLE_RECVER s (the (map_of comm_addrs r))))"
  using assms(2-4)
proof (induction pairs arbitrary: st)
  case (Cons p pairs)
  obtain s r where p: "p = (s, r)" by fastforce
  obtain gs gr as ar where g: "map_of group2global s = Some gs" "map_of group2global r = Some gr"
      "map_of comm_addrs s = Some as" "map_of comm_addrs r = Some ar"
    using Cons.prems(2) p by auto
  let ?st = "rc_set rc (task_key gr) (task_text ROLE_RECVER s ar) (rc_set rc (task_key gs) (task_text ROLE_SENDER r as) st)"
  have d: "send_tasks rc (p # pairs) comm_addrs group2global st = send_tasks rc pairs comm_addrs group2global ?st"
    by (simp add: p g)
  have pre: "inj_on (map_of group2global) (set (map fst pairs @ map snd pairs))"
    "\<forall>x\<in>set (map fst pairs @ map snd pairs). map_of group2global x \<noteq> None \<and> map_of comm_addrs x \<noteq> None"
    "distinct (map fst pairs @ map snd pairs)"
    using inj_on_subset [OF Cons.prems(1)] Cons.prems(2,3) by (auto simp: p)
  note IH = Cons.IH [OF pre, of ?st]
  have new: "map_of group2global x \<noteq> Some gs \<and> map_of group2global x \<noteq> Some gr" if "x \<in> fst ` set pairs \<union> snd ` set pairs" for x
  proof -
    have "x \<noteq> s" "x \<noteq> r" using that Cons.prems(3) p by auto
    then show ?thesis using inj_onD [OF Cons.prems(1), of x s] inj_onD [OF Cons.prems(1), of x r] that g p by auto
  qed
  have "s \<noteq> r" using Cons.prems(3) p by auto
  then have "gs \<noteq> gr" using inj_onD [OF Cons.prems(1), of s r] g p by auto
  then have "rc_get rc (task_key gs) (snd (send_tasks rc pairs comm_addrs group2global ?st)) = Some (task_text ROLE_SENDER r as) \<and>
      rc_get rc (task_key gr) (snd (send_tasks rc pairs comm_addrs group2global ?st)) = Some (task_text ROLE_RECVER s ar)"
    using send_other [OF assms(1), of pairs group2global gs "task_key gs" comm_addrs ?st]
      send_other [OF assms(1), of pairs group2global gr "task_key gr" comm_addrs ?st] new
    by (simp add: redis_simps [OF assms(1)])
  then show ?case using IH unfolding d by (auto simp: p g)
qed simp

text \<open>The ranks of a task of a ring are distinct members of the ring.\<close>

lemma ring_task_ranks:
  assumes "distinct ring" and "2 \<le> length ring" and "split_ring ring = Inr tasks" and "(senders, recvers) \<in> set tasks"
  shows "length senders = length recvers" and "distinct (senders @ recvers)"
    and "set (zip senders recvers) \<subseteq> set (ring_links ring)" and "set (senders @ recvers) \<subseteq> set ring"
proof -
  have sp: "mset (concat (map task_links tasks)) = mset (ring_links ring)"
    "list_all (\<lambda>(senders, recvers). length senders = length recvers \<and> distinct (senders @ recvers)) tasks"
    using split_ring_parts [OF assms(1,2)] assms(3) by auto
  then show t: "length senders = length recvers" "distinct (senders @ recvers)"
    using assms(4) by (auto simp: list_all_iff)
  have "set (zip senders recvers) \<subseteq> set (concat (map task_links tasks))"
    using assms(4) by (auto simp: task_links_def intro!: bexI [of _ "(senders, recvers)"])
  then show links: "set (zip senders recvers) \<subseteq> set (ring_links ring)" using sp(1) by (metis set_mset_mset)
  have m: "map fst (zip senders recvers) = senders" "map snd (zip senders recvers) = recvers" using t(1) by simp_all
  have "set (ring_links ring) \<subseteq> set ring \<times> set ring"
    using assms(2) by (auto simp: ring_links_def intro!: nth_mem mod_less_divisor)
  then have "set (zip senders recvers) \<subseteq> set ring \<times> set ring" using links by blast
  then have "fst ` set (zip senders recvers) \<subseteq> set ring" "snd ` set (zip senders recvers) \<subseteq> set ring" by auto
  then have "set (map fst (zip senders recvers)) \<subseteq> set ring" "set (map snd (zip senders recvers)) \<subseteq> set ring"
    unfolding set_map .
  then show "set (senders @ recvers) \<subseteq> set ring" unfolding m by simp
qed

text \<open>
  Ring tasks are dispatched completely. For a ring of distinct ranks that are all members of the
  communicator, each of the tasks of the ring is written without error, and afterwards the store
  holds for every link of the task the sender's part under the sender's global rank and the receiver's
  part under the receiver's: no rank's part is overwritten by another link.
\<close>

theorem ring_tasks_dispatched:
  fixes st :: 'st
  assumes "redis_laws rc" and "distinct ring" and "2 \<le> length ring"
    and "split_ring ring = Inr tasks" and "(senders, recvers) \<in> set tasks"
    and "inj_on (map_of group2global) (set ring)"
    and "\<forall>x\<in>set ring. map_of group2global x \<noteq> None \<and> map_of comm_addrs x \<noteq> None"
  defines "st' \<equiv> snd (send_tasks rc (zip senders recvers) comm_addrs group2global st)"
  shows "fst (send_tasks rc (zip senders recvers) comm_addrs group2global st) = Inr () \<and>
    set (zip senders recvers) \<subseteq> set (ring_links ring) \<and>
    (\<forall>(s, r)\<in>set (zip senders recvers).
      rc_get rc (task_key (the (map_of group2global s))) st' = Some (task_text ROLE_SENDER r (the (map_of comm_addrs s))) \<and>
      rc_get rc (task_key (the (map_of group2global r))) st' = Some (task_text ROLE_RECVER s (the (map_of comm_addrs r))))"
proof -
  note t = ring_task_ranks [OF assms(2-5)]
  have m: "map fst (zip senders recvers) = senders" "map snd (zip senders recvers) = recvers" using t(1) by simp_all
  have inj: "inj_on (map_of group2global) (set (map fst (zip senders recvers) @ map snd (zip senders recvers)))"
    unfolding m by (rule inj_on_subset [OF assms(6) t(4)])
  have known: "\<forall>x\<in>set (map fst (zip senders recvers) @ map snd (zip senders recvers)).
      map_of group2global x \<noteq> None \<and> map_of comm_addrs x \<noteq> None"
    unfolding m using assms(7) t(4) by blast
  have "distinct (map fst (zip senders recvers) @ map snd (zip senders recvers))" unfolding m by (rule t(2))
  note send_pairs [OF assms(1) inj known this, of st, folded st'_def]
  then show ?thesis using t(3) by blast
qed

theorem ring_tasks_dispatched_witness:
  "rc_get dict_client ''validtask_rank_6'' (snd (send_tasks dict_client (zip [0, 2] [1, 3])
       [(0, 10), (1, 11), (2, 12), (3, 13)] [(0, 4), (1, 5), (2, 6), (3, 7)] ([], []))) = Some ''0_3_12''"
proof -
  let ?ca = "[(0, 10), (1, 11), (2, 12), (3, 13)] :: (int, int) dict" and ?gg = "[(0, 4), (1, 5), (2, 6), (3, 7)] :: (int, int) dict"
  have s: "split_ring [0, 1, 2, 3] = Inr [([0, 2], [1, 3]), ([1, 3], [2, 0])]" by (simp add: split_ring_def)
  have d: "distinct [0, 1, 2, 3 :: int]" "2 \<le> length [0, 1, 2, 3 :: int]"
    "([0, 2], [1, 3]) \<in> set [([0, 2], [1, 3]), ([1, 3], [2, 0 :: int])]" by simp_all
  have g: "inj_on (map_of ?gg) (set [0, 1, 2, 3])" "\<forall>x\<in>set [0, 1, 2, 3]. map_of ?gg x \<noteq> None \<and> map_of ?ca x \<noteq> None"
    by (simp_all add: inj_on_def)
  have "(2, 3) \<in> set (zip [0, 2] [1, 3 :: int])" by simp
  with ring_tasks_dispatched [OF dict_client_laws d(1,2) s d(3) g, of "([], [])"]
  have "rc_get dict_client (task_key (the (map_of ?gg 2))) (snd (send_tasks dict_client (zip [0, 2] [1, 3]) ?ca ?gg ([], []))) =
      Some (task_text ROLE_SENDER 3 (the (map_of ?ca 2)))"
    by blast
  moreover have "task_key (the (map_of ?gg 2)) = ''validtask_rank_6''" by code_simp
  moreover have "task_text ROLE_SENDER 3 (the (map_of ?ca 2)) = ''0_3_12''" by code_simp
  ultimately show ?thesis by (simp only:)
qed

section \<open>A validated ring\<close>









subsection \<open>Waiting and collecting\<close>





subsection \<open>One task\<close>

text \<open>The part of a rank in a task, and the result of a task.\<close>

definition part_text :: "comm_task \<Rightarrow> (int, int) dict \<Rightarrow> int \<Rightarrow> string" where
  "part_text task comm_addrs x =
     (case map_of (zip (fst task) (snd task)) x of
        Some r \<Rightarrow> task_text ROLE_SENDER r (dict_get comm_addrs x 0)
      | None \<Rightarrow> task_text ROLE_RECVER (the (map_of (zip (snd task) (fst task)) x)) (dict_get comm_addrs x 0))"

definition task_result ::
    "(int \<Rightarrow> string \<Rightarrow> perf_metric) \<Rightarrow> (int, int) dict \<Rightarrow> (int, int) dict \<Rightarrow> comm_task \<Rightarrow> (int, perf_metric) dict" where
  "task_result metric comm_addrs group2global task =
     map (\<lambda>x. let g = dict_get group2global x 0 in (g, metric g (part_text task comm_addrs x))) (fst task @ snd task)"









section \<open>Resuming the training\<close>

text \<open>What keeps the control state: everything the controller does but setting it.\<close>

definition keeps_state :: "'st redis_client \<Rightarrow> 'st \<Rightarrow> 'st \<Rightarrow> bool" where
  "keeps_state rc st st' \<longleftrightarrow> rc_get rc ''control_state'' st' = rc_get rc ''control_state'' st"


definition run_keeps :: "'st redis_client \<Rightarrow> 'st env \<Rightarrow> 'st \<Rightarrow> ('st, 'a) waiting \<Rightarrow> bool" where
  "run_keeps rc env st m \<longleftrightarrow> (\<forall>r env' st'. m = Some (r, env', st') \<longrightarrow> keeps_state rc st st' \<and> set env' \<subseteq> set env)"

lemma keeps_refl [simp]: "keeps_state rc st st"
  by (simp add: keeps_state_def)





lemma run_keeps_None [simp]: "run_keeps rc env st None"
  by (simp add: run_keeps_def)

lemma run_keeps_Some [simp]:
  "run_keeps rc env st (Some (r, env', st')) \<longleftrightarrow> keeps_state rc st st' \<and> set env' \<subseteq> set env"
  by (auto simp: run_keeps_def)
























end
