(* ===== verification/Profile_Exchange.thy ===== *)
theory Profile_Exchange
  imports Local_Control Global_Control
begin

text \<open>
  The profiles on their way from a local controller (\<open>report_profiling_result\<close>) through the store to the
  global analyzer (\<open>wait_and_build_performance_map\<close>).
\<close>

definition perf_key :: "int \<Rightarrow> string" where
  "perf_key a = ''Perf_'' @ py_str_int a"

definition profile_metric :: "(rat list \<Rightarrow> rat) \<Rightarrow> (int \<times> int) list \<Rightarrow> perf_metric" where
  "profile_metric std comm_array =
     (let ds = map (of_int \<circ> snd) comm_array
      in \<lparr>pm_min_lat = Min (set ds), pm_max_lat = Max (set ds), pm_avg_lat = sum_list ds / of_nat (length ds), pm_std_lat = std ds\<rparr>)"

definition metric_text :: "float_io \<Rightarrow> perf_metric \<Rightarrow> string" where
  "metric_text fl m = py_join (CHR ''_'') (map (fl_print fl) [pm_min_lat m, pm_max_lat m, pm_avg_lat m, pm_std_lat m])"

lemma perf_key_inj [simp]: "perf_key a = perf_key b \<longleftrightarrow> a = b"
  by (simp add: perf_key_def py_str_int_inj)

lemma strip_perf_key: "strip_chars ''Perf_'' (perf_key a) = py_str_int a"
proof -
  have no: "c \<notin> set ''Perf_''" if "c \<in> set (py_str_int a)" for c
    using printed_chars [OF that] by (auto simp: py_digit_def)
  have keep: "dropWhile (\<lambda>c. c \<in> set ''Perf_'') xs = xs" if "set xs \<subseteq> set (py_str_int a)" for xs
    using no that by (cases xs) auto
  have "dropWhile (\<lambda>c. c \<in> set ''Perf_'') (''Perf_'' @ py_str_int a) = py_str_int a"
    using keep [of "py_str_int a"] by simp
  then show ?thesis using keep [of "rev (py_str_int a)"] by (simp add: strip_chars_def perf_key_def del: set_simps)
qed

lemma parse_metric_text: "float_text fl \<Longrightarrow> parse_metric fl (metric_text fl m) = Inr m"
proof -
  assume f: "float_text fl"
  let ?ws = "map (fl_print fl) [pm_min_lat m, pm_max_lat m, pm_avg_lat m, pm_std_lat m]"
  have "\<forall>w\<in>set ?ws. CHR ''_'' \<notin> set w" using f by (simp add: float_text_def)
  then have "py_split (CHR ''_'') (py_join (CHR ''_'') ?ws) = ?ws" by (intro split_join) auto
  then show ?thesis using f by (simp add: parse_metric_def metric_text_def float_text_def)
qed

section \<open>Writing\<close>

lemma report_keys:
  assumes "redis_laws rc" and "\<forall>(a, arr)\<in>set results. arr \<noteq> []"
  shows "fst (report_profiling_result rc fl std results s) = Inr () \<and>
    rc_get rc k (lc_client (snd (report_profiling_result rc fl std results s))) =
      (case map_of (rev (map (\<lambda>(a, arr). (perf_key a, metric_text fl (profile_metric std arr))) results)) k of
         Some t \<Rightarrow> Some t | None \<Rightarrow> rc_get rc k (lc_client s))"
  using assms(2)
proof (induction results arbitrary: s)
  case (Cons e results)
  obtain a arr where e: "e = (a, arr)" by fastforce
  show ?case using Cons
    by (auto simp: e Let_def redis_simps [OF assms(1)] map_add_def perf_key_def metric_text_def profile_metric_def split: option.splits)
qed simp

section \<open>Reading\<close>

lemma scan_known:
  assumes "float_text fl" and "set keys \<subseteq> perf_key ` A" and "\<And>a. a \<in> A \<Longrightarrow> rc_get rc (perf_key a) st = Some (metric_text fl (m a))"
    and "distinct (map fst perfs)"
  shows "\<exists>perfs'. scan_perfs rc fl keys perfs st = Inr perfs' \<and> distinct (map fst perfs') \<and>
    map_of perfs' = (\<lambda>a. if perf_key a \<in> set keys then Some (m a) else map_of perfs a)"
  using assms(2,4)
proof (induction keys arbitrary: perfs)
  case (Cons k keys)
  obtain a where a: "k = perf_key a" "a \<in> A" using Cons.prems(1) by auto
  let ?p = "AList.update a (m a) perfs"
  have s: "scan_perfs rc fl (k # keys) perfs st = scan_perfs rc fl keys ?p st"
    using assms(3) [OF a(2)] parse_metric_text [OF assms(1), of "m a"]
    by (simp add: a(1) strip_perf_key int_of_printed redis_text_def)
  obtain perfs' where "scan_perfs rc fl keys ?p st = Inr perfs'" "distinct (map fst perfs')"
      "map_of perfs' = (\<lambda>b. if perf_key b \<in> set keys then Some (m b) else map_of ?p b)"
    using Cons.IH [of ?p] Cons.prems by (auto simp: distinct_update)
  then show ?case unfolding s by (auto simp: a(1) update_conv')
qed simp

lemma length_eq_card_dom: "distinct (map fst d) \<Longrightarrow> length d = card (dom (map_of d))"
  by (metis distinct_card dom_map_of_conv_image_fst length_map list.set_map)

lemma perf_scan:
  assumes "redis_laws rc"
  shows "set (rc_scan rc ''Perf_'' st) = {k. take 5 k = ''Perf_'' \<and> rc_get rc k st \<noteq> None}"
proof -
  have "length ''Perf_'' = 5" by simp
  with redis_after(9) [OF assms, of "''Perf_''" st] show ?thesis by (simp only:)
qed

lemma map_of_rev_distinct: "distinct (map fst xs) \<Longrightarrow> map_of (rev xs) = map_of xs"
  by (subst map_of_inject_set) (simp_all flip: rev_map)

lemma map_of_mapped: "inj f \<Longrightarrow> map_of (map (\<lambda>(a, x). (f a, g x)) xs) (f b) = map_option g (map_of xs b)"
  by (induction xs) (auto dest: injD)

lemma the_on_dom: "dom m = A \<Longrightarrow> (\<lambda>a. if a \<in> A then Some (the (m a)) else None) = m"
  by (auto simp: fun_eq_iff)

lemma get_after_deletes:
  "redis_laws rc \<Longrightarrow> rc_get rc k (fold (rc_delete rc) ks st) = (if k \<in> set ks then None else rc_get rc k st)"
  by (induction ks arbitrary: st) (auto simp: redis_simps)

lemma wait_perfs_known:
  assumes "redis_laws rc" and "float_text fl" and "A \<noteq> {}" and "finite A"
    and "\<And>st'. st' \<in> {st, others st} \<Longrightarrow> set (rc_scan rc ''Perf_'' st') = perf_key ` A"
    and "\<And>st' a. st' \<in> {st, others st} \<Longrightarrow> a \<in> A \<Longrightarrow> rc_get rc (perf_key a) st' = Some (metric_text fl (m a))"
  shows "\<exists>perfs. wait_perfs rc fl [] 0 (others # env) st = Some (Inr perfs, env, others st) \<and>
    map_of perfs = (\<lambda>a. if a \<in> A then Some (m a) else None)"
proof -
  let ?m = "\<lambda>a. if a \<in> A then Some (m a) else None"
  have key: "perf_key a \<in> perf_key ` A \<longleftrightarrow> a \<in> A" for a by auto
  have len: "length p = card A" if "distinct (map fst p)" "map_of p = ?m" for p :: "(int, perf_metric) dict"
    using length_eq_card_dom [OF that(1)] that(2) by (simp add: dom_def)
  have c: "card A \<noteq> 0" using assms(3,4) by simp
  obtain p1 where p1: "scan_perfs rc fl (rc_scan rc ''Perf_'' st) [] st = Inr p1" "distinct (map fst p1)" "map_of p1 = ?m"
    using scan_known [OF assms(2), of "rc_scan rc ''Perf_'' st" A rc st m "[]"] assms(5,6) by (auto simp: key cong: if_cong)
  obtain p2 where p2: "scan_perfs rc fl (rc_scan rc ''Perf_'' (others st)) p1 (others st) = Inr p2" "distinct (map fst p2)" "map_of p2 = ?m"
    using scan_known [OF assms(2), of "rc_scan rc ''Perf_'' (others st)" A rc "others st" m p1] assms(5,6) p1(2,3)
    by (auto simp: key cong: if_cong)
  have "wait_perfs rc fl p1 (card A) env (others st) = Some (Inr p2, env, others st)"
    using p2(1) len [OF p2(2,3)] c by (subst wait_perfs.simps) simp
  moreover have "wait_perfs rc fl [] 0 (others # env) st = wait_perfs rc fl p1 (card A) env (others st)"
    using p1(1) len [OF p1(2,3)] c by (subst wait_perfs.simps) simp
  ultimately show ?thesis using p2(3) by auto
qed

text \<open>
  C34. Profiles arrive. Let a local controller report the durations of its communicators, at least one, all
  with data, to a store without profiles. If no other process changes profiles meanwhile, the global
  analyzer returns after one second with exactly these communicators, each with the least, greatest and
  mean duration and the deviation that were reported, and no profile is left in the store.
\<close>

theorem profiles_arrive:
  fixes s :: "'st local_controller" and std :: "rat list \<Rightarrow> rat"
  assumes "redis_laws rc" and "float_text fl" and "distinct (map fst results)" and "results \<noteq> []"
    and "\<forall>(a, arr)\<in>set results. arr \<noteq> []" and "rc_scan rc ''Perf_'' (lc_client s) = []"
    and "\<And>p st. rc_get rc (''Perf_'' @ p) (others st) = rc_get rc (''Perf_'' @ p) st"
  defines "run \<equiv> report_profiling_result rc fl std results s"
  shows "fst run = Inr () \<and>
    (\<exists>perfs st'. wait_and_build_performance_map rc fl (others # env) (lc_client (snd run)) = Some (Inr perfs, env, st') \<and>
      map_of perfs = map_of (map (\<lambda>(a, arr). (a, profile_metric std arr)) results) \<and>
      rc_scan rc ''Perf_'' st' = [])"
proof -
  let ?st = "lc_client (snd run)" and ?A = "fst ` set results"
  let ?d = "map (\<lambda>(a, arr). (a, profile_metric std arr)) results"
  let ?L = "map (\<lambda>(a, arr). (perf_key a, metric_text fl (profile_metric std arr))) results"
  have "inj perf_key" by (simp add: inj_def)
  then have "distinct (map perf_key (map fst results))" using assms(3) by (simp only: distinct_map) (auto intro: inj_on_subset)
  then have L: "map_of (rev ?L) = map_of ?L" by (intro map_of_rev_distinct) (simp add: split_def o_def)
  have mem: "k \<in> perf_key ` ?A" if "map_of ?L k \<noteq> None" for k
    using that by (force dest!: map_of_SomeD)
  have rep: "fst run = Inr ()" "rc_get rc k ?st = (case map_of ?L k of Some t \<Rightarrow> Some t | None \<Rightarrow> rc_get rc k (lc_client s))" for k
    using report_keys [OF assms(1,5), of fl std s] unfolding run_def L by auto
  have "rc_get rc k (lc_client s) = None" if "take 5 k = ''Perf_''" for k
    using perf_scan [OF assms(1), of "lc_client s"] assms(6) that by auto
  then have get: "rc_get rc k ?st = map_of ?L k" if "take 5 k = ''Perf_''" for k
    using rep(2) [of k] that by (auto split: option.splits)
  have pre: "take 5 (perf_key a) = ''Perf_''" for a by (simp add: perf_key_def)
  have val: "rc_get rc (perf_key a) ?st = Some (metric_text fl (the (map_of ?d a)))" if "a \<in> ?A" for a
  proof -
    have "map_of ?d a \<noteq> None" using that by (auto simp: map_of_eq_None_iff image_iff split_def)
    moreover have "map_of ?L (perf_key a) = map_option (metric_text fl) (map_of ?d a)"
      using map_of_mapped [OF \<open>inj perf_key\<close>, of "metric_text fl" ?d a] by (simp add: split_def o_def)
    ultimately show ?thesis using get [OF pre] by auto
  qed
  have scan: "set (rc_scan rc ''Perf_'' ?st) = perf_key ` ?A"
  proof
    show "set (rc_scan rc ''Perf_'' ?st) \<subseteq> perf_key ` ?A" using mem get by (auto simp: perf_scan [OF assms(1)])
    show "perf_key ` ?A \<subseteq> set (rc_scan rc ''Perf_'' ?st)"
      using val pre unfolding perf_scan [OF assms(1)] by (intro subsetI) (elim imageE, simp)
  qed
  have oth: "rc_get rc k (others st) = rc_get rc k st" if "take 5 k = ''Perf_''" for k st
    using assms(7) [of "drop 5 k" st] append_take_drop_id [of 5 k] that by simp
  have "set (rc_scan rc ''Perf_'' (others ?st)) = set (rc_scan rc ''Perf_'' ?st)"
    unfolding perf_scan [OF assms(1)] by (intro Collect_cong conj_cong refl) (simp add: oth)
  then have scan': "set (rc_scan rc ''Perf_'' (others ?st)) = perf_key ` ?A" using scan by simp
  have "\<exists>perfs. wait_perfs rc fl [] 0 (others # env) ?st = Some (Inr perfs, env, others ?st) \<and>
      map_of perfs = (\<lambda>a. if a \<in> ?A then Some (the (map_of ?d a)) else None)"
  proof (rule wait_perfs_known [OF assms(1,2)])
    show "set (rc_scan rc ''Perf_'' st') = perf_key ` ?A" if "st' \<in> {?st, others ?st}" for st'
      using that scan scan' by blast
    show "rc_get rc (perf_key a) st' = Some (metric_text fl (the (map_of ?d a)))" if "st' \<in> {?st, others ?st}" "a \<in> ?A" for st' a
      using that(1) val [OF that(2)] oth [OF pre, of a ?st] by (elim insertE emptyE) simp_all
  qed (use assms(4) in simp_all)
  then obtain perfs where w: "wait_perfs rc fl [] 0 (others # env) ?st = Some (Inr perfs, env, others ?st)"
    and p: "map_of perfs = (\<lambda>a. if a \<in> ?A then Some (the (map_of ?d a)) else None)" by blast
  let ?st' = "fold (rc_delete rc) (rc_scan rc ''Perf_'' (others ?st)) (others ?st)"
  have "set (rc_scan rc ''Perf_'' ?st') = {}"
    by (auto simp: perf_scan [OF assms(1)] get_after_deletes [OF assms(1)])
  moreover have "dom (map_of ?d) = ?A" by (force simp: dom_map_of_conv_image_fst)
  then have "map_of perfs = map_of ?d" unfolding p by (rule the_on_dom)
  ultimately show ?thesis using rep(1) w by (auto simp: wait_and_build_performance_map_def)
qed

theorem profiles_arrive_witness:
  "\<exists>perfs st'. wait_and_build_performance_map dict_client fraction_io [id]
       (lc_client (snd (report_profiling_result dict_client fraction_io (\<lambda>ds. 0) [(12, [(1, 5), (1, 7)])]
          \<lparr>lc_prev_event_ids = [], lc_reported = {}, lc_client = ([], [])\<rparr>))) = Some (Inr perfs, [], st') \<and>
     map_of perfs 12 = Some \<lparr>pm_min_lat = 5, pm_max_lat = 7, pm_avg_lat = 6, pm_std_lat = 0\<rparr>"
proof -
  let ?s = "\<lparr>lc_prev_event_ids = [], lc_reported = {}, lc_client = ([], [])\<rparr> :: dict_store local_controller"
  let ?r = "[(12, [(1, 5), (1, 7)])] :: (int, (int \<times> int) list) dict"
  have h: "distinct (map fst ?r)" "?r \<noteq> []" "\<forall>(a, arr)\<in>set ?r. arr \<noteq> []" "rc_scan dict_client ''Perf_'' (lc_client ?s) = []"
    by (simp_all add: dict_client_def)
  have i: "rc_get dict_client (''Perf_'' @ p) (id st) = rc_get dict_client (''Perf_'' @ p) st" for p st by simp
  have m: "profile_metric (\<lambda>ds. 0) [(1, 5), (1, 7)] = \<lparr>pm_min_lat = 5, pm_max_lat = 7, pm_avg_lat = 6, pm_std_lat = 0\<rparr>"
    by (simp add: profile_metric_def)
  show ?thesis
    using profiles_arrive [where others = id, OF dict_client_laws fraction_io_text h i, of "\<lambda>ds. 0" "[]"]
    by (elim conjE exE) (intro exI conjI, assumption, simp add: m)
qed

end
