(* ===== verification/Spec2Isabelle.thy ===== *)
theory Spec2Isabelle
  imports Streaming_Dataset Task_Manager Status_Flow Network_Check Coordination Job_Resource
    Nccl_Record Profile_Exchange
begin

text \<open>
  A verification library for the two programs of the repository: the job master of DLRover, the elastic
  training controller in \<open>src/xputimer-metax/dlrover/python/\<close>, and Greyhound, the detector of slow ranks in
  \<open>src/greyhound-metax/detector/\<close>.

  DLRover. One master process runs beside the workers of a training job. Workers ask it for
  shards of the datasets (\<open>master/shard/\<close>), join rendezvous rounds that build the communication
  world, and take part in pairwise network checks (\<open>master/elastic_training/\<close>). The master keeps the
  nodes of the job (\<open>common/node.py\<close>, \<open>master/node/\<close>), follows their status by pod events, relaunches
  lost nodes, and hands diagnosis actions to the workers (\<open>diagnosis/common/\<close>). The components share
  the job context; a worker that dies makes the task manager queue its shards again, and a waiting
  node that exited leaves the rendezvous.

  Greyhound. A probe inside each training process writes every NCCL call to a ring buffer in shared
  memory and its communicators to a Redis store. A local controller on each node reads the buffer, finds
  the period of the calls and change points of the iteration time, and reports ranks that became slow.
  The global controller then profiles, picks the slow groups of communicators, pauses the training, has
  each link of their rings and the computation of each rank tested, resumes the training and plans a
  mitigation: other batch sizes or another split of the pipeline layers.

  How the code is modelled. Every component is a record of its fields and one function for every
  method, in the order of the source. A method that can raise returns the exception or the value
  together with the state at that moment (\<open>py_run\<close> in Py\_Prelude), so partial updates before an
  exception are visible. Dictionaries are association lists in insertion order, sets are sets, floats
  and times are exact rationals, integers are unbounded as in Python. The clock is an argument (one
  reading for each call), the outcome of a random shuffle is an argument that ranges over the
  permutations, the job context a component reads is an argument. Each method is one atomic step, as
  its lock makes it; interleavings of workers are lists of operations, and the machine locales of
  Py\_Prelude (\<open>op_machine\<close>, \<open>counting_machine\<close>), interpreted on each component's step function, lift
  what one operation keeps to every run. Log lines and metric events are output and left out.

  The theories and what their lemmas show.

  \<^item> Py\_Prelude, Py\_Strings: Python data, arithmetic and strings; the dictionary interface
    \<open>ordered_dict\<close>; printed integers parse back, splitting undoes joining.
  \<^item> Job\_Constants: the enumerations and limits of \<open>common/constants.py\<close>.
  \<^item> Dataset\_Splitter (\<open>dataset_splitter.py\<close>): table and text splitters; the shards of the epochs of
    one pass are the dataset, each record once, bounded in number and size.
  \<^item> Dataset\_Manager (\<open>base_dataset_manager.py\<close>, \<open>batch_dataset_manager.py\<close>): the queues of a dataset;
    a ledger of created, completed and dropped shards over every run gives exactly-once training,
    completion is reachable from every state, checkpoints restore the outstanding shards.
  \<^item> Streaming\_Dataset (\<open>streaming_dataset_manager.py\<close> and the streaming part of the splitter): what the
    first call hands out, and three ways in which later calls, named partitions and checkpoints go
    wrong.
  \<^item> Perf\_Monitor (\<open>monitor/perf_monitor.py\<close>), Task\_Manager (\<open>shard/task_manager.py\<close>): the task manager
    refines one dataset manager for each dataset (\<open>tm_run_project\<close>); tasks of a dead node come back
    exactly.
  \<^item> Node\_Model, Status\_Flow, Diagnosis\_Action, Job\_Context: nodes, the status machine (its transitions
    are an order), the action queue and the shared context with its table invariant.
  \<^item> Net\_Topology, Rdzv\_Manager: the topology sort is the concatenation of the switch classes; rounds
    take the smallest ranks in multiples of the node unit, lose nobody and leave an invariant on world
    and waiting list.
  \<^item> Node\_Pairing, Network\_Check: the two pairing rounds of the plain check and the four pairings of the
    check with node groups put each node into one group; the verdict over a run, stragglers, phases.
  \<^item> Coordination: key-value store, synchronisation points, parameter-server versions, port agreement.
  \<^item> Training\_Node (\<open>node/training_node.py\<close>, \<open>scaler/base_scaler.py\<close>): node managers, fresh ids for
    relaunched nodes, cutting pending resources, the critical-worker index.
  \<^item> Worker\_Manager (\<open>node/worker.py\<close>): scaling reaches the number asked for and spares critical workers;
    missing workers end a job exactly after the timeout; one overdue node group hides the others.
  \<^item> Job\_Resource (\<open>resource/optimizer.py\<close>, \<open>resource/job.py\<close>): resource plans and the job's resource; what the
    user has set wins over any optimizer, nodes out of memory get more within bounds.

  \<^item> Nccl\_Comm (\<open>communicator.py\<close>, \<open>shm_topo.cpp\<close>), Nccl\_Record (\<open>NcclRecord\<close> of \<open>local_analyzer.py\<close>,
    \<open>shm_storage.cpp\<close>): the bytes of a communicator parse back; the ring buffer with its 64-bit words
    refines a bounded log.
  \<^item> Redis\_Client: the store and the texts of floats as parameters with the laws the code relies on, and an
    instance of the laws.
  \<^item> Comm\_Topology (\<open>global_topo.py\<close>, \<open>task_split.py\<close>): following the ring and tree pointers ends and finds
    rings and layers; the tasks of a ring are its links, each once.
  \<^item> Slow\_Clique (\<open>global_analyzer.py\<close>), Slow\_Detection (\<open>slow_detection.py\<close> and the analyses of
    \<open>local_analyzer.py\<close>): exactly the slow cliques are found; periods and change points.
  \<^item> Mitigation (\<open>mitigation_plan.py\<close>, \<open>dp_planner.py\<close>, \<open>pp_planner.py\<close>, \<open>cost_estimator.py\<close>): the layer split
    tiles the layers, the waiting loop ends, and which inputs raise.
  \<^item> Local\_Control, Global\_Control (\<open>local_controller.py\<close>, \<open>global_controller.py\<close>, the task loop of
    \<open>event_handler.cpp\<close>): reports are made once; together with the training processes a ring validation
    returns with every rank's result; the training is resumed after a completed validation and only then.
  \<^item> Profile\_Exchange: what a local controller reports is what the global analyzer reads.

  Termination and fuel. Loops recurse over lists or over index intervals with a decreasing measure. The
  walks along the pointers of a topology may run for ever on broken pointers and are partial functions
  whose value \<open>None\<close> means that they do not return; that they return on proper topologies is proved. Loops
  that poll the store take the list of what happens between two polls, and \<open>None\<close> says that the list is
  used up; the loop of the mitigation is shown to need at most 121 turns. Threads that run for ever are
  modelled by one pass, as an operation.

  Parameters of the Greyhound part are the Redis client, the texts of floats, the median and the standard
  deviation of numpy, the integer solver, the peaks of the autocorrelation, the z-scores and the
  change-point estimator.

  Not modelled. The remaining node and job managers (\<open>ps.py\<close>, \<open>dist_job_manager.py\<close>), the
  algorithms that make resource plans and the auto scaler, the agent side (\<open>elastic_agent/\<close>, checkpoint saver), the
  Kubernetes and Ray scalers and watchers (calls into their client libraries), the gRPC servicer (a
  dispatcher over the modelled operations), the C++ and Go parts but for the
  record buffer and the bytes of communicators, and in \<open>src/greyhound-metax\<close> the Megatron-LM fork (tensor
  code on GPUs), the injection scripts, plotting and process start-up. JSON text of checkpoints and actions, and unit conversions of
  resources, are not modelled inside the components above.
\<close>

end
